(* ===== verification/Prelude.thy ===== *)
theory Prelude
  imports Main "HOL-Library.Char_ord" "HOL-Library.List_Lexorder"
begin

text \<open>
  Shared vocabulary of the development: the string operations of the Rust standard library
  that the sources use (\<open>split_once\<close>, \<open>rsplit_once\<close>, \<open>strip_suffix\<close>, \<open>starts_with\<close>,
  \<open>ends_with\<close>, \<open>trim\<close>, \<open>join\<close>), the \<open>Result\<close> type as a sum with the error on the left,
  and the lemmas about them that every component uses.

  A Rust \<open>String\<close> is the list of the bytes of its UTF-8 encoding, one \<open>char\<close> per byte, so
  the order of strings is Rust's bytewise order.
\<close>

named_theorems str_simps \<open>rewrite rules for the string operations\<close>

section \<open>Results\<close>

text \<open>\<open>Result<T, E>\<close> is \<open>'e + 'a\<close>: \<open>Inl\<close> is \<open>Err\<close>, \<open>Inr\<close> is \<open>Ok\<close>.\<close>

type_synonym ('e, 'a) result = "'e + 'a"

definition res_bind :: "('e, 'a) result \<Rightarrow> ('a \<Rightarrow> ('e, 'b) result) \<Rightarrow> ('e, 'b) result" where
  "res_bind r k = (case r of Inl e \<Rightarrow> Inl e | Inr x \<Rightarrow> k x)"

definition map_err :: "('e \<Rightarrow> 'f) \<Rightarrow> ('e, 'a) result \<Rightarrow> ('f, 'a) result" where
  "map_err f r = (case r of Inl e \<Rightarrow> Inl (f e) | Inr x \<Rightarrow> Inr x)"

definition ok_or :: "'e \<Rightarrow> 'a option \<Rightarrow> ('e, 'a) result" where
  "ok_or e v = (case v of None \<Rightarrow> Inl e | Some x \<Rightarrow> Inr x)"

definition ok :: "('e, 'a) result \<Rightarrow> 'a option" where
  "ok r = (case r of Inl e \<Rightarrow> None | Inr x \<Rightarrow> Some x)"

definition is_ok :: "('e, 'a) result \<Rightarrow> bool" where
  "is_ok r = (case r of Inl e \<Rightarrow> False | Inr x \<Rightarrow> True)"

lemma res_bind_simps [simp]:
  "res_bind (Inl e) k = Inl e" "res_bind (Inr x) k = k x"
  by (simp_all add: res_bind_def)

lemma res_bind_Inr_iff: "res_bind r k = Inr y \<longleftrightarrow> (\<exists>x. r = Inr x \<and> k x = Inr y)"
  by (cases r) (auto simp: res_bind_def)

lemma map_err_simps [simp]:
  "map_err f (Inl e) = Inl (f e)" "map_err f (Inr x) = Inr x"
  by (simp_all add: map_err_def)

lemma map_err_Inr_iff [simp]: "map_err f r = Inr x \<longleftrightarrow> r = Inr x"
  by (cases r) auto

lemma ok_or_simps [simp]: "ok_or e None = Inl e" "ok_or e (Some x) = Inr x"
  by (simp_all add: ok_or_def)

lemma ok_or_Inr_iff [simp]: "ok_or e v = Inr x \<longleftrightarrow> v = Some x"
  by (cases v) auto

lemma ok_simps [simp]: "ok (Inl e) = None" "ok (Inr x) = Some x"
  by (simp_all add: ok_def)

lemma ok_Some_iff [simp]: "ok r = Some x \<longleftrightarrow> r = Inr x"
  by (cases r) auto

lemma is_ok_simps [simp]: "\<not> is_ok (Inl e)" "is_ok (Inr x)"
  by (simp_all add: is_ok_def)

section \<open>Strings\<close>

fun split_once :: "char \<Rightarrow> string \<Rightarrow> (string \<times> string) option" where
  "split_once c [] = None"
| "split_once c (x # xs) =
     (if x = c then Some ([], xs) else map_option (\<lambda>(a, b). (x # a, b)) (split_once c xs))"

definition rsplit_once :: "char \<Rightarrow> string \<Rightarrow> (string \<times> string) option" where
  "rsplit_once c s = map_option (\<lambda>(b, a). (rev a, rev b)) (split_once c (rev s))"

definition starts_with :: "string \<Rightarrow> string \<Rightarrow> bool" where
  "starts_with p s \<longleftrightarrow> take (length p) s = p"

definition ends_with :: "string \<Rightarrow> string \<Rightarrow> bool" where
  "ends_with p s \<longleftrightarrow> length p \<le> length s \<and> drop (length s - length p) s = p"

definition strip_suffix :: "string \<Rightarrow> string \<Rightarrow> string option" where
  "strip_suffix p s = (if ends_with p s then Some (take (length s - length p) s) else None)"

fun join :: "string \<Rightarrow> string list \<Rightarrow> string" where
  "join sep [] = []"
| "join sep [x] = x"
| "join sep (x # y # ys) = x @ sep @ join sep (y # ys)"

lemma split_once_Some_iff [str_simps]:
  "split_once c s = Some (a, b) \<longleftrightarrow> s = a @ c # b \<and> c \<notin> set a"
proof (induction s arbitrary: a)
  case (Cons x xs)
  show ?case
    using Cons.IH by (cases a) auto
qed simp

lemma split_once_None_iff [str_simps]: "split_once c s = None \<longleftrightarrow> c \<notin> set s"
  by (induction s) auto

lemma split_once_append [simp]: "c \<notin> set a \<Longrightarrow> split_once c (a @ c # b) = Some (a, b)"
  by (simp add: split_once_Some_iff)

lemma rsplit_once_Some_iff [str_simps]:
  "rsplit_once c s = Some (a, b) \<longleftrightarrow> s = a @ c # b \<and> c \<notin> set b"
proof -
  have "rsplit_once c s = Some (a, b) \<longleftrightarrow> split_once c (rev s) = Some (rev b, rev a)"
    by (auto simp: rsplit_once_def)
  then show ?thesis
    by (auto simp: split_once_Some_iff rev_swap)
qed

lemma ends_with_iff [str_simps]: "ends_with p s \<longleftrightarrow> (\<exists>r. s = r @ p)"
  by (auto simp: ends_with_def) (metis append_take_drop_id)

lemma ends_with_append [simp]: "ends_with p (r @ p)"
  by (auto simp: ends_with_iff)

lemma ends_with_last: "ends_with p s \<Longrightarrow> p \<noteq> [] \<Longrightarrow> last s = last p"
  by (auto simp: ends_with_iff)

lemma strip_suffix_Some_iff [str_simps]: "strip_suffix p s = Some r \<longleftrightarrow> s = r @ p"
  by (auto simp: strip_suffix_def ends_with_iff)

lemma strip_suffix_append [simp]: "strip_suffix p (r @ p) = Some r"
  by (simp add: strip_suffix_Some_iff)

lemma starts_with_iff [str_simps]: "starts_with p s \<longleftrightarrow> (\<exists>r. s = p @ r)"
  by (auto simp: starts_with_def) (metis append_take_drop_id)

lemma starts_with_append [simp]: "starts_with p (p @ r)"
  by (auto simp: starts_with_iff)

subsection \<open>White space\<close>

text \<open>
  \<open>str::trim\<close> drops the Unicode \<open>White_Space\<close> characters from both ends. On UTF-8 bytes
  these are the one-byte codes 9 to 13 and 32, the two-byte U+0085 and U+00A0, and the
  three-byte U+1680, U+2000 to U+200A, U+2028, U+2029, U+202F, U+205F and U+3000.
  \<open>ws_width\<close> is the number of bytes of the white-space character a string starts with.
\<close>

definition ws3 :: "nat \<Rightarrow> nat \<Rightarrow> nat \<Rightarrow> bool" where
  "ws3 a b c \<longleftrightarrow>
     a = 225 \<and> b = 154 \<and> c = 128
     \<or> a = 226 \<and> b = 128 \<and> (128 \<le> c \<and> c \<le> 138 \<or> c = 168 \<or> c = 169 \<or> c = 175)
     \<or> a = 226 \<and> b = 129 \<and> c = 159
     \<or> a = 227 \<and> b = 128 \<and> c = 128"

definition ws1 :: "nat \<Rightarrow> bool" where
  "ws1 a \<longleftrightarrow> 9 \<le> a \<and> a \<le> 13 \<or> a = 32"

definition ws2 :: "nat \<Rightarrow> nat \<Rightarrow> bool" where
  "ws2 a b \<longleftrightarrow> a = 194 \<and> (b = 133 \<or> b = 160)"

fun ws_width :: "nat list \<Rightarrow> nat" where
  "ws_width (a # b # c # _) = (if ws1 a then 1 else if ws2 a b then 2 else if ws3 a b c then 3 else 0)"
| "ws_width [a, b] = (if ws1 a then 1 else if ws2 a b then 2 else 0)"
| "ws_width [a] = (if ws1 a then 1 else 0)"
| "ws_width [] = 0"

text \<open>The same at the end of a string, reading its bytes from the last one.\<close>

fun ws_width_end :: "nat list \<Rightarrow> nat" where
  "ws_width_end (c # b # a # _) = (if ws1 c then 1 else if ws2 b c then 2 else if ws3 a b c then 3 else 0)"
| "ws_width_end [b, a] = (if ws1 b then 1 else if ws2 a b then 2 else 0)"
| "ws_width_end [a] = (if ws1 a then 1 else 0)"
| "ws_width_end [] = 0"

abbreviation bytes :: "string \<Rightarrow> nat list" where
  "bytes s \<equiv> map of_char s"

function trim_start :: "string \<Rightarrow> string" where
  "trim_start s =
     (if ws_width (bytes s) = 0 \<or> s = [] then s else trim_start (drop (ws_width (bytes s)) s))"
  by pat_completeness auto
termination
  by (relation "measure length") auto

function trim_rev :: "string \<Rightarrow> string" where
  "trim_rev s =
     (if ws_width_end (bytes s) = 0 \<or> s = [] then s else trim_rev (drop (ws_width_end (bytes s)) s))"
  by pat_completeness auto
termination
  by (relation "measure length") auto

declare trim_start.simps [simp del] trim_rev.simps [simp del]

definition trim :: "string \<Rightarrow> string" where
  "trim s = rev (trim_rev (rev (trim_start s)))"

text \<open>\<open>char::is_whitespace\<close> removal, character by character.\<close>

function remove_whitespace :: "string \<Rightarrow> string" where
  "remove_whitespace s =
     (case s of [] \<Rightarrow> []
      | x # xs \<Rightarrow>
         (if ws_width (bytes s) = 0 then x # remove_whitespace xs
          else remove_whitespace (drop (ws_width (bytes s)) s)))"
  by pat_completeness auto
termination
  by (relation "measure length") auto

declare remove_whitespace.simps [simp del]

definition is_ascii_alphanumeric :: "char \<Rightarrow> bool" where
  "is_ascii_alphanumeric c \<longleftrightarrow>
     (let n = (of_char c :: nat) in
      48 \<le> n \<and> n \<le> 57 \<or> 65 \<le> n \<and> n \<le> 90 \<or> 97 \<le> n \<and> n \<le> 122)"

text \<open>A string with no white-space byte and no byte of a multi-byte character is its own trim.\<close>

definition plain_char :: "char \<Rightarrow> bool" where
  "plain_char c \<longleftrightarrow> 32 < (of_char c :: nat) \<and> (of_char c :: nat) < 128"

lemma not_ws: "32 < a \<Longrightarrow> a < 128 \<Longrightarrow> \<not> ws1 a \<and> \<not> ws2 a b \<and> \<not> ws2 b a \<and> \<not> ws3 a b c \<and> \<not> ws3 c b a"
  by (simp add: ws1_def ws2_def ws3_def)

lemma ws_width_ascii: "32 < a \<Longrightarrow> a < 128 \<Longrightarrow> ws_width (a # r) = 0"
  by (cases r; cases "tl r") (simp_all add: not_ws)

lemma ws_width_end_ascii: "32 < a \<Longrightarrow> a < 128 \<Longrightarrow> ws_width_end (a # r) = 0"
  by (cases r; cases "tl r") (simp_all add: not_ws)

lemma plain_ws_width: "plain_char (hd s) \<Longrightarrow> s \<noteq> [] \<Longrightarrow> ws_width (bytes s) = 0"
  by (cases s) (simp_all add: plain_char_def ws_width_ascii)

lemma plain_ws_width_end: "plain_char (hd s) \<Longrightarrow> s \<noteq> [] \<Longrightarrow> ws_width_end (bytes s) = 0"
  by (cases s) (simp_all add: plain_char_def ws_width_end_ascii)

lemma trim_plain: "list_all plain_char s \<Longrightarrow> trim s = s"
proof (cases "s = []")
  case True
  then show ?thesis
    by (simp add: trim_def trim_start.simps trim_rev.simps)
next
  case False
  assume plain: "list_all plain_char s"
  with False have "plain_char (hd s)" "plain_char (hd (rev s))" "rev s \<noteq> []"
    by (auto simp: list_all_iff hd_rev)
  with False have "trim_start s = s" "trim_rev (rev s) = rev s"
    by (simp_all add: trim_start.simps trim_rev.simps plain_ws_width plain_ws_width_end)
  then show ?thesis
    by (simp add: trim_def)
qed

lemma ws_width_end_le: "ws_width_end bs \<le> 3"
  by (cases bs rule: ws_width_end.cases) simp_all

lemma ws_width_end_short:
  "32 < a \<Longrightarrow> a < 128 \<Longrightarrow> ws_width_end [a] = 0"
  "32 < a \<Longrightarrow> a < 128 \<Longrightarrow> ws_width_end [b, a] \<le> 1"
  "32 < a \<Longrightarrow> a < 128 \<Longrightarrow> ws_width_end [c, b, a] \<le> 2"
  by (simp_all add: not_ws)

lemma ws_width_end_stops:
  assumes "plain_char (last s)" "s \<noteq> []"
  shows "ws_width_end (bytes s) < length s"
proof -
  have "length s \<noteq> 0"
    using assms(2) by simp
  then consider "length s = Suc 0" | "length s = Suc (Suc 0)" | "length s = Suc (Suc (Suc 0))" | "3 < length s"
    by linarith
  then show ?thesis
  proof cases
    case 4
    then show ?thesis
      using ws_width_end_le [of "bytes s"] by simp
  next
    case 1
    then show ?thesis
      using assms(1) by (auto simp: length_Suc_conv plain_char_def ws_width_end_short simp del: ws_width_end.simps)
  next
    case 2
    then show ?thesis
      using assms(1) by (auto simp: length_Suc_conv plain_char_def less_Suc_eq_le
          intro!: ws_width_end_short [simplified One_nat_def] simp del: ws_width_end.simps)
  next
    case 3
    then show ?thesis
      using assms(1) ws_width_end_short(3)
      by (auto simp: length_Suc_conv plain_char_def less_Suc_eq_le numeral_2_eq_2 simp del: ws_width_end.simps)
  qed
qed

lemma trim_rev_last: "plain_char (last s) \<Longrightarrow> s \<noteq> [] \<Longrightarrow> trim_rev s \<noteq> []"
proof (induction s rule: trim_rev.induct)
  case (1 s)
  then have "drop (ws_width_end (bytes s)) s \<noteq> []"
    using ws_width_end_stops [of s] by simp
  with 1 show ?case
    by (subst trim_rev.simps) (auto simp: last_drop)
qed

text \<open>A text that starts with such a byte is not blank.\<close>

lemma trim_not_blank: "plain_char (hd s) \<Longrightarrow> s \<noteq> [] \<Longrightarrow> trim s \<noteq> []"
  using trim_rev_last [of "rev s"]
  by (simp add: trim_def trim_start.simps plain_ws_width last_rev)

lemma alphanumeric_plain: "is_ascii_alphanumeric c \<Longrightarrow> plain_char c"
  by (auto simp: is_ascii_alphanumeric_def plain_char_def Let_def)

lemma alphanumeric_not_punct [simp]:
  "\<not> is_ascii_alphanumeric CHR ''.''" "\<not> is_ascii_alphanumeric CHR ''/''"
  "\<not> is_ascii_alphanumeric CHR '':''" "\<not> is_ascii_alphanumeric CHR ''-''"
  "\<not> is_ascii_alphanumeric CHR ''_''"
  by (simp_all add: is_ascii_alphanumeric_def)

lemma plain_dash [simp]: "plain_char CHR ''-''" "plain_char CHR ''_''"
  by (simp_all add: plain_char_def)

text \<open>The decimal digits of an unsigned integer, as \<open>Display\<close> prints it.\<close>

fun nat_str :: "nat \<Rightarrow> string" where
  "nat_str n =
     (if n < 10 then [char_of (48 + n)] else nat_str (n div 10) @ [char_of (48 + n mod 10)])"

declare nat_str.simps [simp del]

section \<open>Lists\<close>

lemma map_filter_all_Some:
  "(\<And>a. a \<in> set xs \<Longrightarrow> f (g a) = Some a) \<Longrightarrow> List.map_filter f (map g xs) = xs"
  by (induction xs) (auto simp: List.map_filter_simps)

lemma set_map_filter: "set (List.map_filter f xs) = {y. \<exists>x \<in> set xs. f x = Some y}"
  by (induction xs) (auto simp: List.map_filter_simps split: option.splits)

lemma length_map_filter_le: "length (List.map_filter f xs) \<le> length xs"
  by (induction xs) (auto simp: List.map_filter_simps split: option.splits)

lemma find_Some_in: "find P xs = Some x \<Longrightarrow> x \<in> set xs \<and> P x"
  by (auto simp: find_Some_iff)

lemma find_SomeE:
  assumes "find P xs = Some x" obtains "x \<in> set xs" "P x"
  using assms find_Some_in by metis

end
