(* ===== verification/Ids.thy ===== *)
theory Ids
  imports Json
begin

text \<open>
  The ids of the plan domain and a job's deadline: \<open>pipette-plan-types/src/ids.rs\<close>, the
  client id of \<open>pipette-plan-types/src/principal.rs\<close>, and \<open>id_from_key\<close> of
  \<open>pipette-core/src/types.rs\<close>. A validated newtype over \<open>String\<close> is its string; the
  validating constructor is a function into a result, and \<open>valid_job_id\<close>,
  \<open>valid_plan_id\<close> and \<open>valid_client_id\<close> characterise the values of the newtype.

  \<open>chrono\<close>, the Unicode lower-case tables, the UUID generator and the text of a
  \<open>serde_json\<close> leaf and its parser are not part of the repository. They are a parameter of type \<open>ext\<close>, and \<open>ext_ok\<close> states the documented
  behaviour that the proofs use: for the years 1970 to 9999 the format \<open>%Y%m%dT%H%M%SZ\<close>
  drops the fraction of a second, writes letters and digits only, and is read back by the
  parser of the same format; and a UUID has no dot. \<open>uuid x n\<close> is the \<open>n\<close>-th one drawn.
\<close>

section \<open>Time and the external library\<close>

text \<open>\<open>DateTime<Utc>\<close> as nanoseconds since the epoch.\<close>

type_synonym time = int

definition second :: time where
  "second = 1000000000"

definition whole_secs :: "time \<Rightarrow> time" where
  "whole_secs t = t - t mod second"

definition in_years :: "time \<Rightarrow> bool" where
  "in_years t \<longleftrightarrow> 0 \<le> t \<and> t < 253402300800 * second"

record ext =
  fmt_ts :: "time \<Rightarrow> string"
  parse_ts :: "string \<Rightarrow> time option"
  rfc3339 :: "time \<Rightarrow> string"
  ser_ts :: "time \<Rightarrow> string"
  lowercase :: "string \<Rightarrow> string"
  uuid :: "nat \<Rightarrow> string"
  leaf_text :: "json \<Rightarrow> string"
  json_from_str :: "string \<Rightarrow> json option"

definition ext_ok :: "ext \<Rightarrow> bool" where
  "ext_ok x \<longleftrightarrow> (\<forall>n. CHR ''.'' \<notin> set (uuid x n)) \<and> (\<forall>t. in_years t \<longrightarrow>
     parse_ts x (fmt_ts x t) = Some (whole_secs t)
     \<and> fmt_ts x (whole_secs t) = fmt_ts x t
     \<and> list_all is_ascii_alphanumeric (fmt_ts x t)
     \<and> fmt_ts x t \<noteq> ''never'')"

text \<open>
  For every time, in those years or not: the format keeps the seconds apart, writes no dot and
  is not the word for no deadline.
\<close>

definition stamps_apart :: "ext \<Rightarrow> bool" where
  "stamps_apart x \<longleftrightarrow>
     (\<forall>s t. fmt_ts x s = fmt_ts x t \<longrightarrow> whole_secs s = whole_secs t)
     \<and> (\<forall>t. CHR ''.'' \<notin> set (fmt_ts x t) \<and> fmt_ts x t \<noteq> ''never'')"

lemma stamps_apartD:
  assumes "stamps_apart x"
  shows "fmt_ts x s = fmt_ts x t \<Longrightarrow> whole_secs s = whole_secs t"
    and "CHR ''.'' \<notin> set (fmt_ts x t)" and "fmt_ts x t \<noteq> ''never''"
  using assms [unfolded stamps_apart_def] by (iprover dest: spec)+

lemma whole_secs_idem [simp]: "whole_secs (whole_secs t) = whole_secs t"
  by (simp add: whole_secs_def mod_diff_left_eq)

lemma whole_secs_le: "whole_secs t \<le> t"
  by (simp add: whole_secs_def second_def)

lemma whole_secs_gt: "t - second < whole_secs t"
  by (simp add: whole_secs_def second_def)

lemma in_years_whole_secs: "in_years t \<Longrightarrow> in_years (whole_secs t)"
  by (auto simp: in_years_def whole_secs_def second_def zmod_le_nonneg_dividend)

lemma ext_okD:
  assumes "ext_ok x" "in_years t"
  shows "parse_ts x (fmt_ts x t) = Some (whole_secs t)"
    and "fmt_ts x (whole_secs t) = fmt_ts x t"
    and "list_all is_ascii_alphanumeric (fmt_ts x t)"
    and "fmt_ts x t \<noteq> ''never''"
  using assms by (simp_all add: ext_ok_def)

lemma fmt_ts_chars:
  assumes "ext_ok x" "in_years t"
  shows "CHR ''.'' \<notin> set (fmt_ts x t)" "CHR ''/'' \<notin> set (fmt_ts x t)"
  using ext_okD(3) [OF assms] by (auto simp: list_all_iff)

text \<open>
  A concrete \<open>ext\<close> for evaluation: a time is written as one digit per second, which has the
  documented properties. It shows that \<open>ext_ok\<close> can hold, and it is what the witnesses
  evaluate with.
\<close>

definition sample_ext :: ext where
  "sample_ext = \<lparr>
     fmt_ts = (\<lambda>t. replicate (nat (t div second)) CHR ''0'' @ replicate (nat (- (t div second))) CHR ''1''),
     parse_ts = (\<lambda>s. if list_all (\<lambda>c. c = CHR ''0'') s then Some (int (length s) * second) else None),
     rfc3339 = (\<lambda>t. replicate (nat (t div second)) CHR ''0''),
     ser_ts = (\<lambda>t. replicate (nat (t div second)) CHR ''0''),
     lowercase = (\<lambda>s. s),
     uuid = (\<lambda>n. replicate n CHR ''0''),
     leaf_text = (\<lambda>v. case v of JStr s \<Rightarrow> s | _ \<Rightarrow> ''null''),
     json_from_str = (\<lambda>_. None)\<rparr>"

lemma sample_ext_ok: "ext_ok sample_ext"
proof -
  have digits: "(t - t mod second) div second = t div second" for t :: int
    by (metis div_mult_self1_is_m minus_mod_eq_mult_div second_def zero_less_numeral mult.commute
        less_irrefl nonzero_mult_div_cancel_left)
  have "replicate n CHR ''0'' \<noteq> ''never''" for n
    by (cases n) simp_all
  then show ?thesis
    by (auto simp: ext_ok_def sample_ext_def whole_secs_def in_years_def list_all_iff digits
        is_ascii_alphanumeric_def minus_mod_eq_mult_div pos_imp_zdiv_nonneg_iff second_def)
qed

lemma sample_stamps_apart: "stamps_apart sample_ext"
proof -
  let ?f = "\<lambda>n :: int. replicate (nat n) CHR ''0'' @ replicate (nat (- n)) CHR ''1''"
  have "m = n" if "?f m = ?f n" for m n
  proof -
    have "length (filter ((=) CHR ''0'') (?f m)) = nat m" "length (filter ((=) CHR ''1'') (?f m)) = nat (- m)" for m
      by (simp_all add: filter_replicate)
    with that have "nat m = nat n" "nat (- m) = nat (- n)"
      by metis+
    then show ?thesis
      by (auto simp: nat_eq_iff split: if_splits)
  qed
  then have "s div second = t div second" if "fmt_ts sample_ext s = fmt_ts sample_ext t" for s t
    using that by (simp add: sample_ext_def)
  moreover have "CHR ''.'' \<notin> set (fmt_ts sample_ext t)" for t
    by (simp add: sample_ext_def)
  moreover have "fmt_ts sample_ext t \<noteq> ''never''" for t
  proof
    assume eq: "fmt_ts sample_ext t = ''never''"
    have "CHR ''e'' \<notin> set (fmt_ts sample_ext t)"
      by (simp add: sample_ext_def)
    then show False
      unfolding eq by simp
  qed
  ultimately show ?thesis
    unfolding stamps_apart_def whole_secs_def minus_mod_eq_mult_div by metis
qed

section \<open>Ids\<close>

type_synonym job_id = string
type_synonym plan_id = string
type_synonym client_id = string

datatype principal_id_error =
    PEmpty string
  | PCharset string char
  | PMissingPrefix string string
  | PUnknownKind string

text \<open>\<open>InvalidChar\<close> and \<open>PCharset\<close> carry the first byte of the offending character.\<close>

datatype id_error =
    EmptyId string
  | InvalidChar string char string
  | MissingPrefix string string
  | Width string string nat
  | Principal principal_id_error
  | NotVerbatim string

definition check_id :: "string \<Rightarrow> string \<Rightarrow> string \<Rightarrow> char list \<Rightarrow> (id_error, unit) result" where
  "check_id s fld allowed extra =
     (if s = [] then Inl (EmptyId fld)
      else case find (\<lambda>c. \<not> is_ascii_alphanumeric c \<and> c \<notin> set extra) s of
        Some ch \<Rightarrow> Inl (InvalidChar fld ch allowed)
      | None \<Rightarrow> Inr ())"

definition job_id_try_new :: "string \<Rightarrow> (id_error, job_id) result" where
  "job_id_try_new s =
     res_bind (check_id s ''job_id'' ''[A-Za-z0-9-]'' [CHR ''-'']) (\<lambda>_. Inr s)"

definition plan_id_try_new :: "string \<Rightarrow> (id_error, plan_id) result" where
  "plan_id_try_new s =
     res_bind (check_id s ''plan_id'' ''[A-Za-z0-9-]'' [CHR ''-'']) (\<lambda>_. Inr s)"

definition check_id_charset :: "string \<Rightarrow> string \<Rightarrow> (principal_id_error, unit) result" where
  "check_id_charset value kind =
     (if value = [] then Inl (PEmpty kind)
      else case find (\<lambda>c. \<not> is_ascii_alphanumeric c \<and> c \<notin> {CHR ''_'', CHR ''-''}) value of
        Some ch \<Rightarrow> Inl (PCharset kind ch)
      | None \<Rightarrow> Inr ())"

definition check_client_id :: "string \<Rightarrow> (principal_id_error, unit) result" where
  "check_client_id value = check_id_charset value ''client id''"

text \<open>\<open>nutype\<close> sanitizes (trims) before it validates.\<close>

definition client_id_try_new :: "string \<Rightarrow> (principal_id_error, client_id) result" where
  "client_id_try_new s = res_bind (check_client_id (trim s)) (\<lambda>_. Inr (trim s))"

definition id_from_key ::
  "string \<Rightarrow> (string \<Rightarrow> (principal_id_error, string) result) \<Rightarrow> (id_error, string) result" where
  "id_from_key segment parse =
     res_bind (map_err Principal (parse segment)) (\<lambda>i.
       if i \<noteq> segment then Inl (NotVerbatim segment) else Inr i)"

definition job_char :: "char \<Rightarrow> bool" where
  "job_char c \<longleftrightarrow> is_ascii_alphanumeric c \<or> c = CHR ''-''"

definition client_char :: "char \<Rightarrow> bool" where
  "client_char c \<longleftrightarrow> is_ascii_alphanumeric c \<or> c = CHR ''_'' \<or> c = CHR ''-''"

definition valid_job_id :: "string \<Rightarrow> bool" where
  "valid_job_id s \<longleftrightarrow> s \<noteq> [] \<and> list_all job_char s"

definition valid_plan_id :: "string \<Rightarrow> bool" where
  "valid_plan_id s \<longleftrightarrow> s \<noteq> [] \<and> list_all job_char s"

definition valid_client_id :: "string \<Rightarrow> bool" where
  "valid_client_id s \<longleftrightarrow> s \<noteq> [] \<and> list_all client_char s"

lemma check_id_Inr: "check_id s f a extra = Inr () \<longleftrightarrow>
    s \<noteq> [] \<and> (\<forall>c \<in> set s. is_ascii_alphanumeric c \<or> c \<in> set extra)"
  by (auto simp: check_id_def find_None_iff split: option.splits dest: find_Some_in)

lemma job_id_try_new_Inr [simp]: "job_id_try_new s = Inr j \<longleftrightarrow> j = s \<and> valid_job_id s"
  by (auto simp: job_id_try_new_def res_bind_Inr_iff check_id_Inr valid_job_id_def
      list_all_iff job_char_def)

lemma plan_id_try_new_Inr [simp]: "plan_id_try_new s = Inr p \<longleftrightarrow> p = s \<and> valid_plan_id s"
  by (auto simp: plan_id_try_new_def res_bind_Inr_iff check_id_Inr valid_plan_id_def
      list_all_iff job_char_def)

lemma check_client_id_Inr: "check_client_id s = Inr () \<longleftrightarrow> valid_client_id s"
  by (auto simp: check_client_id_def check_id_charset_def valid_client_id_def list_all_iff
      client_char_def find_None_iff split: option.splits dest: find_Some_in)

lemma client_id_try_new_Inr:
  "client_id_try_new s = Inr c \<longleftrightarrow> c = trim s \<and> valid_client_id (trim s)"
  by (auto simp: client_id_try_new_def res_bind_Inr_iff check_client_id_Inr)

lemma client_char_plain: "client_char c \<Longrightarrow> plain_char c"
  by (auto simp: client_char_def alphanumeric_plain)

lemma trim_client_id: "valid_client_id c \<Longrightarrow> trim c = c"
  by (rule trim_plain) (auto simp: valid_client_id_def list_all_iff client_char_plain)

lemma client_from_key_Inr [simp]:
  "id_from_key s client_id_try_new = Inr c \<longleftrightarrow> c = s \<and> valid_client_id s"
  by (auto simp: id_from_key_def res_bind_Inr_iff client_id_try_new_Inr trim_client_id
      split: if_splits)

lemma id_parse_valid [simp]:
  "valid_job_id s \<Longrightarrow> job_id_try_new s = Inr s"
  "valid_plan_id s \<Longrightarrow> plan_id_try_new s = Inr s"
  "valid_client_id s \<Longrightarrow> id_from_key s client_id_try_new = Inr s"
  by simp_all

lemma id_chars:
  "valid_job_id s \<Longrightarrow> CHR ''.'' \<notin> set s" "valid_job_id s \<Longrightarrow> CHR ''/'' \<notin> set s"
  "valid_plan_id s \<Longrightarrow> CHR ''.'' \<notin> set s" "valid_plan_id s \<Longrightarrow> CHR ''/'' \<notin> set s"
  "valid_client_id s \<Longrightarrow> CHR ''.'' \<notin> set s" "valid_client_id s \<Longrightarrow> CHR ''/'' \<notin> set s"
  by (auto simp: valid_job_id_def valid_plan_id_def valid_client_id_def list_all_iff
      job_char_def client_char_def)

section \<open>Deadlines\<close>

datatype expires_at = At time | Never

instantiation expires_at :: linorder
begin

text \<open>The derived \<open>Ord\<close>: by declaration order of the variants, so \<open>Never\<close> is last.\<close>

fun less_eq_expires_at :: "expires_at \<Rightarrow> expires_at \<Rightarrow> bool" where
  "less_eq_expires_at _ Never = True"
| "less_eq_expires_at Never (At _) = False"
| "less_eq_expires_at (At a) (At b) = (a \<le> b)"

definition less_expires_at :: "expires_at \<Rightarrow> expires_at \<Rightarrow> bool" where
  "less_expires_at a b \<longleftrightarrow> a \<le> b \<and> \<not> b \<le> a"

instance
proof
  fix a b c :: expires_at
  show "a < b \<longleftrightarrow> a \<le> b \<and> \<not> b \<le> a"
    by (simp add: less_expires_at_def)
  show "a \<le> a"
    by (cases a) simp_all
  show "a \<le> b \<Longrightarrow> b \<le> c \<Longrightarrow> a \<le> c"
    by (cases a; cases b; cases c) simp_all
  show "a \<le> b \<Longrightarrow> b \<le> a \<Longrightarrow> a = b"
    by (cases a; cases b) simp_all
  show "a \<le> b \<or> b \<le> a"
    by (cases a; cases b) auto
qed

end

definition is_expired :: "expires_at \<Rightarrow> time \<Rightarrow> bool" where
  "is_expired e now = (case e of At dt \<Rightarrow> dt < now | Never \<Rightarrow> False)"

definition instant :: "expires_at \<Rightarrow> time option" where
  "instant e = (case e of At dt \<Rightarrow> Some dt | Never \<Rightarrow> None)"

definition show_expires_at :: "ext \<Rightarrow> expires_at \<Rightarrow> string" where
  "show_expires_at x e = (case e of At dt \<Rightarrow> fmt_ts x dt | Never \<Rightarrow> ''never'')"

definition parse_expires_at :: "ext \<Rightarrow> string \<Rightarrow> (string, expires_at) result" where
  "parse_expires_at x s =
     (if s = ''never'' then Inr Never
      else case parse_ts x s of
        Some ndt \<Rightarrow> Inr (At ndt)
      | None \<Rightarrow> Inl s)"

text \<open>The deadlines a key can carry exactly: \<open>never\<close>, or whole seconds in a four-digit year.\<close>

definition key_time :: "time \<Rightarrow> bool" where
  "key_time t \<longleftrightarrow> in_years t \<and> whole_secs t = t"

definition key_deadline :: "expires_at \<Rightarrow> bool" where
  "key_deadline e = (case e of At t \<Rightarrow> key_time t | Never \<Rightarrow> True)"

lemma key_time_whole_secs [intro]: "in_years t \<Longrightarrow> key_time (whole_secs t)"
  by (simp add: key_time_def in_years_whole_secs)

lemma parse_show_expires_at [simp]:
  "ext_ok x \<Longrightarrow> key_deadline e \<Longrightarrow> parse_expires_at x (show_expires_at x e) = Inr e"
  by (cases e)
    (auto simp: show_expires_at_def parse_expires_at_def key_deadline_def key_time_def ext_okD)

lemma show_expires_at_chars:
  assumes "ext_ok x" "key_deadline e"
  shows "CHR ''.'' \<notin> set (show_expires_at x e)" "CHR ''/'' \<notin> set (show_expires_at x e)"
  using assms
  by (auto simp: show_expires_at_def key_deadline_def key_time_def fmt_ts_chars
      split: expires_at.splits)

text \<open>Soonest first and \<open>Never\<close> last: an unexpired deadline is never before an expired one.\<close>

lemma is_expired_mono: "a \<le> b \<Longrightarrow> is_expired b now \<Longrightarrow> is_expired a now"
  by (cases a; cases b) (auto simp: is_expired_def)

lemma not_is_expired_Never [simp]: "\<not> is_expired Never now"
  by (simp add: is_expired_def)

end
