(* ===== verification/Todo_Filename.thy ===== *)
theory Todo_Filename
  imports Ids
begin

text \<open>
  The names of the \<open>todo/\<close> tree: \<open>pipette-core/src/todo_filename.rs\<close>. Each kind of name
  has a writer and a parser; the locale \<open>key_codec\<close> states what a store relies on (a name
  that was written is read back as what it names) and derives what the listings need from
  it: names are injective, and reading back a listing of written names gives exactly the
  values that were written. Every kind of name is an interpretation of it.
\<close>

section \<open>The interface of a kind of name\<close>

locale key_codec =
  fixes enc :: "ext \<Rightarrow> 'a \<Rightarrow> string"
    and dec :: "ext \<Rightarrow> string \<Rightarrow> ('e, 'a) result"
    and wf :: "'a \<Rightarrow> bool"
  assumes dec_enc: "ext_ok x \<Longrightarrow> wf a \<Longrightarrow> dec x (enc x a) = Inr a"
begin

lemma enc_inj: "ext_ok x \<Longrightarrow> wf a \<Longrightarrow> wf b \<Longrightarrow> enc x a = enc x b \<Longrightarrow> a = b"
  using dec_enc [of x a] dec_enc [of x b] by (metis sum.inject(2))

lemma enc_eq_iff: "ext_ok x \<Longrightarrow> wf a \<Longrightarrow> wf b \<Longrightarrow> enc x a = enc x b \<longleftrightarrow> a = b"
  using enc_inj by blast

lemma listing_read_back:
  "ext_ok x \<Longrightarrow> list_all wf as \<Longrightarrow> List.map_filter (ok \<circ> dec x) (map (enc x) as) = as"
  by (rule map_filter_all_Some) (simp add: dec_enc list_all_iff)

lemma inj_on_enc: "ext_ok x \<Longrightarrow> inj_on (enc x) {a. wf a}"
  using enc_inj by (blast intro: inj_onI)

lemma distinct_names:
  assumes "ext_ok x" "list_all wf as"
  shows "distinct (map (enc x) as) = distinct as"
proof -
  have "inj_on (enc x) (set as)"
    using assms by (auto simp: list_all_iff intro: inj_on_subset [OF inj_on_enc])
  then show ?thesis
    by (simp add: distinct_map)
qed

end

section \<open>Names of available jobs\<close>

definition json_suffix :: string where
  "json_suffix = ''.json''"

definition avail_filename :: "ext \<Rightarrow> job_id \<Rightarrow> expires_at \<Rightarrow> string" where
  "avail_filename x job_id expires_at = job_id @ ''/'' @ show_expires_at x expires_at @ json_suffix"

definition tmp_filename :: "job_id \<Rightarrow> string" where
  "tmp_filename job_id = job_id @ json_suffix"

datatype avail_key_error =
    MissingSeparator string char
  | MissingSuffix string
  | KeyJobId string id_error
  | KeyExpiresAt string string

definition split_job_and_expiry ::
  "ext \<Rightarrow> string \<Rightarrow> char \<Rightarrow> (avail_key_error, job_id \<times> expires_at) result" where
  "split_job_and_expiry x name sep =
     res_bind (ok_or (MissingSuffix name) (strip_suffix json_suffix name)) (\<lambda>stem.
     res_bind (ok_or (MissingSeparator name sep) (split_once sep stem)) (\<lambda>(job_str, expires_str).
     res_bind (map_err (KeyJobId name) (job_id_try_new job_str)) (\<lambda>job_id.
     res_bind (map_err (KeyExpiresAt name) (parse_expires_at x expires_str)) (\<lambda>expires_at.
     Inr (job_id, expires_at)))))"

definition parse_avail_filename :: "ext \<Rightarrow> string \<Rightarrow> (avail_key_error, job_id \<times> expires_at) result" where
  "parse_avail_filename x name = split_job_and_expiry x name CHR ''/''"

definition parse_flat_avail_filename ::
  "ext \<Rightarrow> string \<Rightarrow> (avail_key_error, job_id \<times> expires_at) result" where
  "parse_flat_avail_filename x name = split_job_and_expiry x name CHR ''.''"

section \<open>Names of markers\<close>

text \<open>
  The markers' parsers report \<open>anyhow\<close> messages, and every caller only asks whether there
  was one; the model keeps which check failed and the name it failed on.
\<close>

datatype name_error =
    NoSeparator string
  | NoSecondSeparator string
  | NoJsonSuffix string
  | BadJobId string id_error
  | BadPlanId string id_error
  | BadClientId string id_error
  | BadExpiresAt string string
  | BadLeaseExpiry string string

definition eligible_filename :: "ext \<Rightarrow> job_id \<Rightarrow> expires_at \<Rightarrow> string" where
  "eligible_filename x job_id expires_at = job_id @ ''.'' @ show_expires_at x expires_at"

definition parse_eligible_filename :: "ext \<Rightarrow> string \<Rightarrow> (name_error, job_id \<times> expires_at) result" where
  "parse_eligible_filename x name =
     res_bind (ok_or (NoSeparator name) (split_once CHR ''.'' name)) (\<lambda>(job_str, expires_str).
     res_bind (map_err (BadJobId name) (job_id_try_new job_str)) (\<lambda>job_id.
     res_bind (map_err (BadExpiresAt name) (parse_expires_at x expires_str)) (\<lambda>expires_at.
     Inr (job_id, expires_at))))"

definition job_plan_marker_filename :: "ext \<Rightarrow> plan_id \<Rightarrow> expires_at \<Rightarrow> string" where
  "job_plan_marker_filename x plan_id expires_at = plan_id @ ''.'' @ show_expires_at x expires_at"

definition parse_job_plan_marker_filename ::
  "ext \<Rightarrow> string \<Rightarrow> (name_error, plan_id \<times> expires_at) result" where
  "parse_job_plan_marker_filename x name =
     res_bind (ok_or (NoSeparator name) (split_once CHR ''.'' name)) (\<lambda>(plan_str, expires_str).
     res_bind (map_err (BadPlanId name) (plan_id_try_new plan_str)) (\<lambda>plan_id.
     res_bind (map_err (BadExpiresAt name) (parse_expires_at x expires_str)) (\<lambda>expires_at.
     Inr (plan_id, expires_at))))"

definition denied_marker_filename :: "job_id \<Rightarrow> client_id \<Rightarrow> string" where
  "denied_marker_filename job_id client_id = job_id @ ''.'' @ client_id"

definition denied_job_prefix :: "job_id \<Rightarrow> string" where
  "denied_job_prefix job_id = job_id @ ''.''"

definition parse_denied_marker :: "string \<Rightarrow> (name_error, job_id \<times> client_id) result" where
  "parse_denied_marker name =
     res_bind (ok_or (NoSeparator name) (split_once CHR ''.'' name)) (\<lambda>(job_str, client_str).
     res_bind (map_err (BadJobId name) (job_id_try_new job_str)) (\<lambda>job_id.
     res_bind (map_err (BadClientId name) (id_from_key client_str client_id_try_new)) (\<lambda>client_id.
     Inr (job_id, client_id))))"

text \<open>The fresh UUIDv7 of a flag is an argument.\<close>

definition pending_reindex_filename :: "client_id \<Rightarrow> string \<Rightarrow> string" where
  "pending_reindex_filename client_id u = client_id @ ''.'' @ u"

definition parse_pending_reindex_filename :: "string \<Rightarrow> (name_error, client_id) result" where
  "parse_pending_reindex_filename name =
     res_bind (ok_or (NoSeparator name) (rsplit_once CHR ''.'' name)) (\<lambda>(client_str, _).
     map_err (BadClientId name) (id_from_key client_str client_id_try_new))"

section \<open>Names of leases\<close>

record lease =
  l_job_id :: job_id
  l_expires_at :: expires_at
  l_client_id :: client_id
  l_lease_expiry :: time

definition leased_key :: "ext \<Rightarrow> job_id \<Rightarrow> expires_at \<Rightarrow> client_id \<Rightarrow> time \<Rightarrow> string" where
  "leased_key x job_id expires_at client_id lease_expiry =
     client_id @ ''/'' @ job_id @ ''.'' @ show_expires_at x expires_at @ ''.''
       @ fmt_ts x lease_expiry @ json_suffix"

definition parse_leased_key :: "ext \<Rightarrow> string \<Rightarrow> (name_error, lease) result" where
  "parse_leased_key x key =
     res_bind (ok_or (NoSeparator key) (split_once CHR ''/'' key)) (\<lambda>(client_str, leaf).
     res_bind (map_err (BadClientId key) (id_from_key client_str client_id_try_new)) (\<lambda>client_id.
     res_bind (ok_or (NoJsonSuffix key) (strip_suffix json_suffix leaf)) (\<lambda>stem.
     res_bind (ok_or (NoSeparator key) (split_once CHR ''.'' stem)) (\<lambda>(job_str, rest).
     res_bind (ok_or (NoSecondSeparator key) (split_once CHR ''.'' rest)) (\<lambda>(expires_str, lease_expiry_str).
     res_bind (map_err (BadJobId key) (job_id_try_new job_str)) (\<lambda>job_id.
     res_bind (map_err (BadExpiresAt key) (parse_expires_at x expires_str)) (\<lambda>expires_at.
     res_bind (ok_or (BadLeaseExpiry key lease_expiry_str) (parse_ts x lease_expiry_str)) (\<lambda>lease_expiry.
     Inr \<lparr>l_job_id = job_id, l_expires_at = expires_at, l_client_id = client_id,
          l_lease_expiry = lease_expiry\<rparr>))))))))"

definition lost_lease_filename :: "ext \<Rightarrow> client_id \<Rightarrow> time \<Rightarrow> string" where
  "lost_lease_filename x client_id lease_expiry = client_id @ ''.'' @ fmt_ts x lease_expiry"

definition parse_lost_lease_filename :: "ext \<Rightarrow> string \<Rightarrow> (name_error, client_id \<times> time) result" where
  "parse_lost_lease_filename x name =
     res_bind (ok_or (NoSeparator name) (split_once CHR ''.'' name)) (\<lambda>(client_str, expiry_str).
     res_bind (map_err (BadClientId name) (id_from_key client_str client_id_try_new)) (\<lambda>client_id.
     res_bind (ok_or (BadLeaseExpiry name expiry_str) (parse_ts x expiry_str)) (\<lambda>lease_expiry.
     Inr (client_id, lease_expiry))))"

section \<open>Every kind of name reads back\<close>

lemmas name_parse_defs =
  split_job_and_expiry_def parse_avail_filename_def parse_flat_avail_filename_def
  parse_eligible_filename_def parse_job_plan_marker_filename_def parse_denied_marker_def
  parse_pending_reindex_filename_def parse_leased_key_def parse_lost_lease_filename_def

lemmas name_defs =
  avail_filename_def tmp_filename_def eligible_filename_def job_plan_marker_filename_def
  denied_marker_filename_def denied_job_prefix_def pending_reindex_filename_def leased_key_def
  lost_lease_filename_def

lemma json_suffix_not_deadline: "CHR ''/'' \<notin> set json_suffix"
  by (simp add: json_suffix_def)

lemma split_job_and_expiry_name:
  assumes "ext_ok x" "valid_job_id j" "key_deadline e" "sep = CHR ''/'' \<or> sep = CHR ''.''"
  shows "split_job_and_expiry x (j @ sep # show_expires_at x e @ json_suffix) sep = Inr (j, e)"
proof -
  have "strip_suffix json_suffix (j @ sep # show_expires_at x e @ json_suffix)
      = Some (j @ sep # show_expires_at x e)"
    by (simp add: strip_suffix_Some_iff)
  moreover have "sep \<notin> set j"
    using assms by (auto simp: id_chars)
  ultimately show ?thesis
    using assms by (simp add: split_job_and_expiry_def)
qed

lemma parse_avail_name [simp]:
  "ext_ok x \<Longrightarrow> valid_job_id j \<Longrightarrow> key_deadline e \<Longrightarrow>
   parse_avail_filename x (avail_filename x j e) = Inr (j, e)"
  using split_job_and_expiry_name [of x j e "CHR ''/''"]
  by (simp add: parse_avail_filename_def avail_filename_def)

lemma parse_eligible_name [simp]:
  "ext_ok x \<Longrightarrow> valid_job_id j \<Longrightarrow> key_deadline e \<Longrightarrow>
   parse_eligible_filename x (eligible_filename x j e) = Inr (j, e)"
  by (simp add: parse_eligible_filename_def eligible_filename_def id_chars)

lemma parse_job_plan_name [simp]:
  "ext_ok x \<Longrightarrow> valid_plan_id p \<Longrightarrow> key_deadline e \<Longrightarrow>
   parse_job_plan_marker_filename x (job_plan_marker_filename x p e) = Inr (p, e)"
  by (simp add: parse_job_plan_marker_filename_def job_plan_marker_filename_def id_chars)

lemma parse_denied_name [simp]:
  "valid_job_id j \<Longrightarrow> valid_client_id c \<Longrightarrow>
   parse_denied_marker (denied_marker_filename j c) = Inr (j, c)"
  by (simp add: parse_denied_marker_def denied_marker_filename_def id_chars)

lemma parse_pending_name [simp]:
  assumes "valid_client_id c" "CHR ''.'' \<notin> set u"
  shows "parse_pending_reindex_filename (pending_reindex_filename c u) = Inr c"
proof -
  have "rsplit_once CHR ''.'' (c @ ''.'' @ u) = Some (c, u)"
    using assms by (simp add: rsplit_once_Some_iff)
  then show ?thesis
    using assms by (simp add: parse_pending_reindex_filename_def pending_reindex_filename_def)
qed

lemma parse_lost_name [simp]:
  "ext_ok x \<Longrightarrow> valid_client_id c \<Longrightarrow> in_years t \<Longrightarrow>
   parse_lost_lease_filename x (lost_lease_filename x c t) = Inr (c, whole_secs t)"
  by (simp add: parse_lost_lease_filename_def lost_lease_filename_def id_chars ext_okD)

text \<open>
  A lease key reads back as the lease it names, with the lease expiry cut to whole seconds:
  the key cannot carry the fraction that \<open>now + duration\<close> has.
\<close>

lemma parse_lease_name [simp]:
  assumes "ext_ok x" "valid_job_id j" "key_deadline e" "valid_client_id c" "in_years t"
  shows "parse_leased_key x (leased_key x j e c t) =
    Inr \<lparr>l_job_id = j, l_expires_at = e, l_client_id = c, l_lease_expiry = whole_secs t\<rparr>"
proof -
  let ?stem = "j @ ''.'' @ show_expires_at x e @ ''.'' @ fmt_ts x t"
  have "split_once CHR ''/'' (leased_key x j e c t) = Some (c, ?stem @ json_suffix)"
    using assms by (simp add: leased_key_def id_chars)
  moreover have "strip_suffix json_suffix (?stem @ json_suffix) = Some ?stem"
    by (rule strip_suffix_append)
  ultimately show ?thesis
    using assms by (simp add: parse_leased_key_def id_chars show_expires_at_chars ext_okD)
qed

definition wf_avail :: "job_id \<times> expires_at \<Rightarrow> bool" where
  "wf_avail = (\<lambda>(j, e). valid_job_id j \<and> key_deadline e)"

definition wf_member :: "plan_id \<times> expires_at \<Rightarrow> bool" where
  "wf_member = (\<lambda>(p, e). valid_plan_id p \<and> key_deadline e)"

definition wf_denied :: "job_id \<times> client_id \<Rightarrow> bool" where
  "wf_denied = (\<lambda>(j, c). valid_job_id j \<and> valid_client_id c)"

definition wf_lost :: "client_id \<times> time \<Rightarrow> bool" where
  "wf_lost = (\<lambda>(c, t). valid_client_id c \<and> key_time t)"

definition wf_lease :: "lease \<Rightarrow> bool" where
  "wf_lease l \<longleftrightarrow> valid_job_id (l_job_id l) \<and> key_deadline (l_expires_at l)
     \<and> valid_client_id (l_client_id l) \<and> key_time (l_lease_expiry l)"

definition lease_key :: "ext \<Rightarrow> lease \<Rightarrow> string" where
  "lease_key x l = leased_key x (l_job_id l) (l_expires_at l) (l_client_id l) (l_lease_expiry l)"

lemma parse_lease_key [simp]: "ext_ok x \<Longrightarrow> wf_lease l \<Longrightarrow> parse_leased_key x (lease_key x l) = Inr l"
  by (simp add: lease_key_def wf_lease_def key_time_def)

interpretation avail: key_codec "\<lambda>x (j, e). avail_filename x j e" parse_avail_filename wf_avail
  by unfold_locales (auto simp: wf_avail_def)

interpretation eligible: key_codec "\<lambda>x (j, e). eligible_filename x j e" parse_eligible_filename wf_avail
  by unfold_locales (auto simp: wf_avail_def)

interpretation member: key_codec
  "\<lambda>x (p, e). job_plan_marker_filename x p e" parse_job_plan_marker_filename wf_member
  by unfold_locales (auto simp: wf_member_def)

interpretation denied: key_codec
  "\<lambda>x (j, c). denied_marker_filename j c" "\<lambda>x. parse_denied_marker" wf_denied
  by unfold_locales (auto simp: wf_denied_def)

interpretation lost: key_codec
  "\<lambda>x (c, t). lost_lease_filename x c t" parse_lost_lease_filename wf_lost
  by unfold_locales (auto simp: wf_lost_def key_time_def)

interpretation leased: key_codec lease_key parse_leased_key wf_lease
  by unfold_locales simp

text \<open>The expiry of a lease enters its key only up to the second.\<close>

lemma leased_key_whole_secs:
  "ext_ok x \<Longrightarrow> in_years t \<Longrightarrow> leased_key x j e c (whole_secs t) = leased_key x j e c t"
  by (simp add: leased_key_def ext_okD)

text \<open>What a parser accepts is well formed in its ids, whatever wrote the name.\<close>

lemma parse_avail_valid: "parse_avail_filename x n = Inr (j, e) \<Longrightarrow> valid_job_id j"
  by (auto simp: parse_avail_filename_def split_job_and_expiry_def res_bind_Inr_iff)

lemma parse_eligible_valid: "parse_eligible_filename x n = Inr (j, e) \<Longrightarrow> valid_job_id j"
  by (auto simp: parse_eligible_filename_def res_bind_Inr_iff)

lemma parse_lease_valid:
  "parse_leased_key x k = Inr l \<Longrightarrow> valid_job_id (l_job_id l) \<and> valid_client_id (l_client_id l)"
  by (auto simp: parse_leased_key_def res_bind_Inr_iff)

lemma parse_lease_shape:
  assumes "parse_leased_key x k = Inr l"
  obtains s where "k = l_client_id l @ ''/'' @ l_job_id l @ ''.'' @ s"
  using assms
  by (auto simp: parse_leased_key_def res_bind_Inr_iff split_once_Some_iff strip_suffix_Some_iff)

lemma parse_avail_shape:
  assumes "parse_avail_filename x k = Inr (j, e)"
  obtains s where "k = j @ ''/'' @ s"
  using assms
  by (auto simp: parse_avail_filename_def split_job_and_expiry_def res_bind_Inr_iff
      split_once_Some_iff strip_suffix_Some_iff)

text \<open>Two names coincide only for the same ids and, to the second, the same times.\<close>

definition cut_deadline :: "expires_at \<Rightarrow> expires_at" where
  "cut_deadline e = (case e of At t \<Rightarrow> At (whole_secs t) | Never \<Rightarrow> Never)"

lemma show_deadline_apart:
  assumes "stamps_apart x" "show_expires_at x e = show_expires_at x f"
  shows "cut_deadline e = cut_deadline f"
proof -
  note show_defs = show_expires_at_def cut_deadline_def expires_at.case
  show ?thesis
  proof (cases e; cases f)
    fix s t
    assume "e = At s" "f = At t"
    then show ?thesis
      using assms(2) stamps_apartD(1) [OF assms(1), of s t] unfolding show_defs by simp
  next
    fix s
    assume "e = At s" "f = Never"
    then show ?thesis
      using assms(2) stamps_apartD(3) [OF assms(1), of s] unfolding show_defs by simp
  next
    fix t
    assume "e = Never" "f = At t"
    then show ?thesis
      using assms(2) stamps_apartD(3) [OF assms(1), of t] unfolding show_defs by simp
  qed simp
qed

lemma show_deadline_no_dot: "stamps_apart x \<Longrightarrow> CHR ''.'' \<notin> set (show_expires_at x e)"
  by (cases e) (simp_all add: show_expires_at_def stamps_apartD)

lemma first_part_eq:
  assumes "(d :: char) \<notin> set a" "d \<notin> set b" "a @ d # r = b @ d # s"
  shows "a = b \<and> r = s"
proof -
  have "Some (a, r) = Some (b, s)"
    using split_once_append [OF assms(1), of r] split_once_append [OF assms(2), of s] unfolding assms(3)
    by (rule trans [OF sym])
  then show ?thesis
    by simp
qed

lemma avail_filename_apart:
  assumes "stamps_apart x" "valid_job_id i" "valid_job_id j" "avail_filename x i e = avail_filename x j f"
  shows "i = j \<and> cut_deadline e = cut_deadline f"
proof -
  have "i @ CHR ''/'' # show_expires_at x e @ json_suffix = j @ CHR ''/'' # show_expires_at x f @ json_suffix"
    using assms(4) unfolding avail_filename_def by simp
  then have "i = j \<and> show_expires_at x e @ json_suffix = show_expires_at x f @ json_suffix"
    by (rule first_part_eq [rotated 2]) (simp_all add: assms(2,3) id_chars)
  then show ?thesis
    using show_deadline_apart [OF assms(1), of e f] by simp
qed

lemma leased_key_apart:
  assumes "stamps_apart x" "valid_job_id i" "valid_job_id j" "valid_client_id c" "valid_client_id d"
    and "leased_key x i e c s = leased_key x j f d t"
  shows "i = j \<and> c = d \<and> whole_secs s = whole_secs t"
proof -
  let ?tail = "\<lambda>e t. show_expires_at x e @ CHR ''.'' # fmt_ts x t @ json_suffix"
  have "c @ CHR ''/'' # i @ CHR ''.'' # ?tail e s = d @ CHR ''/'' # j @ CHR ''.'' # ?tail f t"
    using assms(6) unfolding leased_key_def by simp
  then have c: "c = d \<and> i @ CHR ''.'' # ?tail e s = j @ CHR ''.'' # ?tail f t"
    by (rule first_part_eq [rotated 2]) (simp_all add: assms(4,5) id_chars)
  have "CHR ''.'' \<notin> set i" "CHR ''.'' \<notin> set j"
    by (simp_all add: assms(2,3) id_chars)
  then have j: "i = j \<and> ?tail e s = ?tail f t"
    by (rule first_part_eq) (rule c [THEN conjunct2])
  have "show_expires_at x e = show_expires_at x f \<and> fmt_ts x s @ json_suffix = fmt_ts x t @ json_suffix"
    by (rule first_part_eq [OF show_deadline_no_dot show_deadline_no_dot]) (rule assms(1) j [THEN conjunct2])+
  then have "whole_secs s = whole_secs t"
    using stamps_apartD(1) [OF assms(1), of s t] by simp
  with c j show ?thesis
    by simp
qed

section \<open>What the key space promises\<close>

text \<open>
  C38: Every key space of the queue reads back. A listing of the names that were written for well-formed entries
  (leases, available jobs, plan memberships, denials, lost leases) parses to exactly those entries, in
  order and with nothing skipped, and two leases, or two available jobs, share a name only when they are the same.
\<close>

theorem todo_listings_read_back:
  assumes "ext_ok x" "list_all wf_lease ls" "list_all wf_avail as" "list_all wf_member ms" "list_all wf_denied ds"
    "list_all wf_lost ts"
  shows "List.map_filter (ok \<circ> parse_leased_key x) (map (lease_key x) ls) = ls
    \<and> List.map_filter (ok \<circ> parse_avail_filename x) (map (\<lambda>(j, e). avail_filename x j e) as) = as
    \<and> List.map_filter (ok \<circ> parse_eligible_filename x) (map (\<lambda>(j, e). eligible_filename x j e) as) = as
    \<and> List.map_filter (ok \<circ> parse_job_plan_marker_filename x) (map (\<lambda>(p, e). job_plan_marker_filename x p e) ms) = ms
    \<and> List.map_filter (ok \<circ> parse_denied_marker) (map (\<lambda>(j, c). denied_marker_filename j c) ds) = ds
    \<and> List.map_filter (ok \<circ> parse_lost_lease_filename x) (map (\<lambda>(c, t). lost_lease_filename x c t) ts) = ts
    \<and> distinct (map (lease_key x) ls) = distinct ls
    \<and> distinct (map (\<lambda>(j, e). avail_filename x j e) as) = distinct as"
  using leased.listing_read_back [OF assms(1,2)] avail.listing_read_back [OF assms(1,3)]
    eligible.listing_read_back [OF assms(1,3)] member.listing_read_back [OF assms(1,4)]
    denied.listing_read_back [OF assms(1,5)] lost.listing_read_back [OF assms(1,6)]
    leased.distinct_names [OF assms(1,2)] avail.distinct_names [OF assms(1,3)]
  by simp_all

theorem todo_listings_read_back_witness:
  "List.map_filter (ok \<circ> parse_leased_key sample_ext) (map (lease_key sample_ext)
     [\<lparr>l_job_id = ''j1'', l_expires_at = Never, l_client_id = ''c1'', l_lease_expiry = 0\<rparr>,
      \<lparr>l_job_id = ''j2'', l_expires_at = At 0, l_client_id = ''c1'', l_lease_expiry = second\<rparr>]) =
     [\<lparr>l_job_id = ''j1'', l_expires_at = Never, l_client_id = ''c1'', l_lease_expiry = 0\<rparr>,
      \<lparr>l_job_id = ''j2'', l_expires_at = At 0, l_client_id = ''c1'', l_lease_expiry = second\<rparr>]"
proof -
  have "list_all wf_lease [\<lparr>l_job_id = ''j1'', l_expires_at = Never, l_client_id = ''c1'', l_lease_expiry = 0\<rparr>,
      \<lparr>l_job_id = ''j2'', l_expires_at = At 0, l_client_id = ''c1'', l_lease_expiry = second\<rparr>]"
    by code_simp
  from todo_listings_read_back [OF sample_ext_ok this, of "[]" "[]" "[]" "[]"] show ?thesis
    by simp
qed



end
