(* ===== verification/Plans.thy ===== *)
theory Plans
  imports Todo_Filename
begin

text \<open>
  The plan manifest, the durable record of an ingested plan: \<open>pipette-core/src/plan.rs\<close>, with the
  status and the counts of \<open>pipette-plan-types/src/plans.rs\<close> and the content-key record of
  \<open>pipette-store/src/lib.rs\<close>. The fields that ingestion writes and no maintenance pass reads are carried as one value.
\<close>

datatype plan_status = Creating | Active | PendingClients | Cancelling | Complete | Cancelled

definition is_terminal :: "plan_status \<Rightarrow> bool" where
  "is_terminal st \<longleftrightarrow> st \<in> {Complete, Cancelled}"

datatype settled_outcome = Finished | Failed

definition from_message_type :: "string option \<Rightarrow> settled_outcome" where
  "from_message_type message_type = (if message_type = Some ''failure'' then Failed else Finished)"

record counts =
  n_total :: nat
  n_finished :: nat
  n_running :: nat
  n_available :: nat
  n_failed :: nat
  n_cancelled :: nat

record starved_group =
  sg_requires :: "string list"
  sg_any_of :: "string list list"
  sg_clients :: "string list"
  sg_exclude_clients :: "string list"
  sg_excludes :: "string list"
  sg_not_all_of :: "string list list"
  sg_job_ids :: "job_id list"

record progress_snapshot =
  computed_at :: time
  ps_counts :: counts
  ps_starved :: "starved_group list"

record expired_job =
  ej_horizon :: time
  ej_recorded_at :: time

record plan_manifest =
  pm_plan_id :: plan_id
  pm_status :: plan_status
  pm_campaign_id :: "string option"

record plan_record = plan_manifest +
  pm_created_at :: time
  pm_job_ids :: "job_id list"
  pm_expired_jobs :: "(job_id \<times> expired_job) list"
  pm_settled_jobs :: "(job_id \<times> settled_outcome) list"
  pm_progress_snapshot :: "progress_snapshot option"
  pm_terminal_at :: "time option"
  pm_filed :: json

definition past_gate :: "time \<Rightarrow> time \<Rightarrow> time \<Rightarrow> bool" where
  "past_gate stamp now gate \<longleftrightarrow> 0 \<le> now - stamp \<and> gate \<le> now - stamp"

record content_key_record =
  ck_job_id :: job_id
  ck_plan_id :: plan_id
  ck_created_at :: time

end
