(* ===== verification/Fs.thy ===== *)
theory Fs
  imports Plans Json "HOL-Library.AList"
begin

text \<open>
  The local file system under the stores of \<open>pipette-store-fs\<close>, and what can happen between
  two of its system calls.

  A file is named by the directory of the layout it is under and its path below it, with
  slashes between the segments. A directory below those of the layout exists exactly while
  it holds a file: every reader of one treats a missing directory as an empty one, so
  \<open>create_dir_all\<close> and \<open>drop_empty_dir\<close> have no effect here. A file holds one of the values the
  stores write (\<open>C_torn\<close> is a write that was cut short) and its modification time.

  Code that does I/O is a function of type \<open>'a io\<close> on a \<open>world\<close>: the file system, the number
  of UUIDs drawn, and a schedule with one entry per system call still to be made. An entry
  says what other processes do just before the call (a list of actions of the queue's
  protocol, \<open>act\<close>) and whether the call itself fails, fails after taking effect, or never
  returns because the process dies there. The empty schedule is an undisturbed run.
\<close>

section \<open>Files\<close>

datatype dir =
    D_avail | D_leased | D_denied | D_eligible | D_pending_reindex | D_pending_reindex_jobs
  | D_lost | D_tmp | D_suspended | D_liveness | D_todo | D_job_plans
  | D_incoming | D_to_do | D_parked | D_to_finalize | D_processed
  | D_unverified | D_runtime_output | D_failures | D_warehouse | D_eval_samples
  | D_plans | D_cancelled | D_content_keys | D_plan_sources | D_pending_sources
  | D_job_sources | D_job_plan_links

type_synonym path = "dir \<times> string"

record denial_record =
  denied_at :: "time option"
  failure_reason :: "string option"
  dr_client_version :: "string option"
  dr_runtime_version :: "string option"

record suspension_record =
  suspended_at :: time
  conflicting_job_id :: job_id

record campaign_backlog =
  by_campaign :: "(string \<times> nat) list"
  outside_campaigns :: nat

datatype content =
    C_json json
  | C_empty
  | C_denial denial_record
  | C_suspension suspension_record
  | C_output "string option" "string option"
  | C_keys "string list"
  | C_backlog time "(client_id \<times> nat) list"
  | C_campaigns time "(client_id \<times> campaign_backlog) list"
  | C_rows "json list"
  | C_plan plan_record
  | C_content_key content_key_record
  | C_text string
  | C_torn

record inode =
  f_content :: content
  f_mtime :: time

record fs =
  files :: "(path \<times> inode) list"
  clock :: time

definition lookup :: "fs \<Rightarrow> path \<Rightarrow> inode option" where
  "lookup s p = map_of (files s) p"

definition put_file :: "path \<Rightarrow> inode \<Rightarrow> fs \<Rightarrow> fs" where
  "put_file p f s = s\<lparr>files := AList.update p f (files s)\<rparr>"

definition put :: "path \<Rightarrow> content \<Rightarrow> fs \<Rightarrow> fs" where
  "put p c s = put_file p \<lparr>f_content = c, f_mtime = clock s\<rparr> s"

definition del :: "path \<Rightarrow> fs \<Rightarrow> fs" where
  "del p s = s\<lparr>files := AList.delete p (files s)\<rparr>"

text \<open>POSIX \<open>rename\<close> of a present source: it replaces a file at the destination.\<close>

definition mv :: "path \<Rightarrow> path \<Rightarrow> fs \<Rightarrow> fs" where
  "mv p q s = (case lookup s p of None \<Rightarrow> s | Some f \<Rightarrow> put_file q f (del p s))"

definition tick :: "nat \<Rightarrow> fs \<Rightarrow> fs" where
  "tick n s = s\<lparr>clock := clock s + int n\<rparr>"

text \<open>
  The entries of the directory \<open>sub\<close> of \<open>d\<close> (\<open>[]\<close> for \<open>d\<close> itself): the first segment of every
  path below it, and whether it is a directory.
\<close>

definition below :: "string \<Rightarrow> string \<Rightarrow> string option" where
  "below sub k =
     (if sub = [] then Some k
      else if starts_with (sub @ ''/'') k then Some (drop (length sub + 1) k) else None)"

definition entry_of :: "string \<Rightarrow> string \<times> bool" where
  "entry_of k = (case split_once CHR ''/'' k of None \<Rightarrow> (k, False) | Some (h, _) \<Rightarrow> (h, True))"

definition entries :: "fs \<Rightarrow> dir \<Rightarrow> string \<Rightarrow> (string \<times> bool) list" where
  "entries s d sub =
     remdups (map entry_of (List.map_filter (below sub)
       (map (snd \<circ> fst) (filter (\<lambda>((d', _), _). d' = d) (files s)))))"

lemma lookup_put_file [simp]: "lookup (put_file p f s) q = (if q = p then Some f else lookup s q)"
  by (simp add: lookup_def put_file_def update_conv')

lemma lookup_put [simp]:
  "lookup (put p c s) q = (if q = p then Some \<lparr>f_content = c, f_mtime = clock s\<rparr> else lookup s q)"
  by (simp add: put_def)

lemma lookup_del [simp]: "lookup (del p s) q = (if q = p then None else lookup s q)"
  by (simp add: lookup_def del_def delete_conv')

lemma lookup_mv:
  "lookup (mv p q s) r =
     (case lookup s p of None \<Rightarrow> lookup s r
      | Some f \<Rightarrow> if r = q then Some f else if r = p then None else lookup s r)"
  by (simp add: mv_def split: option.splits)

lemma lookup_tick [simp]: "lookup (tick n s) p = lookup s p"
  by (simp add: lookup_def tick_def)

lemma clock_simps [simp]:
  "clock (put_file p f s) = clock s" "clock (put p c s) = clock s" "clock (del p s) = clock s"
  "clock (mv p q s) = clock s"
  by (simp_all add: put_file_def put_def del_def mv_def split: option.splits)

section \<open>Queue entries and records\<close>

text \<open>The job whose queue entry a path is, read off its name; likewise the job a record is of.\<close>

definition is_json_name :: "string \<Rightarrow> bool" where
  "is_json_name n = ends_with json_suffix n"

fun queue_job :: "path \<Rightarrow> job_id option" where
  "queue_job (D_avail, k) =
     (case split_once CHR ''/'' k of
        Some (j, leaf) \<Rightarrow> if is_json_name leaf then Some j else None
      | None \<Rightarrow> None)"
| "queue_job (D_leased, k) =
     (case split_once CHR ''/'' k of
        Some (_, leaf) \<Rightarrow>
          if is_json_name leaf then map_option fst (split_once CHR ''.'' leaf) else None
      | None \<Rightarrow> None)"
| "queue_job _ = None"

definition gz_suffix :: string where
  "gz_suffix = ''.json.gz''"

definition record_job :: "path \<Rightarrow> job_id option" where
  "record_job p =
     (if fst p \<in> {D_incoming, D_to_do, D_parked, D_to_finalize} then strip_suffix json_suffix (snd p)
      else if fst p = D_processed then strip_suffix gz_suffix (snd p)
      else None)"

definition present :: "fs \<Rightarrow> path \<Rightarrow> bool" where
  "present s p \<longleftrightarrow> lookup s p \<noteq> None"

definition paths :: "fs \<Rightarrow> path list" where
  "paths s = map fst (files s)"

definition queued :: "job_id \<Rightarrow> fs \<Rightarrow> bool" where
  "queued j s \<longleftrightarrow> list_ex (\<lambda>p. queue_job p = Some j) (paths s)"

definition recorded :: "job_id \<Rightarrow> fs \<Rightarrow> bool" where
  "recorded j s \<longleftrightarrow> list_ex (\<lambda>p. record_job p = Some j) (paths s)"

lemma present_iff: "present s p \<longleftrightarrow> p \<in> set (paths s)"
  unfolding present_def lookup_def paths_def by (metis domIff dom_map_of_conv_image_fst set_map)

lemma queued_iff: "queued j s \<longleftrightarrow> (\<exists>p. present s p \<and> queue_job p = Some j)"
  by (auto simp: queued_def list_ex_iff present_iff)

lemma recorded_iff: "recorded j s \<longleftrightarrow> (\<exists>p. present s p \<and> record_job p = Some j)"
  by (auto simp: recorded_def list_ex_iff present_iff)

text \<open>
  How far the scorer has taken a record: a record moves from \<open>incoming/\<close> through \<open>to_do/\<close> and
  \<open>to_finalize/\<close> to \<open>processed/\<close> or, given up on, to \<open>parked/\<close>. \<open>scored j n s\<close>: the job has a
  record that is at least that far.
\<close>

definition record_rank :: "path \<Rightarrow> nat" where
  "record_rank p =
     (case fst p of D_to_do \<Rightarrow> 1 | D_to_finalize \<Rightarrow> 2 | D_parked \<Rightarrow> 3 | D_processed \<Rightarrow> 3 | _ \<Rightarrow> 0)"

definition scored :: "job_id \<Rightarrow> nat \<Rightarrow> fs \<Rightarrow> bool" where
  "scored j n s \<longleftrightarrow> list_ex (\<lambda>p. record_job p = Some j \<and> n \<le> record_rank p) (paths s)"

text \<open>A record that a later stage has overtaken.\<close>

definition overtaken :: "path \<Rightarrow> fs \<Rightarrow> bool" where
  "overtaken p s \<longleftrightarrow> list_ex (\<lambda>q. record_job q = record_job p \<and> record_rank p < record_rank q) (paths s)"

lemma set_entries:
  "r \<in> set (entries s d sub) \<longleftrightarrow> (\<exists>k l. present s (d, k) \<and> below sub k = Some l \<and> r = entry_of l)"
  by (auto simp: entries_def present_iff paths_def set_map_filter image_iff) force+

lemma scored_iff: "scored j n s \<longleftrightarrow> (\<exists>p. present s p \<and> record_job p = Some j \<and> n \<le> record_rank p)"
  by (auto simp: scored_def list_ex_iff present_iff)

lemma scoredI: "present s p \<Longrightarrow> record_job p = Some j \<Longrightarrow> n \<le> record_rank p \<Longrightarrow> scored j n s"
  unfolding scored_iff by blast

lemma recorded_scored: "recorded j s \<longleftrightarrow> scored j 0 s"
  by (simp add: recorded_iff scored_iff)

lemma overtaken_scored: "record_job p = Some j \<Longrightarrow> overtaken p s \<longleftrightarrow> scored j (Suc (record_rank p)) s"
  by (auto simp: overtaken_def scored_def Suc_le_eq)

lemma recordedI: "present s p \<Longrightarrow> record_job p = Some j \<Longrightarrow> recorded j s"
  unfolding recorded_iff by blast

lemma present_simps [simp]:
  "present (put_file q f s) p \<longleftrightarrow> p = q \<or> present s p"
  "present (put q c s) p \<longleftrightarrow> p = q \<or> present s p"
  "present (del q s) p \<longleftrightarrow> p \<noteq> q \<and> present s p"
  "present (tick n s) p \<longleftrightarrow> present s p"
  by (simp_all add: present_def)

lemma present_mv: "present (mv p q s) r \<longleftrightarrow>
    (if present s p then r = q \<or> r \<noteq> p \<and> present s r else present s r)"
  by (auto simp: present_def lookup_mv split: option.splits)

lemma queue_job_json: "queue_job p = Some j \<Longrightarrow> ends_with json_suffix (snd p)"
  by (cases p rule: queue_job.cases)
    (auto simp: is_json_name_def split_once_Some_iff ends_with_iff split: option.splits if_splits)

lemma queue_not_record: "queue_job p = Some j \<Longrightarrow> record_job p = None"
  by (cases p; cases "fst p") (auto simp: record_job_def)

lemma record_not_queue: "record_job p = Some j \<Longrightarrow> queue_job p = None"
  using queue_not_record by (cases "queue_job p") auto

section \<open>Other processes\<close>

text \<open>
  What another process may do to the queue and the records in one system call, as the
  protocol of \<open>docs/queue.md\<close> has it. An action whose guard does not hold does nothing.
\<close>

datatype act =
    A_move path path \<comment> \<open>claim, renew, recycle or re-date: an entry moves to a name of the same job\<close>
  | A_publish path content \<comment> \<open>ingestion promotes a job it minted, which has no entry\<close>
  | A_restore path content \<comment> \<open>the teardown of a plan puts a job back, whatever the queue holds by then\<close>
  | A_finish path \<comment> \<open>the entry of a recorded job goes\<close>
  | A_retire path \<comment> \<open>the teardown of a cancelled plan removes an entry\<close>
  | A_record path content \<comment> \<open>a submission or a stage of the scorer lands\<close>
  | A_unrecord path \<comment> \<open>the scorer removes a stage of a job with a later one\<close>
  | A_put path content \<comment> \<open>any other file is written\<close>
  | A_del path \<comment> \<open>any other file is removed\<close>
  | A_tick nat

fun perform :: "act \<Rightarrow> fs \<Rightarrow> fs" where
  "perform (A_move p q) s =
     (if queue_job p \<noteq> None \<and> queue_job q = queue_job p then mv p q s else s)"
| "perform (A_publish p c) s =
     (case queue_job p of
        Some j \<Rightarrow> if queued j s then s else put p c s
      | None \<Rightarrow> s)"
| "perform (A_restore p c) s = (if queue_job p \<noteq> None then put p c s else s)"
| "perform (A_finish p) s =
     (case queue_job p of
        Some j \<Rightarrow> if recorded j s then del p s else s
      | None \<Rightarrow> s)"
| "perform (A_retire p) s = (if queue_job p \<noteq> None then del p s else s)"
| "perform (A_record p c) s = (if record_job p \<noteq> None then put p c s else s)"
| "perform (A_unrecord p) s =
     (if record_job p \<noteq> None \<and> overtaken p s then del p s else s)"
| "perform (A_put p c) s = (if queue_job p = None \<and> record_job p = None then put p c s else s)"
| "perform (A_del p) s = (if queue_job p = None \<and> record_job p = None then del p s else s)"
| "perform (A_tick n) s = tick n s"

section \<open>Computations\<close>

datatype io_kind = K_NotFound | K_Other

datatype app_error = Internal | NotFoundError string | Conflict string | Forbidden string

datatype err =
    E_io io_kind
  | E_corrupt
  | E_name
  | E_bail
  | E_unrecordable
  | E_app app_error
  | E_service bool \<comment> \<open>the scoring service was not reached; whether the call timed out\<close>
  | E_crash

datatype fault = NoFault | FailBefore io_kind | FailAfter | Crash | BadEntries "nat list"

record world =
  w_fs :: fs
  w_draws :: nat
  w_sched :: "(act list \<times> fault) list"

type_synonym 'a io = "world \<Rightarrow> (err, 'a) result \<times> world"

definition io_ret :: "'a \<Rightarrow> 'a io" where
  "io_ret a w = (Inr a, w)"

definition io_raise :: "err \<Rightarrow> 'a io" where
  "io_raise e w = (Inl e, w)"

definition io_bind :: "'a io \<Rightarrow> ('a \<Rightarrow> 'b io) \<Rightarrow> 'b io" where
  "io_bind m k w = (case m w of (Inl e, w') \<Rightarrow> (Inl e, w') | (Inr a, w') \<Rightarrow> k a w')"

definition io_lift :: "(err, 'a) result \<Rightarrow> 'a io" where
  "io_lift r w = (r, w)"

text \<open>\<open>attempt m\<close> is \<open>m.await\<close> without the question mark: its error is a value. A dead process observes nothing.\<close>

definition attempt :: "'a io \<Rightarrow> (err, 'a) result io" where
  "attempt m w = (case m w of (Inl E_crash, w') \<Rightarrow> (Inl E_crash, w') | (r, w') \<Rightarrow> (Inr r, w'))"

definition io_map_err :: "err \<Rightarrow> 'a io \<Rightarrow> 'a io" where
  "io_map_err e m w =
     (case m w of
        (Inl E_crash, w') \<Rightarrow> (Inl E_crash, w')
      | (Inl _, w') \<Rightarrow> (Inl e, w')
      | (Inr a, w') \<Rightarrow> (Inr a, w'))"

text \<open>
  One system call: the next entry of the schedule, then the call \<open>f\<close>, which is given the
  positions of the directory entries it cannot read.
\<close>

definition sys :: "(nat list \<Rightarrow> fs \<Rightarrow> (io_kind, 'a) result \<times> fs) \<Rightarrow> 'a io" where
  "sys f w =
     (let (acts, fault, rest) = (case w_sched w of [] \<Rightarrow> ([], NoFault, []) | (a, ft) # r \<Rightarrow> (a, ft, r));
          s = fold perform acts (w_fs w);
          run = (\<lambda>bad. let (r, s') = f bad s in (map_err E_io r, w\<lparr>w_fs := s', w_sched := rest\<rparr>)) in
      case fault of
        NoFault \<Rightarrow> run []
      | BadEntries bad \<Rightarrow> run bad
      | FailBefore k \<Rightarrow> (Inl (E_io k), w\<lparr>w_fs := s, w_sched := rest\<rparr>)
      | FailAfter \<Rightarrow> (Inl (E_io K_Other), snd (run []))
      | Crash \<Rightarrow> (Inl E_crash, w\<lparr>w_fs := s, w_sched := rest\<rparr>))"

definition new_uuid :: "ext \<Rightarrow> string io" where
  "new_uuid x w = (Inr (uuid x (w_draws w)), w\<lparr>w_draws := Suc (w_draws w)\<rparr>)"

definition utc_now :: "time io" where
  "utc_now w = (Inr (clock (w_fs w)), w)"

definition io_when :: "bool \<Rightarrow> unit io \<Rightarrow> unit io" where
  "io_when b m = (if b then m else io_ret ())"

fun io_for :: "'a list \<Rightarrow> ('a \<Rightarrow> unit io) \<Rightarrow> unit io" where
  "io_for [] f = io_ret ()"
| "io_for (a # as) f = io_bind (f a) (\<lambda>_. io_for as f)"

fun io_fold :: "('a \<Rightarrow> 'b \<Rightarrow> 'b io) \<Rightarrow> 'a list \<Rightarrow> 'b \<Rightarrow> 'b io" where
  "io_fold f [] b = io_ret b"
| "io_fold f (a # as) b = io_bind (f a b) (io_fold f as)"

fun io_map :: "('a \<Rightarrow> 'b io) \<Rightarrow> 'a list \<Rightarrow> 'b list io" where
  "io_map f [] = io_ret []"
| "io_map f (a # as) = io_bind (f a) (\<lambda>b. io_bind (io_map f as) (\<lambda>bs. io_ret (b # bs)))"

subsection \<open>The system calls\<close>

definition rename_file :: "path \<Rightarrow> path \<Rightarrow> unit io" where
  "rename_file p q = sys (\<lambda>_ s. if present s p then (Inr (), mv p q s) else (Inl K_NotFound, s))"

text \<open>\<open>hard_link\<close>, with the one error its caller expects as a value: \<open>False\<close> when the name exists.\<close>

definition hard_link :: "path \<Rightarrow> path \<Rightarrow> bool io" where
  "hard_link p q = sys (\<lambda>_ s.
     case lookup s p of
       None \<Rightarrow> (Inl K_NotFound, s)
     | Some f \<Rightarrow> if present s q then (Inr False, s) else (Inr True, put_file q f s))"

definition remove_file :: "path \<Rightarrow> unit io" where
  "remove_file p = sys (\<lambda>_ s. if present s p then (Inr (), del p s) else (Inl K_NotFound, s))"

definition read_file :: "path \<Rightarrow> content io" where
  "read_file p = sys (\<lambda>_ s.
     case lookup s p of None \<Rightarrow> (Inl K_NotFound, s) | Some f \<Rightarrow> (Inr (f_content f), s))"

definition file_mtime :: "path \<Rightarrow> time io" where
  "file_mtime p = sys (\<lambda>_ s.
     case lookup s p of None \<Rightarrow> (Inl K_NotFound, s) | Some f \<Rightarrow> (Inr (f_mtime f), s))"

definition try_exists :: "path \<Rightarrow> bool io" where
  "try_exists p = sys (\<lambda>_ s. (Inr (present s p), s))"

text \<open>\<open>Path::try_exists\<close> of a directory, and \<open>Path::exists\<close>, which takes an error for a no.\<close>

definition dir_exists :: "dir \<Rightarrow> string \<Rightarrow> bool io" where
  "dir_exists d sub = sys (\<lambda>_ s. (Inr (entries s d sub \<noteq> []), s))"

definition dir_seems_there :: "dir \<Rightarrow> string \<Rightarrow> bool io" where
  "dir_seems_there d sub = io_bind (attempt (dir_exists d sub)) (\<lambda>r. io_ret (r = Inr True))"

text \<open>\<open>std::fs::write\<close> opens with truncation, then writes: the file is torn in between.\<close>

definition write_file :: "path \<Rightarrow> content \<Rightarrow> unit io" where
  "write_file p c =
     (if c = C_empty then sys (\<lambda>_ s. (Inr (), put p c s))
      else io_bind (sys (\<lambda>_ s. (Inr (), put p C_torn s))) (\<lambda>_.
        sys (\<lambda>_ s. (Inr (), put p c s))))"

text \<open>A directory listing: an entry, or the error its read gave.\<close>

definition read_dir :: "dir \<Rightarrow> string \<Rightarrow> (io_kind, string \<times> bool) result list io" where
  "read_dir d sub = sys (\<lambda>bad s.
     (Inr (map (\<lambda>(i, e). if i \<in> set bad then Inl K_Other else Inr e)
       (List.enumerate 0 (entries s d sub))), s))"

text \<open>\<open>vanished_is_absent\<close>: \<open>None\<close> for a path that is not there; any other failure propagates.\<close>

definition vanished_is_absent :: "'a io \<Rightarrow> 'a option io" where
  "vanished_is_absent m =
     io_bind (attempt m) (\<lambda>r.
       case r of
         Inr a \<Rightarrow> io_ret (Some a)
       | Inl e \<Rightarrow> if e = E_io K_NotFound then io_ret None else io_raise e)"

definition remove_file_idempotent :: "path \<Rightarrow> unit io" where
  "remove_file_idempotent p = io_bind (vanished_is_absent (remove_file p)) (\<lambda>_. io_ret ())"

text \<open>\<open>std::fs::remove_dir_all\<close> unlinks the entries one by one.\<close>

definition remove_dir_all :: "dir \<Rightarrow> string \<Rightarrow> unit io" where
  "remove_dir_all d sub =
     io_bind (read_dir d sub) (\<lambda>es.
       io_for es (\<lambda>e. case e of
         Inl k \<Rightarrow> io_raise (E_io k)
       | Inr (name, _) \<Rightarrow> remove_file_idempotent (d, sub @ ''/'' @ name)))"

section \<open>Which errors a computation raises\<close>

definition raises :: "'a io \<Rightarrow> (err \<Rightarrow> bool) \<Rightarrow> bool" where
  "raises m E \<longleftrightarrow> (\<forall>w e w'. m w = (Inl e, w') \<longrightarrow> E e)"

lemma raises_ret: "raises (io_ret a) E"
  by (simp add: raises_def io_ret_def)

lemma raises_raise: "E e \<Longrightarrow> raises (io_raise e) E"
  by (simp add: raises_def io_raise_def)

lemma raises_lift: "(\<And>e. r = Inl e \<Longrightarrow> E e) \<Longrightarrow> raises (io_lift r) E"
  by (simp add: raises_def io_lift_def)

lemma raises_bind_run:
  "raises m E \<Longrightarrow> (\<And>w a w'. m w = (Inr a, w') \<Longrightarrow> raises (k a) E) \<Longrightarrow> raises (io_bind m k) E"
  by (fastforce simp: raises_def io_bind_def split: prod.splits sum.splits)

lemma raises_bind: "raises m E \<Longrightarrow> (\<And>a. raises (k a) E) \<Longrightarrow> raises (io_bind m k) E"
  by (rule raises_bind_run)

lemma raises_sys: "(\<And>k. E (E_io k)) \<Longrightarrow> E E_crash \<Longrightarrow> raises (sys f) E"
  by (auto simp: raises_def sys_def Let_def map_err_def split: prod.splits sum.splits fault.splits)

lemma raises_attempt: "E E_crash \<Longrightarrow> raises (attempt m) E"
  by (auto simp: raises_def attempt_def split: prod.splits sum.splits err.splits)

lemma raises_attempt_result:
  "raises m E \<Longrightarrow> attempt m w = (Inr (Inl e), w') \<Longrightarrow> E e"
  by (auto simp: raises_def attempt_def split: prod.splits sum.splits err.splits)

lemma raises_uuid: "raises (new_uuid x) E"
  by (simp add: raises_def new_uuid_def)

section \<open>Undisturbed runs\<close>

text \<open>The rules that evaluate a computation on the empty schedule.\<close>

named_theorems quiet \<open>evaluation of computations on the empty schedule\<close>

lemma io_ret_run [quiet]: "io_ret a w = (Inr a, w)"
  by (simp add: io_ret_def)

lemma io_raise_run [quiet]: "io_raise e w = (Inl e, w)"
  by (simp add: io_raise_def)

lemma io_lift_run [quiet]: "io_lift r w = (r, w)"
  by (simp add: io_lift_def)

lemma io_bind_run [quiet]:
  "m w = (Inr a, w') \<Longrightarrow> io_bind m k w = k a w'"
  "m w = (Inl e, w') \<Longrightarrow> io_bind m k w = (Inl e, w')"
  by (simp_all add: io_bind_def)

lemma sys_run:
  "w_sched w = [] \<Longrightarrow> f [] (w_fs w) = (r, s) \<Longrightarrow> sys f w = (map_err E_io r, w\<lparr>w_fs := s\<rparr>)"
  by (simp add: sys_def Let_def)

lemma w_fs_id [simp]: "w_fs w = s \<Longrightarrow> w\<lparr>w_fs := s\<rparr> = w"
  by simp

lemma rename_file_run [quiet]:
  "w_sched w = [] \<Longrightarrow> present (w_fs w) p \<Longrightarrow> rename_file p q w = (Inr (), w\<lparr>w_fs := mv p q (w_fs w)\<rparr>)"
  "w_sched w = [] \<Longrightarrow> \<not> present (w_fs w) p \<Longrightarrow> rename_file p q w = (Inl (E_io K_NotFound), w)"
  by (simp_all add: rename_file_def sys_run)

lemma hard_link_run [quiet]:
  "w_sched w = [] \<Longrightarrow> lookup (w_fs w) p = Some f \<Longrightarrow> \<not> present (w_fs w) q \<Longrightarrow>
   hard_link p q w = (Inr True, w\<lparr>w_fs := put_file q f (w_fs w)\<rparr>)"
  "w_sched w = [] \<Longrightarrow> lookup (w_fs w) p = Some f \<Longrightarrow> present (w_fs w) q \<Longrightarrow>
   hard_link p q w = (Inr False, w)"
  by (simp_all add: hard_link_def sys_run)

lemma remove_file_run [quiet]:
  "w_sched w = [] \<Longrightarrow> present (w_fs w) p \<Longrightarrow> remove_file p w = (Inr (), w\<lparr>w_fs := del p (w_fs w)\<rparr>)"
  "w_sched w = [] \<Longrightarrow> \<not> present (w_fs w) p \<Longrightarrow> remove_file p w = (Inl (E_io K_NotFound), w)"
  by (simp_all add: remove_file_def sys_run)

lemma read_file_run [quiet]:
  "w_sched w = [] \<Longrightarrow> lookup (w_fs w) p = Some f \<Longrightarrow> read_file p w = (Inr (f_content f), w)"
  "w_sched w = [] \<Longrightarrow> lookup (w_fs w) p = None \<Longrightarrow> read_file p w = (Inl (E_io K_NotFound), w)"
  by (simp_all add: read_file_def sys_run)

lemma dir_exists_run [quiet]:
  "w_sched w = [] \<Longrightarrow> dir_exists d sub w = (Inr (entries (w_fs w) d sub \<noteq> []), w)"
  "w_sched w = [] \<Longrightarrow> dir_seems_there d sub w = (Inr (entries (w_fs w) d sub \<noteq> []), w)"
  by (simp_all add: dir_seems_there_def dir_exists_def sys_run attempt_def quiet)

lemma try_exists_run [quiet]:
  "w_sched w = [] \<Longrightarrow> try_exists p w = (Inr (present (w_fs w) p), w)"
  by (simp add: try_exists_def sys_run)

lemma write_file_run [quiet]:
  "w_sched w = [] \<Longrightarrow> write_file p c w = (Inr (), w\<lparr>w_fs := put p c (w_fs w)\<rparr>)"
  by (cases "c = C_empty") (simp_all add: write_file_def io_bind_def sys_run put_def put_file_def)

lemma map_enumerate_Inr: "map (\<lambda>(i, y). Inr y) (List.enumerate n xs) = map Inr xs"
  by (induction xs arbitrary: n) simp_all

lemma read_dir_run [quiet]:
  "w_sched w = [] \<Longrightarrow> read_dir d sub w = (Inr (map Inr (entries (w_fs w) d sub)), w)"
  by (simp add: read_dir_def sys_run map_enumerate_Inr)

lemma vanished_run [quiet]:
  "m w = (Inr a, w') \<Longrightarrow> vanished_is_absent m w = (Inr (Some a), w')"
  "m w = (Inl (E_io K_NotFound), w') \<Longrightarrow> vanished_is_absent m w = (Inr None, w')"
  by (simp_all add: vanished_is_absent_def io_bind_def attempt_def io_ret_def)

lemma del_absent: "\<not> present s p \<Longrightarrow> del p s = s"
proof -
  assume "\<not> present s p"
  then have "AList.delete p (files s) = files s"
    by (simp add: present_def lookup_def map_of_eq_None_iff delete_id)
  then show ?thesis
    by (simp add: del_def)
qed

lemma remove_file_idempotent_run [quiet]:
  "w_sched w = [] \<Longrightarrow> remove_file_idempotent p w = (Inr (), w\<lparr>w_fs := del p (w_fs w)\<rparr>)"
  by (cases "present (w_fs w) p") (simp_all add: remove_file_idempotent_def quiet del_absent)

end
