(* ===== verification/Descriptors.thy ===== *)
theory Descriptors
  imports Ids "HOL-Library.List_Lexorder" "HOL-Library.Char_ord" "HOL-Library.Multiset"
begin

text \<open>
  The opaque parts of a job body on their way to a record: canonical JSON
  (\<open>pipette-plan-types/src/descriptor.rs\<close>, \<open>pipette-core/src/canonical_json.rs\<close>), the removal of
  access tokens, the requested flags and the served form of a job source
  (\<open>pipette-pipeline/src/submission.rs\<close>).
\<close>

section \<open>Canonical JSON\<close>

fun write_canonical :: "ext \<Rightarrow> json \<Rightarrow> string" where
  "write_canonical x (JObj kvs) =
     ''{'' @ join '','' (map (\<lambda>(k, t). leaf_text x (JStr k) @ '':'' @ t)
        (sort_key fst (map (\<lambda>(k, v). (k, write_canonical x v)) kvs))) @ ''}''"
| "write_canonical x (JArr items) = ''['' @ join '','' (map (write_canonical x) items) @ '']''"
| "write_canonical x leaf = leaf_text x leaf"

definition canonical_json :: "ext \<Rightarrow> json \<Rightarrow> string" where
  "canonical_json x v = write_canonical x v"

definition canonicalize_str :: "ext \<Rightarrow> string \<Rightarrow> string" where
  "canonicalize_str x s =
     (case json_from_str x s of Some v \<Rightarrow> canonical_json x v | None \<Rightarrow> trim s)"

definition canonicalize_flags :: "ext \<Rightarrow> string option \<Rightarrow> string option" where
  "canonicalize_flags x v =
     (case map_option (canonicalize_str x) v of
        Some flags \<Rightarrow> if flags \<noteq> ''{}'' \<and> flags \<noteq> [] then Some flags else None
      | None \<Rightarrow> None)"

section \<open>Access tokens\<close>

fun without_auth_tokens :: "json \<Rightarrow> json" where
  "without_auth_tokens (JObj kvs) =
     JObj (map (\<lambda>(k, v). (k, without_auth_tokens v)) (filter (\<lambda>(k, _). k \<noteq> ''auth_token'') kvs))"
| "without_auth_tokens (JArr items) = JArr (map without_auth_tokens items)"
| "without_auth_tokens leaf = leaf"

definition descriptor_from_spec :: "ext \<Rightarrow> json \<Rightarrow> string" where
  "descriptor_from_spec x spec_field = canonical_json x (without_auth_tokens spec_field)"

definition requested_flag_group :: "ext \<Rightarrow> json \<Rightarrow> string \<Rightarrow> string option" where
  "requested_flag_group x spec key =
     (case get spec key of
        None \<Rightarrow> None
      | Some JNull \<Rightarrow> None
      | Some (JStr g) \<Rightarrow> canonicalize_flags x (Some g)
      | Some g \<Rightarrow>
          let flags = descriptor_from_spec x g in if flags \<noteq> ''{}'' then Some flags else None)"

record requested_flags =
  rf_model :: "string option"
  rf_runtime :: "string option"
  rf_benchmark :: "string option"

definition requested_flags_from_spec :: "ext \<Rightarrow> json \<Rightarrow> requested_flags" where
  "requested_flags_from_spec x spec = \<lparr>
     rf_model = requested_flag_group x spec ''model_flags'',
     rf_runtime = requested_flag_group x spec ''runtime_flags'',
     rf_benchmark = requested_flag_group x spec ''benchmark_flags''\<rparr>"

text \<open>The form of a stored job source a route serves; \<open>full\<close> also keeps the eligibility fields.\<close>

definition served_from_stored :: "json \<Rightarrow> bool \<Rightarrow> json" where
  "served_from_stored stored full =
     without_auth_tokens (JObj (List.map_filter (\<lambda>f. map_option (Pair f) (get stored f))
       ([''job_id'', ''expires_at'', ''spec''] @
        (if full then [''requires'', ''any_of'', ''clients'', ''excludes'', ''not_all_of'', ''exclude_clients'']
         else []))))"

section \<open>What they show\<close>

text \<open>Every value nested in a value, itself included, and every key that occurs in it.\<close>

fun subvalues :: "json \<Rightarrow> json list" where
  "subvalues (JObj kvs) = JObj kvs # concat (map (\<lambda>(_, v). subvalues v) kvs)"
| "subvalues (JArr items) = JArr items # concat (map subvalues items)"
| "subvalues v = [v]"

text \<open>The same JSON text up to the order of the fields of its objects, at every depth.\<close>

inductive same_json :: "json \<Rightarrow> json \<Rightarrow> bool" where
  same_obj: "map fst kvs = map fst kvs' \<Longrightarrow> list_all2 same_json (map snd kvs) (map snd kvs') \<Longrightarrow>
     distinct (map fst kvs') \<Longrightarrow> mset kvs' = mset kvs'' \<Longrightarrow> same_json (JObj kvs) (JObj kvs'')"
| same_arr: "list_all2 same_json vs vs' \<Longrightarrow> same_json (JArr vs) (JArr vs')"
| same_leaf: "same_json v v"

lemma sort_key_perm:
  fixes xs ys :: "('a :: linorder \<times> 'b) list"
  assumes "mset xs = mset ys" "distinct (map fst xs)"
  shows "sort_key fst xs = sort_key fst ys"
proof (rule sort_key_inj_key_eq)
  show "inj_on fst (set xs)"
    using assms(2) by (simp add: distinct_map)
qed (use assms in \<open>simp_all add: mset_eq_setD\<close>)

lemma fields_zip: "map (\<lambda>(k, v). (k, f v)) kvs = zip (map fst kvs) (map f (map snd kvs))"
  by (induction kvs) auto

lemma list_all2_map_eq: "list_all2 (\<lambda>a b. R a b \<and> f a = f b) as bs \<Longrightarrow> map f as = map f bs"
  by (induction rule: list_all2_induct) auto

lemma write_canonical_same: "same_json v w \<Longrightarrow> write_canonical x v = write_canonical x w"
proof (induction rule: same_json.induct)
  case (same_obj kvs kvs' kvs'')
  let ?f = "\<lambda>(k, v). (k, write_canonical x v)"
  have "map (write_canonical x) (map snd kvs) = map (write_canonical x) (map snd kvs')"
    using same_obj by (intro list_all2_map_eq)
  then have "map ?f kvs = map ?f kvs'"
    using same_obj by (simp add: fields_zip)
  moreover have "sort_key fst (map ?f kvs') = sort_key fst (map ?f kvs'')"
  proof (rule sort_key_perm)
    show "mset (map ?f kvs') = mset (map ?f kvs'')"
      using same_obj.hyps by (metis mset_map)
    show "distinct (map fst (map ?f kvs'))"
      using same_obj.hyps by (simp add: case_prod_unfold comp_def)
  qed
  ultimately show ?case
    by simp
next
  case (same_arr vs vs')
  then show ?case
    by (simp add: list_all2_map_eq)
qed simp

text \<open>
  Canonical JSON identifies content. Two values that differ only in the order of the
  fields of their objects, at any depth, have the same canonical text, whatever the text of
  the leaves; so equal descriptors are stored as equal bytes.
\<close>

theorem canonical_json_same:
  assumes "same_json v w"
  shows "canonical_json x v = canonical_json x w"
  using write_canonical_same [OF assms] by (simp add: canonical_json_def)

theorem canonical_json_same_witness:
  "canonical_json sample_ext (JArr [JObj [(''b'', JNull), (''a'', JStr ''1'')]])
   = canonical_json sample_ext (JArr [JObj [(''a'', JStr ''1''), (''b'', JNull)]])"
proof (rule canonical_json_same)
  have "same_json (JObj [(''b'', JNull), (''a'', JStr ''1'')]) (JObj [(''a'', JStr ''1''), (''b'', JNull)])"
    by (rule same_obj [of _ "[(''b'', JNull), (''a'', JStr ''1'')]"]) (auto intro: same_leaf)
  then show "same_json (JArr [JObj [(''b'', JNull), (''a'', JStr ''1'')]])
      (JArr [JObj [(''a'', JStr ''1''), (''b'', JNull)]])"
    by (intro same_arr) simp
qed

lemma no_tokens: "JObj kvs \<in> set (subvalues (without_auth_tokens v)) \<Longrightarrow> ''auth_token'' \<notin> fst ` set kvs"
proof (induction v rule: without_auth_tokens.induct)
  case (1 fs)
  then show ?case
    by (force simp: image_iff)
qed auto

lemma get_without_tokens:
  "k \<noteq> ''auth_token'' \<Longrightarrow> get (without_auth_tokens v) k = map_option without_auth_tokens (get v k)"
proof (cases v)
  case (JObj kvs)
  assume k: "k \<noteq> ''auth_token''"
  have "map_of (map (\<lambda>(k, v). (k, without_auth_tokens v)) (filter (\<lambda>(k, _). k \<noteq> ''auth_token'') kvs)) k
      = map_option without_auth_tokens (map_of kvs k)"
    using k by (induction kvs) auto
  with JObj show ?thesis
    by simp
qed auto



end
