(* ===== verification/Submission_Store.thy ===== *)
theory Submission_Store
  imports Fs Descriptors
begin

text \<open>
  The submission records on the local file system: \<open>LocalFsSubmissionStore\<close> of
  \<open>pipette-store-fs/src/lib.rs\<close> with its helpers in \<open>storage.rs\<close>, and the synthetic failure
  that \<open>pipette-pipeline/src/submission.rs\<close> writes for a job the queue gives up on.

  A record is in one of five places, \<open>incoming/\<close>, the three stages of \<open>score-queue/\<close> that carry
  a submission, and \<open>processed/\<close>. A gzipped body is its body.
\<close>

section \<open>Files of records\<close>

datatype score_queue_stage = ToDo | ToFinalize | Parked | Failures

fun stage_dir :: "score_queue_stage \<Rightarrow> dir" where
  "stage_dir ToDo = D_to_do"
| "stage_dir ToFinalize = D_to_finalize"
| "stage_dir Parked = D_parked"
| "stage_dir Failures = D_failures"

definition submission_path :: "dir \<Rightarrow> job_id \<Rightarrow> path" where
  "submission_path d job_id = (d, job_id @ json_suffix)"

definition processed_path :: "job_id \<Rightarrow> path" where
  "processed_path job_id = (D_processed, job_id @ gz_suffix)"

text \<open>A directory is named by the path that its entries' names are appended to.\<close>

definition tmp_sibling :: "path \<Rightarrow> string \<Rightarrow> path" where
  "tmp_sibling d u = (fst d, snd d @ ''.tmp-'' @ u @ ''.tmp'')"

text \<open>\<open>TmpFileGuard\<close>: whatever the body does, short of the process dying, the staging file goes.\<close>

definition with_tmp_guard :: "path \<Rightarrow> 'a io \<Rightarrow> 'a io" where
  "with_tmp_guard tmp m =
     io_bind (attempt m) (\<lambda>r.
       io_bind (attempt (remove_file tmp)) (\<lambda>_. io_lift r))"

definition replace_atomically :: "ext \<Rightarrow> path \<Rightarrow> path \<Rightarrow> content \<Rightarrow> unit io" where
  "replace_atomically x d dest c =
     io_bind (new_uuid x) (\<lambda>u.
       let tmp = tmp_sibling d u in
       io_bind (attempt (io_bind (write_file tmp c) (\<lambda>_. rename_file tmp dest))) (\<lambda>r.
         case r of
           Inr _ \<Rightarrow> io_ret ()
         | Inl e \<Rightarrow> io_bind (attempt (remove_file tmp)) (\<lambda>_. io_raise e)))"

datatype create_outcome = Created | AlreadyExists

definition create_complete :: "ext \<Rightarrow> path \<Rightarrow> path \<Rightarrow> content \<Rightarrow> create_outcome io" where
  "create_complete x d dest c =
     io_bind (new_uuid x) (\<lambda>u.
       let tmp = tmp_sibling d u in
       with_tmp_guard tmp
         (io_bind (write_file tmp c) (\<lambda>_.
          io_bind (hard_link tmp dest) (\<lambda>created.
            io_ret (if created then Created else AlreadyExists)))))"

text \<open>The body of a record as JSON, or an error for a torn or foreign file.\<close>

fun decode_json :: "content \<Rightarrow> (err, json) result" where
  "decode_json (C_json v) = Inr v"
| "decode_json _ = Inl E_corrupt"

definition read_body :: "path \<Rightarrow> json option io" where
  "read_body p =
     io_bind (vanished_is_absent (read_file p)) (\<lambda>c.
       case c of
         None \<Rightarrow> io_ret None
       | Some c \<Rightarrow> io_bind (io_lift (decode_json c)) (\<lambda>v. io_ret (Some v)))"

section \<open>Operations\<close>

definition write_incoming :: "ext \<Rightarrow> job_id \<Rightarrow> json \<Rightarrow> unit io" where
  "write_incoming x job_id body =
     replace_atomically x (D_incoming, []) (submission_path D_incoming job_id) (C_json body)"

definition write_incoming_new :: "ext \<Rightarrow> job_id \<Rightarrow> json \<Rightarrow> create_outcome io" where
  "write_incoming_new x job_id body =
     create_complete x (D_incoming, []) (submission_path D_incoming job_id) (C_json body)"

definition write_processed :: "ext \<Rightarrow> job_id \<Rightarrow> json \<Rightarrow> unit io" where
  "write_processed x job_id body =
     replace_atomically x (D_processed, []) (processed_path job_id) (C_json body)"

datatype job_state = Incoming | Scoring | Processed

record submission_record =
  sr_job_id :: job_id
  sr_state :: job_state
  sr_body :: json

definition get_submission :: "job_id \<Rightarrow> submission_record option io" where
  "get_submission job_id =
     io_bind (read_body (submission_path D_incoming job_id)) (\<lambda>b.
       case b of
         Some body \<Rightarrow> io_ret (Some \<lparr>sr_job_id = job_id, sr_state = Incoming, sr_body = body\<rparr>)
       | None \<Rightarrow>
           io_bind (read_body (processed_path job_id)) (\<lambda>b.
             io_ret (map_option
               (\<lambda>body. \<lparr>sr_job_id = job_id, sr_state = Processed, sr_body = body\<rparr>) b)))"

text \<open>\<open>compress_submission_to_processed\<close>: copy through a staging file, then remove the original.\<close>

definition mark_processed :: "ext \<Rightarrow> job_id \<Rightarrow> unit io" where
  "mark_processed x job_id =
     io_bind (read_file (submission_path D_incoming job_id)) (\<lambda>c.
     io_bind (replace_atomically x (D_processed, []) (processed_path job_id) c) (\<lambda>_.
     remove_file (submission_path D_incoming job_id)))"

definition delete_incoming :: "job_id \<Rightarrow> unit io" where
  "delete_incoming job_id = remove_file_idempotent (submission_path D_incoming job_id)"

definition enqueue :: "ext \<Rightarrow> score_queue_stage \<Rightarrow> job_id \<Rightarrow> json \<Rightarrow> unit io" where
  "enqueue x stage job_id body =
     replace_atomically x (stage_dir stage, []) (submission_path (stage_dir stage) job_id) (C_json body)"

definition read_queue :: "score_queue_stage \<Rightarrow> job_id \<Rightarrow> json option io" where
  "read_queue stage job_id = read_body (submission_path (stage_dir stage) job_id)"

definition dequeue :: "score_queue_stage \<Rightarrow> job_id \<Rightarrow> unit io" where
  "dequeue stage job_id = remove_file_idempotent (submission_path (stage_dir stage) job_id)"

definition find_in_score_queue :: "job_id \<Rightarrow> submission_record option io" where
  "find_in_score_queue job_id =
     io_bind (read_queue ToDo job_id) (\<lambda>b.
     io_bind (case b of Some body \<Rightarrow> io_ret (Some body) | None \<Rightarrow> read_queue Parked job_id) (\<lambda>b.
       case b of
         Some body \<Rightarrow> io_ret (Some \<lparr>sr_job_id = job_id, sr_state = Scoring, sr_body = body\<rparr>)
       | None \<Rightarrow>
           io_bind (read_queue ToFinalize job_id) (\<lambda>p.
             case p of
               None \<Rightarrow> io_ret None
             | Some payload \<Rightarrow>
                 (case get payload ''submission'' of
                    None \<Rightarrow> io_raise E_bail
                  | Some body \<Rightarrow>
                      io_ret (Some \<lparr>sr_job_id = job_id, sr_state = Scoring, sr_body = body\<rparr>)))))"

definition find_job :: "job_id \<Rightarrow> submission_record option io" where
  "find_job job_id =
     io_bind (get_submission job_id) (\<lambda>r.
       case r of Some rec \<Rightarrow> io_ret (Some rec) | None \<Rightarrow> find_in_score_queue job_id)"

text \<open>The first of the paths that exists answers; a failed probe propagates.\<close>

fun any_exists :: "path list \<Rightarrow> bool io" where
  "any_exists [] = io_ret False"
| "any_exists (p # ps) = io_bind (try_exists p) (\<lambda>b. if b then io_ret True else any_exists ps)"

definition record_paths :: "job_id \<Rightarrow> path list" where
  "record_paths job_id =
     [submission_path D_incoming job_id, submission_path D_to_do job_id,
      submission_path D_parked job_id, submission_path D_to_finalize job_id,
      processed_path job_id]"

definition has_record :: "job_id \<Rightarrow> bool io" where
  "has_record job_id = any_exists (record_paths job_id)"

text \<open>
  A held submission waits in \<open>unverified/\<close>, under the client that sent it; what a runtime
  printed is kept in \<open>runtime-output/\<close>, apart from the record.
\<close>

definition unverified_path :: "client_id \<Rightarrow> job_id \<Rightarrow> path" where
  "unverified_path c job_id = (D_unverified, c @ ''/'' @ job_id @ json_suffix)"

definition write_unverified :: "ext \<Rightarrow> client_id \<Rightarrow> job_id \<Rightarrow> json \<Rightarrow> unit io" where
  "write_unverified x c job_id body = replace_atomically x (D_unverified, c @ ''/'') (unverified_path c job_id) (C_json body)"

definition delete_unverified :: "client_id \<Rightarrow> job_id \<Rightarrow> unit io" where
  "delete_unverified c job_id = remove_file_idempotent (unverified_path c job_id)"

record runtime_output =
  runtime_stdout :: "string option"
  runtime_stderr :: "string option"

definition is_empty_output :: "runtime_output \<Rightarrow> bool" where
  "is_empty_output out \<longleftrightarrow> runtime_stdout out = None \<and> runtime_stderr out = None"

definition write_runtime_output :: "ext \<Rightarrow> job_id \<Rightarrow> client_id \<Rightarrow> runtime_output \<Rightarrow> unit io" where
  "write_runtime_output x job_id c out =
     (if is_empty_output out then io_ret ()
      else replace_atomically x (D_runtime_output, job_id @ ''/'') (D_runtime_output, job_id @ ''/'' @ c @ gz_suffix)
        (C_output (runtime_stdout out) (runtime_stderr out)))"

section \<open>The synthetic failure of a job\<close>

definition benchmark_id_try_new :: "string \<Rightarrow> string option" where
  "benchmark_id_try_new s =
     (case s of
        [] \<Rightarrow> None
      | first # rest \<Rightarrow>
          if is_ascii_alphanumeric first
             \<and> list_all (\<lambda>c. is_ascii_alphanumeric c \<or> c \<in> {CHR ''_'', CHR ''.'', CHR ''-''}) rest
          then Some s else None)"

datatype failure_source = Client | Expired | AllClientsDenied | Unmatchable | LeaseLost

fun show_failure_source :: "failure_source \<Rightarrow> string" where
  "show_failure_source Client = ''client''"
| "show_failure_source Expired = ''expired''"
| "show_failure_source AllClientsDenied = ''all_clients_denied''"
| "show_failure_source Unmatchable = ''unmatchable''"
| "show_failure_source LeaseLost = ''lease_lost''"

definition spec_benchmark :: "json \<Rightarrow> string option" where
  "spec_benchmark body =
     Option.bind (Option.bind (Option.bind (get body ''spec'') (\<lambda>spec. get spec ''benchmark'')) as_str)
       benchmark_id_try_new"

definition non_null :: "json option \<Rightarrow> json option" where
  "non_null v = (case v of Some JNull \<Rightarrow> None | v \<Rightarrow> v)"

text \<open>
  The job a synthetic failure of the body is filed under, or \<open>None\<close> when no failure can be
  built from it: an unreadable \<open>spec.benchmark\<close>, or a \<open>job_id\<close> that is absent or invalid.
\<close>

definition body_job_str :: "json \<Rightarrow> string option" where
  "body_job_str body = Option.bind (get body ''job_id'') as_str"

definition filed_under :: "json \<Rightarrow> job_id option" where
  "filed_under body =
     (case (spec_benchmark body, body_job_str body) of
        (Some _, Some s) \<Rightarrow> ok (job_id_try_new s)
      | _ \<Rightarrow> None)"

fun opt_json :: "string option \<Rightarrow> json" where
  "opt_json None = JNull"
| "opt_json (Some s) = JStr s"

text \<open>
  \<open>system_failure_from_job_body\<close>, and the failure as it is serialized: the tag of \<open>Submission\<close>,
  the fields of \<open>FailureInput\<close> and those of \<open>FailureSubmission\<close>; an absent optional field is a
  null, except the two of \<open>RuntimeOutput\<close>, which are skipped.
\<close>

definition system_failure_from_job_body ::
  "ext \<Rightarrow> json \<Rightarrow> string \<Rightarrow> string \<Rightarrow> failure_source \<Rightarrow> time \<Rightarrow>
   (err, job_id \<times> (string \<times> json) list) result" where
  "system_failure_from_job_body x body benchmark_type reason source submitted_at =
     res_bind (ok_or E_unrecordable (body_job_str body)) (\<lambda>job_str.
     res_bind (ok_or E_unrecordable (get body ''spec'')) (\<lambda>spec.
     res_bind (ok_or E_unrecordable (spec_benchmark body)) (\<lambda>benchmark_id.
     res_bind (ok_or E_bail (if trim reason = [] then None else Some (trim reason))) (\<lambda>reason.
     let requested = requested_flags_from_spec x spec in
     res_bind (map_err (\<lambda>_. E_unrecordable) (job_id_try_new job_str)) (\<lambda>job_id.
     Inr (job_id,
       [(''message_type'', JStr ''failure''),
        (''benchmark_id'', JStr benchmark_id),
        (''retriable'', JBool False),
        (''failure_reason'', JStr reason),
        (''model_name'', JNull), (''model_quant'', JNull),
        (''model_descriptor'',
           opt_json (map_option (descriptor_from_spec x) (non_null (get spec ''model'')))),
        (''model_flags'', JNull), (''runtime_name'', JNull), (''runtime_version'', JNull),
        (''runtime_descriptor'',
           opt_json (map_option (descriptor_from_spec x) (non_null (get spec ''runtime'')))),
        (''runtime_flags'', JNull), (''client_version'', JNull), (''device_time_ms'', JNull),
        (''client_extras'', JNull),
        (''client_id'', JStr ''system''),
        (''job_id'', JStr job_id),
        (''submitted_at'', JStr (ser_ts x submitted_at)),
        (''benchmark_type'', JStr benchmark_type),
        (''requested_model_flags'', opt_json (rf_model requested)),
        (''requested_runtime_flags'', opt_json (rf_runtime requested)),
        (''requested_benchmark_flags'', opt_json (rf_benchmark requested)),
        (''failure_source'', JStr (show_failure_source source))]))))))"

type_synonym catalog = "string \<Rightarrow> string option"

definition record_system_failure ::
  "ext \<Rightarrow> catalog \<Rightarrow> json \<Rightarrow> string \<Rightarrow> failure_source \<Rightarrow> time \<Rightarrow> create_outcome io" where
  "record_system_failure x catalog body reason source now =
     io_bind (io_lift (ok_or E_unrecordable (spec_benchmark body))) (\<lambda>benchmark_id.
     io_bind (io_lift (ok_or E_bail (catalog benchmark_id))) (\<lambda>benchmark_type.
     io_bind (io_lift (system_failure_from_job_body x body benchmark_type reason source now))
       (\<lambda>(job_id, kvs). write_incoming_new x job_id (JObj kvs))))"

section \<open>Properties of records\<close>

lemma system_failure_job:
  "system_failure_from_job_body x body t r src now = Inr (j, kvs) \<Longrightarrow>
   filed_under body = Some j \<and> valid_job_id j"
  by (auto simp: system_failure_from_job_body_def res_bind_Inr_iff filed_under_def Let_def)

lemma spec_benchmark_spec [simp]: "get body ''spec'' = None \<Longrightarrow> spec_benchmark body = None"
  by (simp add: spec_benchmark_def)

lemma system_failure_unrecordable:
  "system_failure_from_job_body x body t r src now = Inl E_unrecordable \<Longrightarrow> filed_under body = None"
  by (auto simp: system_failure_from_job_body_def res_bind_def ok_or_def map_err_def filed_under_def
      ok_def Let_def split: option.splits sum.splits if_splits)

lemma record_job_submission [simp]:
  "d \<in> {D_incoming, D_to_do, D_parked, D_to_finalize} \<Longrightarrow> record_job (submission_path d j) = Some j"
  "record_job (processed_path j) = Some j"
  by (auto simp: record_job_def submission_path_def processed_path_def)

lemma queue_job_submission [simp]:
  "d \<in> {D_incoming, D_to_do, D_parked, D_to_finalize} \<Longrightarrow> queue_job (submission_path d j) = None"
  "queue_job (processed_path j) = None"
  by (auto simp: submission_path_def processed_path_def)

lemma record_job_iff_paths: "record_job p = Some j \<longleftrightarrow> p \<in> set (record_paths j)"
proof (cases p)
  case (Pair d k)
  then show ?thesis
    by (cases d) (auto simp: record_job_def record_paths_def submission_path_def processed_path_def
        strip_suffix_Some_iff)
qed

lemma tmp_sibling_other [simp]: "queue_job (tmp_sibling d u) = None" "record_job (tmp_sibling d u) = None"
proof -
  have no: "\<not> ends_with json_suffix (snd (tmp_sibling d u))" "\<not> ends_with gz_suffix (snd (tmp_sibling d u))"
    by (auto simp: tmp_sibling_def json_suffix_def gz_suffix_def dest: ends_with_last)
  show "record_job (tmp_sibling d u) = None"
    using no by (simp add: record_job_def strip_suffix_def)
  show "queue_job (tmp_sibling d u) = None"
    using no queue_job_json [of "tmp_sibling d u"]
    by (cases "queue_job (tmp_sibling d u)") auto
qed

lemma raises_guard: "raises m E \<Longrightarrow> E E_crash \<Longrightarrow> raises (with_tmp_guard tmp m) E"
  unfolding with_tmp_guard_def
  by (intro raises_bind_run raises_attempt raises_lift) (auto dest: raises_attempt_result)

lemma raises_write: "(\<And>k. E (E_io k)) \<Longrightarrow> E E_crash \<Longrightarrow> raises (write_file p c) E"
  unfolding write_file_def by (auto intro!: raises_bind raises_sys)

lemma raises_create:
  "(\<And>k. E (E_io k)) \<Longrightarrow> E E_crash \<Longrightarrow> raises (create_complete x d dest c) E"
  unfolding create_complete_def Let_def hard_link_def
  by (intro raises_bind raises_uuid raises_guard raises_write raises_sys raises_ret)

lemma record_system_failure_unrecordable:
  "raises (record_system_failure x catalog body reason source now) (\<lambda>e. e = E_unrecordable \<longrightarrow> filed_under body = None)"
proof -
  have "spec_benchmark body = None \<Longrightarrow> filed_under body = None"
    by (simp add: filed_under_def)
  then show ?thesis
    unfolding record_system_failure_def write_incoming_new_def
    by (intro raises_bind raises_lift)
      (auto simp: ok_or_def split: option.splits dest: system_failure_unrecordable intro: raises_create)
qed

end
