(* ===== verification/Todo_Store.thy ===== *)
theory Todo_Store
  imports Submission_Store
begin

text \<open>
  The \<open>todo/\<close> tree on the local file system: \<open>LocalFsTodoStore\<close> of
  \<open>pipette-store-fs/src/lib.rs\<close>, one definition per method of the \<open>TodoStore\<close> trait, in the
  order of the source. A job is in \<open>avail/\<close> or in \<open>leased/\<close>; every transition between the two is
  one \<open>rename\<close>.
\<close>

section \<open>Listings\<close>

definition readable :: "(io_kind, string \<times> bool) result list \<Rightarrow> (string \<times> bool) list" where
  "readable es = List.map_filter ok es"

fun all_readable :: "(io_kind, 'a) result list \<Rightarrow> (err, 'a list) result" where
  "all_readable [] = Inr []"
| "all_readable (Inl k # _) = Inl (E_io k)"
| "all_readable (Inr a # es) = res_bind (all_readable es) (\<lambda>r. Inr (a # r))"

definition json_names :: "(string \<times> bool) list \<Rightarrow> string list" where
  "json_names es = filter is_json_name (map fst es)"

text \<open>The leaves of a partition, \<open>None\<close> when it is gone; an unreadable leaf fails the listing.\<close>

definition read_leaves :: "dir \<Rightarrow> string \<Rightarrow> (string \<times> bool) list option io" where
  "read_leaves d sub =
     io_bind (vanished_is_absent (read_dir d sub)) (\<lambda>es.
       case es of
         None \<Rightarrow> io_ret None
       | Some es \<Rightarrow> io_bind (io_lift (all_readable es)) (\<lambda>es. io_ret (Some es)))"

text \<open>The same, skipping the leaves that cannot be read.\<close>

definition read_readable :: "dir \<Rightarrow> string \<Rightarrow> (string \<times> bool) list io" where
  "read_readable d sub =
     io_bind (vanished_is_absent (read_dir d sub)) (\<lambda>es.
       case es of None \<Rightarrow> io_ret [] | Some es \<Rightarrow> io_ret (readable es))"

section \<open>Available jobs\<close>

definition avail_path :: "ext \<Rightarrow> job_id \<Rightarrow> expires_at \<Rightarrow> path" where
  "avail_path x j e = (D_avail, avail_filename x j e)"

definition leased_path :: "ext \<Rightarrow> job_id \<Rightarrow> expires_at \<Rightarrow> client_id \<Rightarrow> time \<Rightarrow> path" where
  "leased_path x j e c t = (D_leased, leased_key x j e c t)"

definition list_avail :: "string list io" where
  "list_avail =
     io_bind (read_dir D_avail []) (\<lambda>es.
     io_bind (io_fold (\<lambda>e names.
         case e of
           Inl k \<Rightarrow> io_raise (E_io k)
         | Inr (job, is_dir) \<Rightarrow>
             if \<not> is_dir then io_ret (if is_json_name job then names @ [job] else names)
             else io_bind (read_leaves D_avail job) (\<lambda>ls.
               case ls of
                 None \<Rightarrow> io_ret names
               | Some ls \<Rightarrow> io_ret (names @ map (\<lambda>n. job @ ''/'' @ n) (json_names ls)))) es [])
       (\<lambda>names. io_ret (sort names)))"

definition get_avail :: "ext \<Rightarrow> job_id \<Rightarrow> expires_at \<Rightarrow> json option io" where
  "get_avail x j e = read_body (avail_path x j e)"

definition delete_avail :: "ext \<Rightarrow> job_id \<Rightarrow> expires_at \<Rightarrow> unit io" where
  "delete_avail x j e = remove_file_idempotent (avail_path x j e)"

definition delete_avail_by_job :: "job_id \<Rightarrow> unit io" where
  "delete_avail_by_job j =
     io_bind (vanished_is_absent (read_dir D_avail j)) (\<lambda>es.
       case es of
         None \<Rightarrow> io_ret ()
       | Some es \<Rightarrow>
           io_for es (\<lambda>e. case e of
             Inl k \<Rightarrow> io_raise (E_io k)
           | Inr (n, _) \<Rightarrow>
               if is_json_name n then remove_file (D_avail, j @ ''/'' @ n) else io_ret ()))"

text \<open>The first JSON entry of a job's directory; a read error ahead of it propagates.\<close>

fun first_json :: "(io_kind, string \<times> bool) result list \<Rightarrow> (err, string option) result" where
  "first_json [] = Inr None"
| "first_json (Inl k # _) = Inl (E_io k)"
| "first_json (Inr (n, _) # es) = (if is_json_name n then Inr (Some n) else first_json es)"

definition get_avail_by_job :: "job_id \<Rightarrow> json option io" where
  "get_avail_by_job j =
     io_bind (vanished_is_absent (read_dir D_avail j)) (\<lambda>es.
       case es of
         None \<Rightarrow> io_ret None
       | Some es \<Rightarrow>
           io_bind (io_lift (first_json es)) (\<lambda>n.
             case n of
               None \<Rightarrow> io_ret None
             | Some n \<Rightarrow>
                 io_bind (read_file (D_avail, j @ ''/'' @ n)) (\<lambda>c.
                 io_bind (io_lift (decode_json c)) (\<lambda>v. io_ret (Some v)))))"

definition avail_key_for_job :: "job_id \<Rightarrow> string option io" where
  "avail_key_for_job j =
     io_bind (vanished_is_absent (read_dir D_avail j)) (\<lambda>es.
       case es of
         None \<Rightarrow> io_ret None
       | Some es \<Rightarrow>
           io_bind (io_lift (first_json es)) (\<lambda>n. io_ret (map_option (\<lambda>n. j @ ''/'' @ n) n)))"

datatype redate_result = Redated | RedateGone

definition redate_avail :: "ext \<Rightarrow> job_id \<Rightarrow> expires_at \<Rightarrow> expires_at \<Rightarrow> redate_result io" where
  "redate_avail x j frm to =
     io_bind (vanished_is_absent (rename_file (avail_path x j frm) (avail_path x j to))) (\<lambda>r.
       io_ret (case r of Some _ \<Rightarrow> Redated | None \<Rightarrow> RedateGone))"

section \<open>Leases\<close>

definition list_leased :: "string list io" where
  "list_leased =
     io_bind (read_dir D_leased []) (\<lambda>es.
     io_fold (\<lambda>e keys.
         case e of
           Inl k \<Rightarrow> io_raise (E_io k)
         | Inr (client, is_dir) \<Rightarrow>
             if \<not> is_dir then io_ret keys
             else io_bind (read_leaves D_leased client) (\<lambda>ls.
               case ls of
                 None \<Rightarrow> io_ret keys
               | Some ls \<Rightarrow> io_ret (keys @ map (\<lambda>n. client @ ''/'' @ n) (json_names ls)))) es [])"

definition get_leased :: "ext \<Rightarrow> job_id \<Rightarrow> expires_at \<Rightarrow> client_id \<Rightarrow> time \<Rightarrow> json option io" where
  "get_leased x j e c t = read_body (leased_path x j e c t)"

definition list_leased_for_client :: "client_id \<Rightarrow> string list io" where
  "list_leased_for_client c =
     io_bind (read_readable D_leased c) (\<lambda>es.
       io_ret (map (\<lambda>leaf. c @ ''/'' @ leaf) (json_names es)))"

datatype renew_lease_result = Renewed expires_at | WrongClient | RenewNotFound

definition own_leaf ::
  "ext \<Rightarrow> job_id \<Rightarrow> client_id \<Rightarrow> (string \<times> bool) list \<Rightarrow> (string \<times> expires_at) option" where
  "own_leaf x j c es =
     (case List.map_filter
         (\<lambda>n. map_option (\<lambda>l. (n, l_expires_at l)) (ok (parse_leased_key x (c @ ''/'' @ n))))
         (filter (starts_with (j @ ''.'')) (map fst es)) of
        [] \<Rightarrow> None
      | r # _ \<Rightarrow> Some r)"

definition leased_elsewhere :: "job_id \<Rightarrow> client_id \<Rightarrow> bool io" where
  "leased_elsewhere j c =
     io_bind (read_dir D_leased []) (\<lambda>es.
     io_fold (\<lambda>(partition, is_dir) found.
         if \<not> is_dir \<or> partition = c \<or> found then io_ret found
         else io_bind (read_readable D_leased partition) (\<lambda>ls.
           io_ret (list_ex (\<lambda>(n, is_dir). \<not> is_dir \<and> starts_with (j @ ''.'') n) ls)))
       (readable es) False)"

definition renew_lease :: "ext \<Rightarrow> job_id \<Rightarrow> client_id \<Rightarrow> time \<Rightarrow> renew_lease_result io" where
  "renew_lease x j c new_expiry =
     io_bind (read_readable D_leased c) (\<lambda>es.
     io_bind
       (case own_leaf x j c es of
          None \<Rightarrow> io_ret None
        | Some (leaf, e) \<Rightarrow>
            io_bind (vanished_is_absent
                (rename_file (D_leased, c @ ''/'' @ leaf) (leased_path x j e c new_expiry)))
              (\<lambda>r. io_ret (map_option (\<lambda>_. e) r)))
       (\<lambda>renewed.
          case renewed of
            Some e \<Rightarrow> io_ret (Renewed e)
          | None \<Rightarrow>
              io_bind (leased_elsewhere j c) (\<lambda>b.
                io_ret (if b then WrongClient else RenewNotFound))))"

definition delete_lease :: "ext \<Rightarrow> job_id \<Rightarrow> expires_at \<Rightarrow> client_id \<Rightarrow> time \<Rightarrow> unit io" where
  "delete_lease x j e c t = remove_file_idempotent (leased_path x j e c t)"

datatype claim_result = Claimed json | ClaimGone

definition claim_job ::
  "ext \<Rightarrow> job_id \<Rightarrow> expires_at \<Rightarrow> client_id \<Rightarrow> time \<Rightarrow> claim_result io" where
  "claim_job x j e c lease_expiry =
     io_bind (vanished_is_absent
         (rename_file (avail_path x j e) (leased_path x j e c lease_expiry))) (\<lambda>r.
       case r of
         None \<Rightarrow> io_ret ClaimGone
       | Some _ \<Rightarrow>
           io_bind (read_file (leased_path x j e c lease_expiry)) (\<lambda>body.
           io_bind (io_lift (decode_json body)) (\<lambda>v. io_ret (Claimed v))))"

datatype recycle_result = Recycled | RecycleGone

definition recycle_lease ::
  "ext \<Rightarrow> job_id \<Rightarrow> expires_at \<Rightarrow> client_id \<Rightarrow> time \<Rightarrow> recycle_result io" where
  "recycle_lease x j e c lease_expiry =
     io_bind (vanished_is_absent
         (rename_file (leased_path x j e c lease_expiry) (avail_path x j e))) (\<lambda>r.
       io_ret (case r of Some _ \<Rightarrow> Recycled | None \<Rightarrow> RecycleGone))"

section \<open>Denials\<close>

definition denied_path :: "job_id \<Rightarrow> client_id \<Rightarrow> path" where
  "denied_path j c = (D_denied, denied_marker_filename j c)"

definition write_denied :: "ext \<Rightarrow> job_id \<Rightarrow> client_id \<Rightarrow> denial_record \<Rightarrow> unit io" where
  "write_denied x j c r = replace_atomically x (D_denied, []) (denied_path j c) (C_denial r)"

definition default_denial :: denial_record where
  "default_denial = \<lparr>denied_at = None, failure_reason = None, dr_client_version = None, dr_runtime_version = None\<rparr>"

fun denial_from_bytes :: "content \<Rightarrow> (err, denial_record) result" where
  "denial_from_bytes C_empty = Inr default_denial"
| "denial_from_bytes (C_denial r) = Inr r"
| "denial_from_bytes _ = Inl E_corrupt"

definition get_denied :: "job_id \<Rightarrow> client_id \<Rightarrow> denial_record option io" where
  "get_denied j c =
     io_bind (vanished_is_absent (read_file (denied_path j c))) (\<lambda>b.
       case b of
         None \<Rightarrow> io_ret None
       | Some b \<Rightarrow> io_bind (io_lift (denial_from_bytes b)) (\<lambda>r. io_ret (Some r)))"

definition is_denied :: "job_id \<Rightarrow> client_id \<Rightarrow> bool io" where
  "is_denied j c = try_exists (denied_path j c)"

definition delete_denied_for_job :: "job_id \<Rightarrow> unit io" where
  "delete_denied_for_job j =
     io_bind (read_dir D_denied []) (\<lambda>es.
       io_for es (\<lambda>e. case e of
         Inl k \<Rightarrow> io_raise (E_io k)
       | Inr (n, _) \<Rightarrow>
           if starts_with (denied_job_prefix j) n then remove_file (D_denied, n) else io_ret ()))"

definition delete_denied :: "job_id \<Rightarrow> client_id \<Rightarrow> unit io" where
  "delete_denied j c = remove_file_idempotent (denied_path j c)"

definition list_all_denied :: "(job_id \<times> client_id) list io" where
  "list_all_denied =
     io_bind (read_readable D_denied []) (\<lambda>es.
       io_ret (List.map_filter (ok \<circ> parse_denied_marker)
         (filter (\<lambda>n. \<not> starts_with ''.tmp-'' n) (map fst es))))"

section \<open>The eligible index\<close>

definition eligible_path :: "ext \<Rightarrow> client_id \<Rightarrow> job_id \<Rightarrow> expires_at \<Rightarrow> path" where
  "eligible_path x c j e = (D_eligible, c @ ''/'' @ eligible_filename x j e)"

fun parse_all :: "(string \<Rightarrow> ('e, 'a) result) \<Rightarrow> (io_kind, string \<times> bool) result list \<Rightarrow> (err, 'a list) result" where
  "parse_all f [] = Inr []"
| "parse_all f (Inl k # _) = Inl (E_io k)"
| "parse_all f (Inr (n, _) # es) =
     res_bind (map_err (\<lambda>_. E_name) (f n)) (\<lambda>a. res_bind (parse_all f es) (\<lambda>r. Inr (a # r)))"

definition list_eligible_for_client :: "ext \<Rightarrow> client_id \<Rightarrow> (job_id \<times> expires_at) list io" where
  "list_eligible_for_client x c =
     io_bind (vanished_is_absent (read_dir D_eligible c)) (\<lambda>es.
       case es of
         None \<Rightarrow> io_ret []
       | Some es \<Rightarrow> io_lift (parse_all (parse_eligible_filename x) es))"

definition write_eligible :: "ext \<Rightarrow> client_id \<Rightarrow> job_id \<Rightarrow> expires_at \<Rightarrow> unit io" where
  "write_eligible x c j e = write_file (eligible_path x c j e) C_empty"

definition delete_eligible_for_client :: "client_id \<Rightarrow> unit io" where
  "delete_eligible_for_client c =
     io_bind (vanished_is_absent (remove_dir_all D_eligible c)) (\<lambda>_. io_ret ())"

definition delete_eligible :: "ext \<Rightarrow> client_id \<Rightarrow> job_id \<Rightarrow> expires_at \<Rightarrow> unit io" where
  "delete_eligible x c j e = remove_file_idempotent (eligible_path x c j e)"

definition list_all_eligible :: "ext \<Rightarrow> (client_id \<times> job_id \<times> expires_at) list io" where
  "list_all_eligible x =
     io_bind (read_readable D_eligible []) (\<lambda>es.
     io_fold (\<lambda>(dir_name, is_dir) result.
         if \<not> is_dir then io_ret result
         else case id_from_key dir_name client_id_try_new of
           Inl _ \<Rightarrow> io_ret result
         | Inr c \<Rightarrow>
             io_bind (read_readable D_eligible c) (\<lambda>ls.
               io_ret (result @ map (\<lambda>(j, e). (c, j, e))
                 (List.map_filter (ok \<circ> parse_eligible_filename x) (map fst ls))))) es [])"

section \<open>Reindex flags\<close>

definition write_pending_reindex :: "ext \<Rightarrow> client_id \<Rightarrow> unit io" where
  "write_pending_reindex x c =
     io_bind (new_uuid x) (\<lambda>u. write_file (D_pending_reindex, pending_reindex_filename c u) C_empty)"

fun parse_flags ::
  "(string \<Rightarrow> ('e, 'a) result) \<Rightarrow> (io_kind, string \<times> bool) result list \<Rightarrow> (err, ('a \<times> string) list) result" where
  "parse_flags f [] = Inr []"
| "parse_flags f (Inl k # _) = Inl (E_io k)"
| "parse_flags f (Inr (n, _) # es) =
     res_bind (parse_flags f es) (\<lambda>r. Inr (case f n of Inr a \<Rightarrow> (a, n) # r | Inl _ \<Rightarrow> r))"

definition list_pending_reindex :: "(client_id \<times> string) list io" where
  "list_pending_reindex =
     io_bind (read_dir D_pending_reindex []) (\<lambda>es.
       io_lift (parse_flags parse_pending_reindex_filename es))"

definition delete_pending_reindex :: "string \<Rightarrow> unit io" where
  "delete_pending_reindex key = remove_file_idempotent (D_pending_reindex, key)"

definition has_pending_reindex :: "client_id \<Rightarrow> bool io" where
  "has_pending_reindex c =
     io_bind (read_dir D_pending_reindex []) (\<lambda>es.
     io_bind (io_lift (all_readable es)) (\<lambda>es.
       io_ret (list_ex (\<lambda>(n, _). parse_pending_reindex_filename n = Inr c) es)))"

definition write_pending_reindex_job :: "job_id \<Rightarrow> unit io" where
  "write_pending_reindex_job j = write_file (D_pending_reindex_jobs, j) C_empty"

definition list_pending_reindex_jobs :: "job_id list io" where
  "list_pending_reindex_jobs =
     io_bind (read_dir D_pending_reindex_jobs []) (\<lambda>es.
     io_bind (io_lift (parse_flags job_id_try_new es)) (\<lambda>js. io_ret (map fst js)))"

definition delete_pending_reindex_job :: "job_id \<Rightarrow> unit io" where
  "delete_pending_reindex_job j = remove_file_idempotent (D_pending_reindex_jobs, j)"

section \<open>Lost leases\<close>

definition write_lost_lease :: "ext \<Rightarrow> job_id \<Rightarrow> client_id \<Rightarrow> time \<Rightarrow> unit io" where
  "write_lost_lease x j c t = write_file (D_lost, j @ ''/'' @ lost_lease_filename x c t) C_empty"

definition list_lost_leases :: "ext \<Rightarrow> job_id \<Rightarrow> (client_id \<times> time) list io" where
  "list_lost_leases x j =
     io_bind (vanished_is_absent (read_dir D_lost j)) (\<lambda>es.
       case es of
         None \<Rightarrow> io_ret []
       | Some es \<Rightarrow>
           io_bind (io_lift (parse_flags (parse_lost_lease_filename x) es)) (\<lambda>ls.
             io_ret (sort_key snd (map fst ls))))"

definition delete_lost_leases_for_job :: "job_id \<Rightarrow> unit io" where
  "delete_lost_leases_for_job j =
     io_bind (vanished_is_absent (remove_dir_all D_lost j)) (\<lambda>_. io_ret ())"

definition list_lost_lease_jobs :: "job_id list io" where
  "list_lost_lease_jobs =
     io_bind (vanished_is_absent (read_dir D_lost [])) (\<lambda>es.
       case es of
         None \<Rightarrow> io_ret []
       | Some es \<Rightarrow> io_bind (io_lift (parse_flags job_id_try_new es)) (\<lambda>js. io_ret (map fst js)))"

section \<open>Staging\<close>

definition write_tmp :: "job_id \<Rightarrow> json \<Rightarrow> unit io" where
  "write_tmp j body = write_file (D_tmp, tmp_filename j) (C_json body)"

definition promote_avail :: "ext \<Rightarrow> job_id \<Rightarrow> expires_at \<Rightarrow> unit io" where
  "promote_avail x j e = io_map_err E_bail (rename_file (D_tmp, tmp_filename j) (avail_path x j e))"

text \<open>\<open>now - mtime\<close>, or zero when the file is from the future, is at least \<open>age\<close> nanoseconds.\<close>

definition list_stale_tmp :: "nat \<Rightarrow> string list io" where
  "list_stale_tmp age =
     io_bind utc_now (\<lambda>now.
     io_bind (read_dir D_tmp []) (\<lambda>es.
     io_fold (\<lambda>e stale.
         case e of
           Inl k \<Rightarrow> io_raise (E_io k)
         | Inr (n, _) \<Rightarrow>
             io_bind (file_mtime (D_tmp, n)) (\<lambda>modified.
               io_ret (if int age \<le> max 0 (now - modified) then stale @ [n] else stale))) es []))"

definition delete_tmp_object :: "string \<Rightarrow> unit io" where
  "delete_tmp_object key = remove_file_idempotent (D_tmp, key)"

section \<open>State of the maintenance run\<close>

text \<open>A missing or corrupt key set reads as empty.\<close>

fun parse_key_set :: "content \<Rightarrow> string list" where
  "parse_key_set (C_keys ks) = ks"
| "parse_key_set _ = []"

definition read_key_set :: "path \<Rightarrow> string list io" where
  "read_key_set p =
     io_bind (vanished_is_absent (read_file p)) (\<lambda>c.
       io_ret (case c of None \<Rightarrow> [] | Some c \<Rightarrow> parse_key_set c))"

definition write_key_set :: "path \<Rightarrow> string list \<Rightarrow> unit io" where
  "write_key_set p ks = write_file p (C_keys ks)"

definition indexed_path :: path where "indexed_path = (D_todo, ''.eligible-indexed'')"
definition workers_path :: path where "workers_path = (D_todo, ''.eligible-workers'')"
definition gc_candidates_path :: path where "gc_candidates_path = (D_todo, ''.gc-candidates'')"
definition backlog_path :: path where "backlog_path = (D_todo, ''.backlog'')"
definition campaign_backlog_path :: path where "campaign_backlog_path = (D_todo, ''.backlog-campaigns'')"

definition read_eligible_indexed :: "string list io" where
  "read_eligible_indexed = read_key_set indexed_path"

definition write_eligible_indexed :: "string list \<Rightarrow> unit io" where
  "write_eligible_indexed ks = write_key_set indexed_path ks"

definition read_eligible_workers :: "string list io" where
  "read_eligible_workers = read_key_set workers_path"

definition write_eligible_workers :: "string list \<Rightarrow> unit io" where
  "write_eligible_workers ks = write_key_set workers_path ks"

definition read_gc_candidates :: "string list io" where
  "read_gc_candidates = read_key_set gc_candidates_path"

definition write_gc_candidates :: "string list \<Rightarrow> unit io" where
  "write_gc_candidates ks = write_key_set gc_candidates_path ks"

definition replace_snapshot :: "ext \<Rightarrow> path \<Rightarrow> content \<Rightarrow> unit io" where
  "replace_snapshot x p c =
     io_bind (new_uuid x) (\<lambda>u.
       let tmp = (fst p, snd p @ ''.tmp-'' @ u) in
       io_bind (attempt (io_bind (write_file tmp c) (\<lambda>_. rename_file tmp p))) (\<lambda>r.
         case r of
           Inr _ \<Rightarrow> io_ret ()
         | Inl e \<Rightarrow> io_bind (attempt (remove_file tmp)) (\<lambda>_. io_raise e)))"

definition read_backlog :: "(time \<times> (client_id \<times> nat) list) option io" where
  "read_backlog =
     io_bind (vanished_is_absent (read_file backlog_path)) (\<lambda>c.
       io_ret (case c of Some (C_backlog t jobs) \<Rightarrow> Some (t, jobs) | _ \<Rightarrow> None))"

definition write_backlog :: "ext \<Rightarrow> time \<Rightarrow> (client_id \<times> nat) list \<Rightarrow> unit io" where
  "write_backlog x counted_at jobs = replace_snapshot x backlog_path (C_backlog counted_at jobs)"

definition read_campaign_backlog :: "(time \<times> (client_id \<times> campaign_backlog) list) option io" where
  "read_campaign_backlog =
     io_bind (vanished_is_absent (read_file campaign_backlog_path)) (\<lambda>c.
       io_ret (case c of Some (C_campaigns t ds) \<Rightarrow> Some (t, ds) | _ \<Rightarrow> None))"

definition write_campaign_backlog :: "ext \<Rightarrow> time \<Rightarrow> (client_id \<times> campaign_backlog) list \<Rightarrow> unit io" where
  "write_campaign_backlog x counted_at ds =
     replace_snapshot x campaign_backlog_path (C_campaigns counted_at ds)"

section \<open>Suspensions and liveness\<close>

definition suspension_path :: "client_id \<Rightarrow> path" where
  "suspension_path c = (D_suspended, c @ json_suffix)"

fun decode_suspension :: "content \<Rightarrow> (err, suspension_record) result" where
  "decode_suspension (C_suspension r) = Inr r"
| "decode_suspension _ = Inl E_corrupt"

definition write_suspension :: "client_id \<Rightarrow> time \<Rightarrow> job_id \<Rightarrow> unit io" where
  "write_suspension c at j =
     write_file (suspension_path c) (C_suspension \<lparr>suspended_at = at, conflicting_job_id = j\<rparr>)"

definition read_suspension :: "client_id \<Rightarrow> suspension_record option io" where
  "read_suspension c =
     io_bind (vanished_is_absent (read_file (suspension_path c))) (\<lambda>b.
       case b of
         None \<Rightarrow> io_ret None
       | Some b \<Rightarrow> io_bind (io_lift (decode_suspension b)) (\<lambda>r. io_ret (Some r)))"

definition delete_suspension :: "client_id \<Rightarrow> unit io" where
  "delete_suspension c = remove_file_idempotent (suspension_path c)"

text \<open>\<open>flat_keyspace_id\<close>: the id a \<open>{id}.json\<close> leaf names verbatim.\<close>

definition flat_keyspace_id :: "string \<Rightarrow> client_id option" where
  "flat_keyspace_id leaf =
     Option.bind (strip_suffix json_suffix leaf) (\<lambda>s. ok (id_from_key s client_id_try_new))"

definition list_suspended_ids :: "client_id list io" where
  "list_suspended_ids =
     io_bind (read_dir D_suspended []) (\<lambda>es.
       io_ret (sort (List.map_filter flat_keyspace_id (map fst (readable es)))))"

definition list_suspensions :: "(client_id \<times> suspension_record) list io" where
  "list_suspensions =
     io_bind (read_dir D_suspended []) (\<lambda>es.
     io_fold (\<lambda>(n, _) result.
         case flat_keyspace_id n of
           None \<Rightarrow> io_ret result
         | Some c \<Rightarrow>
             io_bind (attempt (io_bind (read_file (D_suspended, n)) (\<lambda>b. io_lift (decode_suspension b)))) (\<lambda>r.
               io_ret (case r of Inr rec \<Rightarrow> result @ [(c, rec)] | Inl _ \<Rightarrow> result)))
       (readable es) [])"

definition liveness_path :: "client_id \<Rightarrow> path" where
  "liveness_path c = (D_liveness, c)"

definition stamp_liveness :: "client_id \<Rightarrow> unit io" where
  "stamp_liveness c = write_file (liveness_path c) C_empty"

definition read_liveness :: "client_id \<Rightarrow> time option io" where
  "read_liveness c = vanished_is_absent (file_mtime (liveness_path c))"

definition list_liveness :: "(client_id \<times> time) list io" where
  "list_liveness =
     io_bind (read_readable D_liveness []) (\<lambda>es.
     io_fold (\<lambda>(n, _) result.
         case id_from_key n client_id_try_new of
           Inl _ \<Rightarrow> io_ret result
         | Inr c \<Rightarrow>
             io_bind (attempt (file_mtime (D_liveness, n))) (\<lambda>r.
               io_ret (case r of Inr t \<Rightarrow> result @ [(c, t)] | Inl _ \<Rightarrow> result)))
       es [])"

definition delete_liveness :: "client_id \<Rightarrow> unit io" where
  "delete_liveness c = remove_file_idempotent (liveness_path c)"

text \<open>\<open>purge_client_todo_state\<close> of \<open>pipette-store\<close>, when a client is deleted: best effort.\<close>

definition purge_client_todo_state :: "client_id \<Rightarrow> unit io" where
  "purge_client_todo_state c =
     io_bind (attempt (delete_suspension c)) (\<lambda>_.
     io_bind (attempt (delete_liveness c)) (\<lambda>_.
     io_bind (attempt (delete_eligible_for_client c)) (\<lambda>_.
     io_bind (attempt list_pending_reindex) (\<lambda>r.
       case r of
         Inl _ \<Rightarrow> io_ret ()
       | Inr flags \<Rightarrow>
           io_for (filter (\<lambda>(flagged, _). flagged = c) flags) (\<lambda>(_, key).
             io_bind (attempt (delete_pending_reindex key)) (\<lambda>_. io_ret ()))))))"

section \<open>Names of the tree\<close>

lemma queue_job_avail [simp]: "valid_job_id j \<Longrightarrow> queue_job (avail_path x j e) = Some j"
  by (simp add: avail_path_def avail_filename_def id_chars is_json_name_def ends_with_iff)

lemma queue_job_leased [simp]:
  "valid_job_id j \<Longrightarrow> valid_client_id c \<Longrightarrow> queue_job (leased_path x j e c t) = Some j"
  by (simp add: leased_path_def leased_key_def id_chars is_json_name_def ends_with_iff)

text \<open>Every other directory of the tree holds neither queue entries nor records.\<close>

definition marker_dir :: "dir \<Rightarrow> bool" where
  "marker_dir d \<longleftrightarrow> d \<in> {D_denied, D_eligible, D_pending_reindex, D_pending_reindex_jobs, D_lost,
     D_tmp, D_suspended, D_liveness, D_todo, D_job_plans, D_unverified, D_runtime_output,
     D_failures, D_warehouse, D_eval_samples, D_plans, D_cancelled, D_content_keys, D_plan_sources,
     D_pending_sources, D_job_sources, D_job_plan_links}"

lemma marker_other: "marker_dir (fst p) \<Longrightarrow> queue_job p = None \<and> record_job p = None"
  by (cases p; cases "fst p") (auto simp: marker_dir_def record_job_def)

end
