(* ===== verification/Interference.thy ===== *)
theory Interference
  imports Todo_Store
begin

text \<open>
  What a computation guarantees whatever runs beside it, fails under it or kills it.

  \<open>rg Inv R A P m Q\<close>: from every world that satisfies \<open>Inv\<close> and \<open>P\<close> and whose schedule holds
  only actions allowed by \<open>A\<close>, the run of \<open>m\<close> relates the file system before to the one after
  by \<open>R\<close> (also when \<open>m\<close> fails or dies), and when \<open>m\<close> returns, \<open>Q\<close> holds of the result.

  The locale \<open>guarantee\<close> is the interface of such a relation: reflexive, transitive, keeping
  \<open>Inv\<close>, and admitting every action of the other processes. Its extension \<open>marker_guarantee\<close>
  also admits every change of a marker, and \<open>queue_guarantee\<close> the stores' own steps on entries and
  records: what a relation has to admit so that every store operation and every handler built
  from them guarantees it.
\<close>

section \<open>Guarantees\<close>

definition sched_ok :: "(act \<Rightarrow> bool) \<Rightarrow> world \<Rightarrow> bool" where
  "sched_ok A w \<longleftrightarrow> list_all (\<lambda>(acts, _). list_all A acts) (w_sched w)"

definition rg ::
  "(fs \<Rightarrow> bool) \<Rightarrow> (fs \<Rightarrow> fs \<Rightarrow> bool) \<Rightarrow> (act \<Rightarrow> bool) \<Rightarrow> (fs \<Rightarrow> bool) \<Rightarrow> 'a io \<Rightarrow> ('a \<Rightarrow> fs \<Rightarrow> bool) \<Rightarrow> bool" where
  "rg Inv R A P m Q \<longleftrightarrow>
     (\<forall>w r w'. sched_ok A w \<and> Inv (w_fs w) \<and> P (w_fs w) \<and> m w = (r, w') \<longrightarrow>
        sched_ok A w' \<and> R (w_fs w) (w_fs w') \<and> (\<forall>a. r = Inr a \<longrightarrow> Q a (w_fs w')))"

lemma rgI:
  "(\<And>w r w'. sched_ok A w \<Longrightarrow> Inv (w_fs w) \<Longrightarrow> P (w_fs w) \<Longrightarrow> m w = (r, w') \<Longrightarrow>
      sched_ok A w' \<and> R (w_fs w) (w_fs w') \<and> (\<forall>a. r = Inr a \<longrightarrow> Q a (w_fs w')))
   \<Longrightarrow> rg Inv R A P m Q"
  unfolding rg_def by blast

lemma rgD:
  "rg Inv R A P m Q \<Longrightarrow> sched_ok A w \<Longrightarrow> Inv (w_fs w) \<Longrightarrow> P (w_fs w) \<Longrightarrow> m w = (r, w') \<Longrightarrow>
   sched_ok A w' \<and> R (w_fs w) (w_fs w') \<and> (\<forall>a. r = Inr a \<longrightarrow> Q a (w_fs w'))"
  by (simp add: rg_def)

abbreviation anyfs :: "fs \<Rightarrow> bool" where
  "anyfs \<equiv> \<lambda>_. True"

abbreviation anyres :: "'a \<Rightarrow> fs \<Rightarrow> bool" where
  "anyres \<equiv> \<lambda>_ _. True"

locale guarantee =
  fixes Inv :: "fs \<Rightarrow> bool"
    and R :: "fs \<Rightarrow> fs \<Rightarrow> bool"
    and A :: "act \<Rightarrow> bool"
  assumes R_refl: "R s s"
    and R_trans: "R s t \<Longrightarrow> R t u \<Longrightarrow> R s u"
    and R_inv: "Inv s \<Longrightarrow> R s t \<Longrightarrow> Inv t"
    and R_env: "Inv s \<Longrightarrow> A a \<Longrightarrow> R s (perform a s)"
begin

definition stable :: "(fs \<Rightarrow> bool) \<Rightarrow> bool" where
  "stable P \<longleftrightarrow> (\<forall>s t. Inv s \<and> P s \<and> R s t \<longrightarrow> P t)"

lemma stable_any: "stable anyfs"
  by (simp add: stable_def)

lemma stable_const: "stable (\<lambda>_. b)"
  by (simp add: stable_def)

lemma stable_imp: "stable P \<Longrightarrow> stable (\<lambda>s. b \<longrightarrow> P s)"
  by (auto simp: stable_def)

lemma stable_conj: "stable P \<Longrightarrow> stable Q \<Longrightarrow> stable (\<lambda>s. P s \<and> Q s)"
  by (auto simp: stable_def)

lemma fold_env: "Inv s \<Longrightarrow> list_all A acts \<Longrightarrow> R s (fold perform acts s)"
proof (induction acts arbitrary: s)
  case (Cons a acts)
  then have "R s (perform a s)" "Inv (perform a s)"
    using R_env R_inv by auto
  with Cons show ?case
    using R_trans by auto
qed (simp add: R_refl)

lemma rg_conseq:
  "rg Inv R A P m Q \<Longrightarrow> (\<And>s. P' s \<Longrightarrow> P s) \<Longrightarrow> (\<And>a s. Q a s \<Longrightarrow> Q' a s) \<Longrightarrow> rg Inv R A P' m Q'"
  by (fastforce simp: rg_def)

lemma rg_ret: "(\<And>s. P s \<Longrightarrow> Q a s) \<Longrightarrow> rg Inv R A P (io_ret a) Q"
  by (auto simp: rg_def io_ret_def R_refl)

lemma rg_raise: "rg Inv R A P (io_raise e) Q"
  by (auto simp: rg_def io_raise_def R_refl)

lemma rg_lift: "(\<And>a s. r = Inr a \<Longrightarrow> P s \<Longrightarrow> Q a s) \<Longrightarrow> rg Inv R A P (io_lift r) Q"
  by (auto simp: rg_def io_lift_def R_refl)

lemma rg_now: "rg Inv R A P utc_now (\<lambda>_. P)"
  by (auto simp: rg_def utc_now_def R_refl)

lemma rg_uuid: "rg Inv R A P (new_uuid x) (\<lambda>_. P)"
  by (auto simp: rg_def new_uuid_def R_refl sched_ok_def)

lemma rg_bind:
  assumes "rg Inv R A P m Q" "\<And>a. rg Inv R A (Q a) (k a) S"
  shows "rg Inv R A P (io_bind m k) S"
proof (rule rgI)
  fix w r w'
  assume w: "sched_ok A w" "Inv (w_fs w)" "P (w_fs w)" and run: "io_bind m k w = (r, w')"
  obtain r1 w1 where m: "m w = (r1, w1)"
    by fastforce
  note one = rgD [OF assms(1) w m]
  show "sched_ok A w' \<and> R (w_fs w) (w_fs w') \<and> (\<forall>a. r = Inr a \<longrightarrow> S a (w_fs w'))"
  proof (cases r1)
    case (Inl e)
    with run m one show ?thesis
      by (auto simp: io_bind_def)
  next
    case (Inr a)
    with run m have "k a w1 = (r, w')"
      by (simp add: io_bind_def)
    moreover have "Inv (w_fs w1)" "Q a (w_fs w1)"
      using one Inr w(2) R_inv by auto
    ultimately show ?thesis
      using rgD [OF assms(2), of w1 a r w'] one R_trans by blast
  qed
qed

lemma rg_attempt: "rg Inv R A P m Q \<Longrightarrow> rg Inv R A P (attempt m) (\<lambda>r s. \<forall>a. r = Inr a \<longrightarrow> Q a s)"
proof (rule rgI)
  fix w r w'
  assume "rg Inv R A P m Q" "sched_ok A w" "Inv (w_fs w)" "P (w_fs w)" "attempt m w = (r, w')"
  moreover obtain r1 w1 where "m w = (r1, w1)"
    by fastforce
  ultimately show "sched_ok A w' \<and> R (w_fs w) (w_fs w')
      \<and> (\<forall>a. r = Inr a \<longrightarrow> (\<forall>b. a = Inr b \<longrightarrow> Q b (w_fs w')))"
    using rgD [of Inv R A P m Q w r1 w1]
    by (auto simp: attempt_def split: sum.splits err.splits)
qed

lemma rg_map_err: "rg Inv R A P m Q \<Longrightarrow> rg Inv R A P (io_map_err e m) Q"
proof (rule rgI)
  fix w r w'
  assume "rg Inv R A P m Q" "sched_ok A w" "Inv (w_fs w)" "P (w_fs w)" "io_map_err e m w = (r, w')"
  moreover obtain r1 w1 where "m w = (r1, w1)"
    by fastforce
  ultimately show "sched_ok A w' \<and> R (w_fs w) (w_fs w') \<and> (\<forall>a. r = Inr a \<longrightarrow> Q a (w_fs w'))"
    using rgD [of Inv R A P m Q w r1 w1]
    by (auto simp: io_map_err_def split: sum.splits err.splits)
qed

text \<open>One system call: its pre-condition must survive the other processes' actions before it.\<close>

lemma rg_sys:
  assumes "stable P"
    and step: "\<And>bad s r t. Inv s \<Longrightarrow> P s \<Longrightarrow> f bad s = (r, t) \<Longrightarrow> R s t \<and> (\<forall>a. r = Inr a \<longrightarrow> Q a t)"
  shows "rg Inv R A P (sys f) Q"
proof (rule rgI)
  fix w r w'
  assume ok: "sched_ok A w" "Inv (w_fs w)" "P (w_fs w)" and run: "sys f w = (r, w')"
  obtain acts ft rest where sch:
    "(case w_sched w of [] \<Rightarrow> ([], NoFault, []) | (a, ft) # r \<Rightarrow> (a, ft, r)) = (acts, ft, rest)"
    by (metis prod_cases3)
  then have acts: "list_all A acts" "list_all (\<lambda>(acts, _). list_all A acts) rest"
    using ok(1) by (auto simp: sched_ok_def split: list.splits)
  let ?s = "fold perform acts (w_fs w)"
  have env: "R (w_fs w) ?s"
    using ok(2) acts(1) by (rule fold_env)
  then have pre: "Inv ?s" "P ?s"
    using ok R_inv assms(1) unfolding stable_def by blast+
  obtain q t where f: "f [] ?s = (q, t)"
    by fastforce
  have bad: "R (w_fs w) t' \<and> (\<forall>a. q' = Inr a \<longrightarrow> Q a t')" if "f b ?s = (q', t')" for b q' t'
    using step [OF pre that] env R_trans by blast
  show "sched_ok A w' \<and> R (w_fs w) (w_fs w') \<and> (\<forall>a. r = Inr a \<longrightarrow> Q a (w_fs w'))"
    using run env acts(2) bad
    by (cases ft)
      (auto simp: sys_def sch Let_def sched_ok_def map_err_Inr_iff split: prod.splits)
qed

lemma rg_stable:
  assumes "rg Inv R A P m Q" "stable F"
  shows "rg Inv R A (\<lambda>s. P s \<and> F s) m (\<lambda>a s. Q a s \<and> F s)"
proof (rule rgI)
  fix w r w'
  assume w: "sched_ok A w" "Inv (w_fs w)" "P (w_fs w) \<and> F (w_fs w)" "m w = (r, w')"
  note one = rgD [OF assms(1) w(1,2) _ w(4)]
  then have "F (w_fs w')"
    using w assms(2) unfolding stable_def by blast
  with one w(3) show "sched_ok A w' \<and> R (w_fs w) (w_fs w')
      \<and> (\<forall>a. r = Inr a \<longrightarrow> Q a (w_fs w') \<and> F (w_fs w'))"
    by blast
qed

lemma rg_pure: "(b \<Longrightarrow> rg Inv R A P m Q) \<Longrightarrow> rg Inv R A (\<lambda>s. b \<and> P s) m Q"
  by (auto simp: rg_def)

lemma rg_const: "(b \<Longrightarrow> rg Inv R A anyfs m Q) \<Longrightarrow> rg Inv R A (\<lambda>_. b) m Q"
  by (auto simp: rg_def)

lemma rg_attempt_raises:
  assumes "rg Inv R A P m Q" "raises m E"
  shows "rg Inv R A P (attempt m) (\<lambda>r s. case r of Inl e \<Rightarrow> E e | Inr a \<Rightarrow> Q a s)"
proof (rule rgI)
  fix w r w'
  assume w: "sched_ok A w" "Inv (w_fs w)" "P (w_fs w)" "attempt m w = (r, w')"
  have "E e" if "r = Inr (Inl e)" for e
    using raises_attempt_result [OF assms(2)] w(4) that by blast
  then show "sched_ok A w' \<and> R (w_fs w) (w_fs w')
      \<and> (\<forall>a. r = Inr a \<longrightarrow> (case a of Inl e \<Rightarrow> E e | Inr a \<Rightarrow> Q a (w_fs w')))"
    using rgD [OF rg_attempt [OF assms(1)] w] by (auto split: sum.split)
qed

subsection \<open>Computations that need no condition\<close>

text \<open>
  \<open>safe m\<close>: \<open>m\<close> guarantees \<open>R\<close> from every state. \<open>knows m Q\<close>: moreover its result satisfies \<open>Q\<close>,
  which says nothing of the file system and so stays true.
\<close>

definition safe :: "'a io \<Rightarrow> bool" where
  "safe m \<longleftrightarrow> rg Inv R A anyfs m anyres"

definition knows :: "'a io \<Rightarrow> ('a \<Rightarrow> bool) \<Rightarrow> bool" where
  "knows m Q \<longleftrightarrow> rg Inv R A anyfs m (\<lambda>a _. Q a)"

lemma knows_safe: "knows m Q \<Longrightarrow> safe m"
  unfolding knows_def safe_def by (erule rg_conseq) auto

lemma safe_knows: "safe m \<Longrightarrow> knows m (\<lambda>_. True)"
  by (simp add: knows_def safe_def)

lemma knows_mono: "knows m Q \<Longrightarrow> (\<And>a. Q a \<Longrightarrow> Q' a) \<Longrightarrow> knows m Q'"
  unfolding knows_def by (erule rg_conseq) auto

lemma safe_pre: "safe m \<Longrightarrow> rg Inv R A P m anyres"
  unfolding safe_def by (erule rg_conseq) auto

lemma knows_bind: "knows m Q \<Longrightarrow> (\<And>a. Q a \<Longrightarrow> knows (k a) S) \<Longrightarrow> knows (io_bind m k) S"
  unfolding knows_def by (erule rg_bind) (auto intro: rg_const)

lemma knows_bind_safe: "knows m Q \<Longrightarrow> (\<And>a. Q a \<Longrightarrow> safe (k a)) \<Longrightarrow> safe (io_bind m k)"
  using knows_bind [of m Q k "\<lambda>_. True"] by (auto simp: safe_def knows_def)

lemma safe_bind: "safe m \<Longrightarrow> (\<And>a. safe (k a)) \<Longrightarrow> safe (io_bind m k)"
  by (rule knows_bind_safe [OF safe_knows])

lemma safe_ret: "safe (io_ret a)"
  by (simp add: safe_def rg_ret)

lemma safe_raise: "safe (io_raise e)"
  by (simp add: safe_def rg_raise)

lemma safe_lift: "safe (io_lift r)"
  by (simp add: safe_def rg_lift)

lemma safe_now: "safe utc_now"
  unfolding safe_def by (rule rg_conseq [OF rg_now]) auto

lemma safe_uuid: "safe (new_uuid x)"
  unfolding safe_def by (rule rg_conseq [OF rg_uuid]) auto

lemma safe_attempt: "safe m \<Longrightarrow> safe (attempt m)"
  unfolding safe_def by (drule rg_attempt, erule rg_conseq) auto

lemma safe_map_err: "safe m \<Longrightarrow> safe (io_map_err e m)"
  unfolding safe_def by (rule rg_map_err)

lemma safe_vanished: "safe m \<Longrightarrow> safe (vanished_is_absent m)"
  unfolding vanished_is_absent_def
  by (intro safe_bind safe_attempt) (auto intro: safe_ret safe_raise split: sum.split)

lemma rg_then: "rg Inv R A P m anyres \<Longrightarrow> (\<And>a. safe (k a)) \<Longrightarrow> rg Inv R A P (io_bind m k) anyres"
  by (erule rg_bind) (simp add: safe_def)

lemma rg_vanished: "rg Inv R A P m anyres \<Longrightarrow> rg Inv R A P (vanished_is_absent m) anyres"
  unfolding vanished_is_absent_def
  by (drule rg_attempt, rule rg_then)
    (auto intro: safe_ret safe_raise elim: rg_conseq split: sum.split)

lemma safe_if: "(b \<Longrightarrow> safe m) \<Longrightarrow> (\<not> b \<Longrightarrow> safe n) \<Longrightarrow> safe (if b then m else n)"
  by simp

lemma safe_option:
  "(v = None \<Longrightarrow> safe m) \<Longrightarrow> (\<And>a. v = Some a \<Longrightarrow> safe (k a)) \<Longrightarrow>
   safe (case v of None \<Rightarrow> m | Some a \<Rightarrow> k a)"
  by (cases v) simp_all

lemma safe_sum:
  "(\<And>e. v = Inl e \<Longrightarrow> safe (m e)) \<Longrightarrow> (\<And>a. v = Inr a \<Longrightarrow> safe (k a)) \<Longrightarrow>
   safe (case v of Inl e \<Rightarrow> m e | Inr a \<Rightarrow> k a)"
  by (cases v) simp_all

lemma safe_prod: "(\<And>a b. v = (a, b) \<Longrightarrow> safe (k a b)) \<Longrightarrow> safe (case v of (a, b) \<Rightarrow> k a b)"
  by (cases v) simp_all

lemma safe_prod_app:
  "(\<And>a b. v = (a, b) \<Longrightarrow> safe (k a b c)) \<Longrightarrow> safe ((case v of (a, b) \<Rightarrow> k a b) c)"
  by (cases v) simp_all

lemma safe_when: "safe m \<Longrightarrow> safe (io_when b m)"
  by (simp add: io_when_def safe_ret)

lemma safe_for: "(\<And>a. a \<in> set as \<Longrightarrow> safe (f a)) \<Longrightarrow> safe (io_for as f)"
  by (induction as) (simp_all add: safe_ret safe_bind)

lemma safe_fold: "(\<And>a b. a \<in> set as \<Longrightarrow> safe (f a b)) \<Longrightarrow> safe (io_fold f as b)"
  by (induction as arbitrary: b) (simp_all add: safe_ret safe_bind)

lemma safe_map: "(\<And>a. a \<in> set as \<Longrightarrow> safe (f a)) \<Longrightarrow> safe (io_map f as)"
  by (induction as) (simp_all add: safe_ret safe_bind)

lemma knows_fold:
  "I b \<Longrightarrow> (\<And>a b. a \<in> set as \<Longrightarrow> I b \<Longrightarrow> knows (f a b) I) \<Longrightarrow> knows (io_fold f as b) I"
proof (induction as arbitrary: b)
  case Nil
  then show ?case
    by (simp add: knows_def rg_ret)
next
  case (Cons a as)
  then show ?case
    by (auto intro!: knows_bind [where Q = I])
qed

lemma knows_ret: "Q a \<Longrightarrow> knows (io_ret a) Q"
  by (simp add: knows_def rg_ret)

lemma knows_raise: "knows (io_raise e) Q"
  by (simp add: knows_def rg_raise)

lemma knows_lift: "(\<And>a. r = Inr a \<Longrightarrow> Q a) \<Longrightarrow> knows (io_lift r) Q"
  by (simp add: knows_def rg_lift)

lemma knows_map_err: "knows m Q \<Longrightarrow> knows (io_map_err e m) Q"
  unfolding knows_def by (rule rg_map_err)

lemma knows_attempt: "knows m Q \<Longrightarrow> knows (attempt m) (\<lambda>r. \<forall>a. r = Inr a \<longrightarrow> Q a)"
  unfolding knows_def by (rule rg_attempt)

lemma knows_vanished: "knows m Q \<Longrightarrow> knows (vanished_is_absent m) (\<lambda>r. \<forall>a. r = Some a \<longrightarrow> Q a)"
  unfolding vanished_is_absent_def
  by (rule knows_bind [OF knows_attempt]) (auto intro: knows_ret knows_raise split: sum.split)

lemmas safe_intros = safe_bind safe_ret safe_raise safe_lift safe_now safe_uuid safe_attempt
  safe_map_err safe_vanished safe_if safe_option safe_sum safe_prod safe_prod_app safe_when safe_for safe_fold
  safe_map

text \<open>A call that only reads is safe.\<close>

lemma safe_sys_read: "(\<And>bad s. snd (f bad s) = s) \<Longrightarrow> safe (sys f)"
  unfolding safe_def
  by (rule rg_sys [OF stable_any]) (metis R_refl snd_conv)

lemma safe_reads:
  "safe (read_file p)" "safe (file_mtime p)" "safe (try_exists p)" "safe (read_dir d sub)"
  unfolding read_file_def file_mtime_def try_exists_def read_dir_def
  by (rule safe_sys_read; simp split: option.split)+

lemma safe_dir_exists: "safe (dir_exists d sub)"
  unfolding dir_exists_def by (rule safe_sys_read) simp

lemma safe_dir_seems_there: "safe (dir_seems_there d sub)"
  unfolding dir_seems_there_def by (intro safe_bind safe_attempt safe_dir_exists safe_ret)

lemma safe_listings:
  "safe (read_body p)" "safe (read_leaves d sub)" "safe (read_readable d sub)"
  unfolding read_body_def read_leaves_def read_readable_def
  by (intro safe_intros safe_reads)+

lemma safe_sys:
  "(\<And>bad s r t. Inv s \<Longrightarrow> f bad s = (r, t) \<Longrightarrow> R s t) \<Longrightarrow> safe (sys f)"
  unfolding safe_def by (rule rg_sys [OF stable_any]) auto

lemma rg_for:
  assumes "stable P" "\<And>a. a \<in> set as \<Longrightarrow> rg Inv R A P (f a) anyres"
  shows "rg Inv R A P (io_for as f) anyres"
  using assms(2)
proof (induction as)
  case (Cons a as)
  have "rg Inv R A (\<lambda>s. P s \<and> P s) (f a) (\<lambda>_ s. True \<and> P s)"
    by (rule rg_stable [OF _ assms(1)]) (simp add: Cons.prems)
  then show ?case
    using Cons by (auto intro!: rg_bind [where Q = "\<lambda>_. P"])
qed (simp add: rg_ret)

lemma rg_keep: "stable P \<Longrightarrow> safe m \<Longrightarrow> rg Inv R A P m (\<lambda>_. P)"
  using rg_stable [of anyfs m anyres P] by (simp add: safe_def)

lemma rg_bind_keep:
  "stable P \<Longrightarrow> safe m \<Longrightarrow> (\<And>a. rg Inv R A P (k a) S) \<Longrightarrow> rg Inv R A P (io_bind m k) S"
  by (rule rg_bind [OF rg_keep])

lemma rg_seq_keep:
  assumes "stable P" "rg Inv R A P m anyres" "\<And>a. rg Inv R A P (k a) S"
  shows "rg Inv R A P (io_bind m k) S"
  using rg_bind [OF rg_stable [OF assms(2,1), simplified] assms(3)] by simp

lemma rg_attempt_any: "rg Inv R A P m anyres \<Longrightarrow> rg Inv R A P (attempt m) anyres"
  by (drule rg_attempt) (erule rg_conseq, auto)

lemma safe_any_exists: "safe (any_exists ps)"
  by (induction ps) (simp_all add: safe_ret safe_bind safe_if safe_reads)

lemma safe_has_record: "safe (has_record j)"
  unfolding has_record_def by (rule safe_any_exists)

end

section \<open>The steps of the stores\<close>

text \<open>
  Markers: every file but the queue entries and the records. A relation that admits any change
  of them is kept by every operation on a marker and by every read. \<open>bodyok j b\<close> is what is known
  of a body read from an entry of the job \<open>j\<close>.
\<close>

locale marker_guarantee = guarantee +
  fixes bodyok :: "job_id \<Rightarrow> json \<Rightarrow> bool"
  assumes R_put: "Inv s \<Longrightarrow> queue_job p = None \<Longrightarrow> record_job p = None \<Longrightarrow> R s (put p c s)"
    and R_del: "Inv s \<Longrightarrow> queue_job p = None \<Longrightarrow> record_job p = None \<Longrightarrow> R s (del p s)"
    and R_mv: "Inv s \<Longrightarrow> queue_job p = None \<Longrightarrow> record_job p = None \<Longrightarrow>
      queue_job q = None \<Longrightarrow> record_job q = None \<Longrightarrow> R s (mv p q s)"
    and body: "Inv s \<Longrightarrow> queue_job p = Some j \<Longrightarrow> lookup s p = Some f \<Longrightarrow> f_content f = C_json b \<Longrightarrow> bodyok j b"
begin

lemma safe_mv_other:
  "queue_job p = None \<Longrightarrow> record_job p = None \<Longrightarrow> queue_job q = None \<Longrightarrow> record_job q = None \<Longrightarrow>
   safe (rename_file p q)"
  unfolding rename_file_def by (rule safe_sys) (auto simp: R_refl R_mv split: if_splits)

lemma safe_remove_other: "queue_job p = None \<Longrightarrow> record_job p = None \<Longrightarrow> safe (remove_file p)"
  unfolding remove_file_def by (rule safe_sys) (auto simp: R_refl R_del split: if_splits)

lemma safe_remove_idem_other:
  "queue_job p = None \<Longrightarrow> record_job p = None \<Longrightarrow> safe (remove_file_idempotent p)"
  unfolding remove_file_idempotent_def by (intro safe_intros safe_remove_other)

lemma safe_write_other: "queue_job p = None \<Longrightarrow> record_job p = None \<Longrightarrow> safe (write_file p c)"
  unfolding write_file_def by (intro safe_intros safe_sys) (auto simp: R_put)

lemma safe_replace_other:
  "queue_job dest = None \<Longrightarrow> record_job dest = None \<Longrightarrow> safe (replace_atomically x d dest c)"
  unfolding replace_atomically_def Let_def
  by (intro safe_intros safe_write_other safe_mv_other safe_remove_other) simp_all

lemma safe_snapshot:
  assumes "marker_dir (fst p)"
  shows "safe (replace_snapshot x p c)"
proof -
  have "queue_job (fst p, k) = None \<and> record_job (fst p, k) = None" for k
    using assms by (intro marker_other) simp
  moreover from this [of "snd p"] have "queue_job p = None" "record_job p = None"
    by simp_all
  ultimately show ?thesis
    unfolding replace_snapshot_def Let_def
    by (intro safe_intros safe_write_other safe_mv_other safe_remove_other) simp_all
qed

lemma safe_remove_dir_all: "marker_dir d \<Longrightarrow> safe (remove_dir_all d sub)"
  unfolding remove_dir_all_def
  by (intro safe_intros safe_reads safe_remove_idem_other) (auto dest: marker_other [of "(d, _)", simplified])

lemma safe_markers:
  assumes "marker_dir (fst p)"
  shows "safe (remove_file p)" "safe (remove_file_idempotent p)" "safe (write_file p c)"
    "safe (replace_atomically x d p c)"
  using marker_other [OF assms]
  by (simp_all add: safe_remove_other safe_remove_idem_other safe_write_other safe_replace_other)

lemma safe_todo_reads:
  "safe list_avail" "safe (get_avail x j e)" "safe (get_avail_by_job j)" "safe (avail_key_for_job j)"
  "safe list_leased" "safe (get_leased x j e c t)" "safe (list_leased_for_client c)"
  "safe (leased_elsewhere j c)" "safe (get_denied j c)" "safe (is_denied j c)" "safe list_all_denied"
  "safe (list_eligible_for_client x c)" "safe (list_all_eligible x)" "safe list_pending_reindex"
  "safe (has_pending_reindex c)" "safe list_pending_reindex_jobs" "safe (list_lost_leases x j)"
  "safe list_lost_lease_jobs" "safe (list_stale_tmp age)" "safe (read_key_set p)"
  "safe read_backlog" "safe read_campaign_backlog" "safe (read_suspension c)"
  "safe list_suspended_ids" "safe list_suspensions" "safe (read_liveness c)" "safe list_liveness"
  unfolding list_avail_def get_avail_def get_avail_by_job_def avail_key_for_job_def list_leased_def
    get_leased_def list_leased_for_client_def leased_elsewhere_def get_denied_def is_denied_def
    list_all_denied_def list_eligible_for_client_def list_all_eligible_def list_pending_reindex_def
    has_pending_reindex_def list_pending_reindex_jobs_def list_lost_leases_def
    list_lost_lease_jobs_def list_stale_tmp_def read_key_set_def read_backlog_def
    read_campaign_backlog_def read_suspension_def list_suspended_ids_def list_suspensions_def
    read_liveness_def list_liveness_def
  by (intro safe_intros safe_reads safe_listings)+

lemma safe_submission_reads:
  "safe (get_submission j)" "safe (read_queue st j)" "safe (find_in_score_queue j)" "safe (find_job j)"
proof -
  show q: "safe (read_queue st j)" for st j
    unfolding read_queue_def by (rule safe_listings)
  show g: "safe (get_submission j)" for j
    unfolding get_submission_def by (intro safe_intros safe_listings)
  show f: "safe (find_in_score_queue j)" for j
    unfolding find_in_score_queue_def by (intro safe_intros q)
  show "safe (find_job j)"
    unfolding find_job_def by (intro safe_intros g f)
qed

lemma safe_todo_writes:
  "safe (write_denied x j c r)" "safe (delete_denied j c)" "safe (delete_denied_for_job j)"
  "safe (write_eligible x c j e)" "safe (delete_eligible_for_client c)" "safe (delete_eligible x c j e)"
  "safe (write_pending_reindex x c)" "safe (delete_pending_reindex key)"
  "safe (write_pending_reindex_job j)" "safe (delete_pending_reindex_job j)"
  "safe (write_lost_lease x j c t)" "safe (delete_lost_leases_for_job j)"
  "safe (write_tmp j b)" "safe (delete_tmp_object key)"
  "safe (write_eligible_indexed ks)" "safe (write_eligible_workers ks)" "safe (write_gc_candidates ks)"
  "safe (write_backlog x n bs)" "safe (write_campaign_backlog x n ds)"
  "safe (write_suspension c n j)" "safe (delete_suspension c)"
  "safe (stamp_liveness c)" "safe (delete_liveness c)"
  unfolding write_denied_def delete_denied_def delete_denied_for_job_def write_eligible_def
    delete_eligible_for_client_def delete_eligible_def write_pending_reindex_def
    delete_pending_reindex_def write_pending_reindex_job_def delete_pending_reindex_job_def
    write_lost_lease_def delete_lost_leases_for_job_def write_tmp_def delete_tmp_object_def
    write_eligible_indexed_def write_eligible_workers_def write_gc_candidates_def write_key_set_def
    write_backlog_def write_campaign_backlog_def write_suspension_def delete_suspension_def
    stamp_liveness_def delete_liveness_def
  by (intro safe_intros safe_reads safe_markers safe_snapshot safe_remove_dir_all;
      simp add: marker_dir_def denied_path_def eligible_path_def indexed_path_def workers_path_def
        gc_candidates_path_def backlog_path_def campaign_backlog_path_def suspension_path_def
        liveness_path_def)+

lemma safe_submission_writes:
  "safe (write_unverified x c j v)" "safe (delete_unverified c j)" "safe (write_runtime_output x j c out)"
  unfolding write_unverified_def delete_unverified_def write_runtime_output_def
  by (intro safe_intros safe_markers; simp add: marker_dir_def unverified_path_def)+

lemma safe_purge: "safe (purge_client_todo_state c)"
  unfolding purge_client_todo_state_def
  by (intro safe_intros safe_todo_reads safe_todo_writes)

text \<open>What the reads tell: the body of an entry of a job is one of that job.\<close>

lemma knows_read_entry:
  "queue_job p = Some j \<Longrightarrow> knows (read_file p) (\<lambda>c. \<forall>b. c = C_json b \<longrightarrow> bodyok j b)"
  unfolding knows_def read_file_def
  by (rule rg_sys [OF stable_any]) (auto simp: R_refl intro: body split: option.splits)

lemma decode_json_Inr: "decode_json c = Inr b \<longleftrightarrow> c = C_json b"
  by (cases c) auto

lemma knows_read_body:
  assumes "queue_job p = Some j"
  shows "knows (read_body p) (\<lambda>r. \<forall>b. r = Some b \<longrightarrow> bodyok j b)"
  unfolding read_body_def
  apply (rule knows_bind [OF knows_vanished [OF knows_read_entry [OF assms]]])
  apply (auto simp: decode_json_Inr split: option.split
      intro!: knows_ret knows_bind [where Q = "bodyok j", OF knows_lift])
  done

lemma knows_get_avail:
  "valid_job_id j \<Longrightarrow> knows (get_avail x j e) (\<lambda>r. \<forall>b. r = Some b \<longrightarrow> bodyok j b)"
  unfolding get_avail_def by (rule knows_read_body) simp

lemma knows_get_leased:
  "valid_job_id j \<Longrightarrow> valid_client_id c \<Longrightarrow>
   knows (get_leased x j e c t) (\<lambda>r. \<forall>b. r = Some b \<longrightarrow> bodyok j b)"
  unfolding get_leased_def by (rule knows_read_body) simp

lemma own_leaf_name:
  assumes "own_leaf x j c es = Some (leaf, e)" "valid_job_id j" "valid_client_id c"
  shows "queue_job (D_leased, c @ ''/'' @ leaf) = Some j"
proof -
  from assms(1) have "(leaf, e) \<in> set (List.map_filter
      (\<lambda>n. map_option (\<lambda>l. (n, l_expires_at l)) (ok (parse_leased_key x (c @ ''/'' @ n))))
      (filter (starts_with (j @ ''.'')) (map fst es)))"
    by (auto simp: own_leaf_def split: list.splits)
  then obtain l where l: "parse_leased_key x (c @ ''/'' @ leaf) = Inr l" "starts_with (j @ ''.'') leaf"
    by (auto simp: set_map_filter)
  have "is_json_name leaf"
    using l(1) assms(3)
    by (auto simp: parse_leased_key_def res_bind_Inr_iff id_chars is_json_name_def ends_with_iff
        strip_suffix_Some_iff)
  moreover obtain s where "leaf = j @ CHR ''.'' # s"
    using l(2) by (auto simp: starts_with_iff)
  ultimately show ?thesis
    using assms(2,3) by (simp add: id_chars)
qed

text \<open>The ids the listings return are well formed.\<close>

lemma parse_all_Inr: "parse_all f es = Inr as \<Longrightarrow> a \<in> set as \<Longrightarrow> \<exists>n. f n = Inr a"
proof (induction f es arbitrary: as rule: parse_all.induct)
  case (3 f n d es)
  then show ?case
    by (auto simp: res_bind_Inr_iff)
qed auto

lemma parse_flags_Inr: "parse_flags f es = Inr as \<Longrightarrow> (a, m) \<in> set as \<Longrightarrow> f m = Inr a"
proof (induction f es arbitrary: as rule: parse_flags.induct)
  case (3 f n d es)
  then show ?case
    by (cases "f n") (auto simp: res_bind_Inr_iff)
qed auto

lemma knows_eligible:
  "knows (list_eligible_for_client x c) (\<lambda>r. \<forall>j e. (j, e) \<in> set r \<longrightarrow> valid_job_id j)"
  unfolding list_eligible_for_client_def
  by (intro knows_bind [OF safe_knows] safe_vanished safe_reads)
    (auto intro!: knows_ret knows_lift dest!: parse_all_Inr dest: parse_eligible_valid split: option.split)

lemma knows_pending_jobs: "knows list_pending_reindex_jobs (list_all valid_job_id)"
  unfolding list_pending_reindex_jobs_def
  by (intro knows_bind [OF safe_knows] safe_reads knows_bind [where Q = "\<lambda>js. list_all (valid_job_id \<circ> fst) js"])
    (auto intro!: knows_ret knows_lift simp: list_all_iff dest: parse_flags_Inr)

lemma knows_lost_jobs: "knows list_lost_lease_jobs (list_all valid_job_id)"
proof -
  have "knows (io_bind (io_lift (parse_flags job_id_try_new es)) (\<lambda>js. io_ret (map fst js)))
      (list_all valid_job_id)" for es
    by (intro knows_bind [where Q = "\<lambda>js. list_all (valid_job_id \<circ> fst) js"])
      (auto intro!: knows_ret knows_lift simp: list_all_iff dest: parse_flags_Inr)
  then show ?thesis
    unfolding list_lost_lease_jobs_def
    by (intro knows_bind [OF safe_knows] safe_vanished safe_reads) (auto intro: knows_ret split: option.split)
qed

lemma knows_all_denied:
  "knows list_all_denied (\<lambda>r. \<forall>j c. (j, c) \<in> set r \<longrightarrow> valid_job_id j \<and> valid_client_id c)"
  unfolding list_all_denied_def
  by (intro knows_bind [OF safe_knows] safe_listings)
    (auto intro!: knows_ret simp: set_map_filter parse_denied_marker_def res_bind_Inr_iff)

end

text \<open>Entries and records: entries move within their job, records appear, finished entries go.\<close>

locale queue_guarantee = marker_guarantee +
  assumes R_move: "Inv s \<Longrightarrow> queue_job p = Some j \<Longrightarrow> queue_job q = Some j \<Longrightarrow> R s (mv p q s)"
    and R_create: "Inv s \<Longrightarrow> record_job q = Some j \<Longrightarrow> \<not> present s q \<Longrightarrow> R s (put_file q f s)"
    and R_finish: "Inv s \<Longrightarrow> queue_job p = Some j \<Longrightarrow> recorded j s \<Longrightarrow> R s (del p s)"
    and R_drop: "Inv s \<Longrightarrow> queue_job p = Some j \<Longrightarrow> bodyok j b \<Longrightarrow> filed_under b \<noteq> Some j \<Longrightarrow> R s (del p s)"
    and R_scored: "Inv s \<Longrightarrow> R s t \<Longrightarrow> scored j n s \<Longrightarrow> scored j n t"
begin

lemma stable_scored: "stable (scored j n)"
  using R_scored by (auto simp: stable_def)

lemma stable_recorded: "stable (recorded j)"
  using stable_scored [of j 0] by (simp add: recorded_scored stable_def)

lemma safe_move:
  "queue_job p = Some j \<Longrightarrow> queue_job q = Some j \<Longrightarrow> safe (rename_file p q)"
  unfolding rename_file_def by (rule safe_sys) (auto simp: R_refl R_move split: if_splits)

text \<open>Removing the entry of a job that has a record.\<close>

lemma rg_remove_finished:
  assumes "queue_job p = Some j"
  shows "rg Inv R A (recorded j) (remove_file_idempotent p) anyres"
proof -
  have "rg Inv R A (recorded j) (remove_file p) anyres"
    unfolding remove_file_def using assms
    by (intro rg_sys [OF stable_recorded]) (auto simp: R_refl intro: R_finish split: if_splits)
  then show ?thesis
    unfolding remove_file_idempotent_def by (intro rg_then rg_vanished safe_ret)
qed

lemma safe_remove_dropped:
  "queue_job p = Some j \<Longrightarrow> bodyok j b \<Longrightarrow> filed_under b \<noteq> Some j \<Longrightarrow> safe (remove_file_idempotent p)"
  unfolding remove_file_idempotent_def remove_file_def
  by (intro safe_intros safe_sys) (auto simp: R_refl intro: R_drop split: if_splits)

text \<open>What the probes and the exclusive write of a record tell.\<close>

lemma rg_exists_record:
  "record_job p = Some j \<Longrightarrow> rg Inv R A anyfs (try_exists p) (\<lambda>b s. b \<longrightarrow> recorded j s)"
  unfolding try_exists_def
  by (rule rg_sys [OF stable_any]) (auto simp: R_refl intro: recordedI)

lemma rg_any_exists:
  "list_all (\<lambda>p. record_job p = Some j) ps \<Longrightarrow>
   rg Inv R A anyfs (any_exists ps) (\<lambda>b s. b \<longrightarrow> recorded j s)"
proof (induction ps)
  case (Cons p ps)
  then have "rg Inv R A anyfs (try_exists p) (\<lambda>b s. b \<longrightarrow> recorded j s)"
    and rest: "rg Inv R A anyfs (any_exists ps) (\<lambda>b s. b \<longrightarrow> recorded j s)"
    by (simp_all add: rg_exists_record)
  then show ?case
    unfolding any_exists.simps
    by (elim rg_bind) (auto intro: rg_ret rg_conseq [OF rest])
qed (simp add: rg_ret)

lemma rg_has_record: "rg Inv R A anyfs (has_record j) (\<lambda>b s. b \<longrightarrow> recorded j s)"
  unfolding has_record_def
  by (rule rg_any_exists) (simp add: list_all_iff record_job_iff_paths)

lemma rg_hard_link:
  "record_job q = Some j \<Longrightarrow> rg Inv R A anyfs (hard_link p q) (\<lambda>_ s. recorded j s)"
  unfolding hard_link_def
  by (rule rg_sys [OF stable_any])
    (auto simp: R_refl intro: R_create recordedI split: if_splits option.splits)

lemma rg_tmp_guard:
  assumes "rg Inv R A P m Q" "\<And>a. stable (Q a)" "queue_job tmp = None" "record_job tmp = None"
  shows "rg Inv R A P (with_tmp_guard tmp m) Q"
proof -
  have st: "stable (\<lambda>s. \<forall>a. r = Inr a \<longrightarrow> Q a s)" for r :: "(err, 'a) result"
    using assms(2) unfolding stable_def by blast
  have rm: "rg Inv R A anyfs (attempt (remove_file tmp)) anyres"
    using safe_attempt [OF safe_remove_other [OF assms(3,4)]] by (simp add: safe_def)
  have "rg Inv R A (\<lambda>s. \<forall>a. r = Inr a \<longrightarrow> Q a s) (attempt (remove_file tmp))
      (\<lambda>_ s. \<forall>a. r = Inr a \<longrightarrow> Q a s)" for r :: "(err, 'a) result"
    using rg_stable [OF rm st [of r]] by simp
  then show ?thesis
    unfolding with_tmp_guard_def
    by (intro rg_bind [OF rg_attempt [OF assms(1)]] rg_bind) (auto intro: rg_lift)
qed

lemma rg_create_complete:
  assumes "record_job dest = Some j"
  shows "rg Inv R A anyfs (create_complete x d dest c) (\<lambda>_. recorded j)"
proof -
  have "rg Inv R A anyfs (io_bind (write_file tmp c) (\<lambda>_. io_bind (hard_link tmp dest)
      (\<lambda>b. io_ret (if b then Created else AlreadyExists)))) (\<lambda>_. recorded j)"
    if "queue_job tmp = None" "record_job tmp = None" for tmp
    by (rule rg_bind [OF safe_write_other [OF that, unfolded safe_def]],
        rule rg_bind [OF rg_hard_link [OF assms]], rule rg_ret)
  then show ?thesis
    unfolding create_complete_def Let_def
    by (intro rg_bind [OF rg_uuid] rg_tmp_guard) (simp_all add: stable_recorded)
qed

lemma rg_write_incoming_new: "rg Inv R A anyfs (write_incoming_new x j v) (\<lambda>_. recorded j)"
  unfolding write_incoming_new_def by (rule rg_create_complete) simp

lemma rg_record_system_failure:
  "rg Inv R A anyfs (record_system_failure x catalog body reason source now)
     (\<lambda>_ s. \<exists>j. filed_under body = Some j \<and> recorded j s)"
proof -
  let ?Q = "\<lambda>_ s. \<exists>j. filed_under body = Some j \<and> recorded j s"
  have filed: "rg Inv R A (\<lambda>_. system_failure_from_job_body x body t reason source now = Inr r)
      (case r of (j, kvs) \<Rightarrow> write_incoming_new x j (JObj kvs)) ?Q" for t r
    by (cases r, rule rg_const, auto dest: system_failure_job intro: rg_conseq [OF rg_write_incoming_new])
  have "rg Inv R A anyfs (io_bind (io_lift (system_failure_from_job_body x body t reason source now))
      (\<lambda>(j, kvs). write_incoming_new x j (JObj kvs))) ?Q" for t
    by (rule rg_bind [OF _ filed [of t]]) (rule rg_lift)
  then have "rg Inv R A anyfs (io_bind (io_lift (ok_or E_bail (catalog b)))
      (\<lambda>t. io_bind (io_lift (system_failure_from_job_body x body t reason source now))
      (\<lambda>(j, kvs). write_incoming_new x j (JObj kvs)))) ?Q" for b
    by (rule rg_bind [where Q = anyres, rotated]) (auto intro: rg_lift)
  then show ?thesis
    unfolding record_system_failure_def
    by (rule rg_bind [where Q = anyres, rotated]) (auto intro: rg_lift)
qed

lemma safe_moves:
  assumes "valid_job_id j"
  shows "safe (redate_avail x j e e')"
    and "valid_client_id c \<Longrightarrow> safe (recycle_lease x j e c t)"
    and "valid_client_id c \<Longrightarrow> safe (claim_job x j e c t)"
  unfolding redate_avail_def recycle_lease_def claim_job_def using assms
  by (intro safe_intros safe_reads safe_move; simp)+

lemma knows_claim_job:
  assumes "valid_job_id j" "valid_client_id c"
  shows "knows (claim_job x j e c t) (\<lambda>r. \<forall>b. r = Claimed b \<longrightarrow> bodyok j b)"
proof -
  have "knows (io_bind (read_file (leased_path x j e c t)) (\<lambda>body.
      io_bind (io_lift (decode_json body)) (\<lambda>v. io_ret (Claimed v)))) (\<lambda>r. \<forall>b. r = Claimed b \<longrightarrow> bodyok j b)"
    by (rule knows_bind [OF knows_read_entry [of _ j]])
      (auto simp: assms decode_json_Inr intro!: knows_ret knows_bind [where Q = "bodyok j", OF knows_lift])
  then show ?thesis
    unfolding claim_job_def using assms
    by (intro knows_bind [OF safe_knows] safe_vanished safe_move)
      (auto intro: knows_ret split: option.split)
qed

text \<open>A renewal moves the entry it found under the client's partition.\<close>

lemma safe_renew:
  assumes "valid_job_id j" "valid_client_id c"
  shows "safe (renew_lease x j c t)"
  unfolding renew_lease_def using assms
  by (intro safe_intros safe_todo_reads safe_listings)
    (auto dest: own_leaf_name intro!: safe_move [of _ j])

text \<open>The removals a handler makes once the job has a record, or when its body cannot have one.\<close>

lemma rg_delete_finished:
  assumes "valid_job_id j"
  shows "rg Inv R A (recorded j) (delete_avail x j e) anyres"
    and "valid_client_id c \<Longrightarrow> rg Inv R A (recorded j) (delete_lease x j e c t) anyres"
  unfolding delete_avail_def delete_lease_def using assms by (simp_all add: rg_remove_finished)

lemma safe_delete_dropped:
  assumes "valid_job_id j" "bodyok j b" "filed_under b \<noteq> Some j"
  shows "safe (delete_avail x j e)"
    and "valid_client_id c \<Longrightarrow> safe (delete_lease x j e c t)"
  unfolding delete_avail_def delete_lease_def
  using assms by (simp_all add: safe_remove_dropped [of _ j b])

lemma rg_delete_avail_by_job:
  assumes "valid_job_id j"
  shows "rg Inv R A (recorded j) (delete_avail_by_job j) anyres"
proof -
  have rm: "rg Inv R A (recorded j) (remove_file (D_avail, j @ ''/'' @ n)) anyres"
    if "is_json_name n" for n
    unfolding remove_file_def using that assms
    by (intro rg_sys [OF stable_recorded])
      (auto simp: R_refl id_chars intro!: R_finish [where j = j] split: if_splits)
  show ?thesis
    unfolding delete_avail_by_job_def
    by (intro rg_bind_keep [OF stable_recorded] safe_vanished safe_reads)
      (auto intro!: rg_ret rg_for stable_recorded rg_raise rm [simplified] split: option.split sum.split)
qed

end

end
