(* ===== verification/Conservation.thy ===== *)
theory Conservation
  imports Interference
begin

text \<open>
  The relations the queue's handlers guarantee, each an interpretation of
  \<open>queue_guarantee\<close>:
  \<^item> \<open>sole\<close>: a job has at most one entry over \<open>avail/\<close> and \<open>leased/\<close> together, so no two clients
    hold it and it is never both offered and held;
  \<^item> \<open>kept\<close>: a job that is queued or recorded stays queued or recorded, as long as nobody tears
    its plan down and its body names it;
  \<^item> \<open>intact\<close>: a record that is there is neither removed nor replaced;
  \<^item> \<open>filed\<close>: a recorded job stays recorded.
\<close>

section \<open>The entries of a job\<close>

definition job_entries :: "job_id \<Rightarrow> fs \<Rightarrow> path list" where
  "job_entries j s = filter (\<lambda>p. queue_job p = Some j) (remdups (paths s))"

definition sole_entry :: "job_id \<Rightarrow> fs \<Rightarrow> bool" where
  "sole_entry j s \<longleftrightarrow> length (job_entries j s) \<le> 1"

definition entries_hold :: "job_id \<Rightarrow> json \<Rightarrow> fs \<Rightarrow> bool" where
  "entries_hold j b s \<longleftrightarrow>
     list_all (\<lambda>p. map_option f_content (lookup s p) = Some (C_json b)) (job_entries j s)"

lemma set_job_entries: "set (job_entries j s) = {p. present s p \<and> queue_job p = Some j}"
  by (auto simp: job_entries_def present_iff)

lemma sole_entry_iff:
  "sole_entry j s \<longleftrightarrow>
     (\<forall>p q. present s p \<and> present s q \<and> queue_job p = Some j \<and> queue_job q = Some j \<longrightarrow> p = q)"
proof -
  have "distinct (job_entries j s)"
    by (simp add: job_entries_def)
  then have "sole_entry j s \<longleftrightarrow> card (set (job_entries j s)) \<le> Suc 0"
    by (simp add: sole_entry_def distinct_card)
  also have "\<dots> \<longleftrightarrow> (\<forall>p \<in> set (job_entries j s). \<forall>q \<in> set (job_entries j s). p = q)"
    by (rule card_le_Suc0_iff_eq) simp
  finally show ?thesis
    unfolding set_job_entries by blast
qed

lemma entries_hold_iff:
  "entries_hold j b s \<longleftrightarrow>
     (\<forall>p f. lookup s p = Some f \<and> queue_job p = Some j \<longrightarrow> f_content f = C_json b)"
proof
  assume h: "entries_hold j b s"
  show "\<forall>p f. lookup s p = Some f \<and> queue_job p = Some j \<longrightarrow> f_content f = C_json b"
  proof (intro allI impI)
    fix p f
    assume p: "lookup s p = Some f \<and> queue_job p = Some j"
    then have "p \<in> set (job_entries j s)"
      by (simp add: set_job_entries present_def)
    with h p show "f_content f = C_json b"
      by (auto simp: entries_hold_def list_all_iff)
  qed
qed (auto simp: entries_hold_def list_all_iff set_job_entries present_def)

section \<open>At most one entry\<close>

text \<open>No record is taken back: a job with a record at a stage of scoring has one at least that far.\<close>

definition records_advance :: "fs \<Rightarrow> fs \<Rightarrow> bool" where
  "records_advance s t \<longleftrightarrow> (\<forall>j n. scored j n s \<longrightarrow> scored j n t)"

definition sole_rel :: "job_id \<Rightarrow> fs \<Rightarrow> fs \<Rightarrow> bool" where
  "sole_rel j s t \<longleftrightarrow>
     (sole_entry j s \<longrightarrow> sole_entry j t) \<and> records_advance s t"

lemma sole_entryI:
  "(\<And>p q. present s p \<Longrightarrow> present s q \<Longrightarrow> queue_job p = Some j \<Longrightarrow> queue_job q = Some j \<Longrightarrow> p = q) \<Longrightarrow>
   sole_entry j s"
  unfolding sole_entry_iff by blast

lemma sole_entryD:
  "sole_entry j s \<Longrightarrow> present s p \<Longrightarrow> present s q \<Longrightarrow> queue_job p = Some j \<Longrightarrow> queue_job q = Some j \<Longrightarrow> p = q"
  unfolding sole_entry_iff by blast

lemma sole_mv:
  assumes "sole_entry j s" "queue_job p = queue_job q"
  shows "sole_entry j (mv p q s)"
proof (rule sole_entryI)
  fix a b
  assume "present (mv p q s) a" "present (mv p q s) b" "queue_job a = Some j" "queue_job b = Some j"
  then show "a = b"
    using assms sole_entryD [OF assms(1)] unfolding present_mv by (metis (full_types))
qed

lemma sole_del [intro]: "sole_entry j s \<Longrightarrow> sole_entry j (del p s)"
  by (rule sole_entryI) (auto dest: sole_entryD)

lemma sole_put [intro]:
  "sole_entry j s \<Longrightarrow> queue_job p \<noteq> Some j \<Longrightarrow> sole_entry j (put p c s)"
  "sole_entry j s \<Longrightarrow> queue_job p \<noteq> Some j \<Longrightarrow> sole_entry j (put_file p f s)"
  by (rule sole_entryI; auto dest: sole_entryD)+

lemma sole_tick [simp]: "sole_entry j (tick n s) = sole_entry j s"
  by (simp add: sole_entry_iff)

lemma sole_publish: "\<not> queued j s \<Longrightarrow> sole_entry j (put p c s)"
  by (rule sole_entryI) (auto simp: queued_iff)

lemma scored_mono:
  "scored j n s \<Longrightarrow> (\<And>p. present s p \<Longrightarrow> record_job p = Some j \<Longrightarrow> present t p) \<Longrightarrow> scored j n t"
  unfolding scored_iff by blast

lemma advance_refl [simp]: "records_advance s s"
  by (simp add: records_advance_def)

lemma advance_trans: "records_advance s t \<Longrightarrow> records_advance t u \<Longrightarrow> records_advance s u"
  by (simp add: records_advance_def)

lemma advanceD: "records_advance s t \<Longrightarrow> scored j n s \<Longrightarrow> scored j n t"
  by (simp add: records_advance_def)

lemma advance_recorded: "records_advance s t \<Longrightarrow> recorded j s \<Longrightarrow> recorded j t"
  by (simp add: recorded_scored advanceD)

lemma advance_other:
  "record_job p = None \<Longrightarrow> records_advance s (mv p q s)"
  "record_job p = None \<Longrightarrow> records_advance s (del p s)"
  "records_advance s (put p c s)" "records_advance s (put_file p f s)" "records_advance s (tick n s)"
  unfolding records_advance_def by (auto elim!: scored_mono simp: present_mv)

lemma advance_overtaken: "overtaken p s \<Longrightarrow> record_job p \<noteq> None \<Longrightarrow> records_advance s (del p s)"
  unfolding records_advance_def
proof (intro allI impI)
  fix j n
  assume "overtaken p s" "record_job p \<noteq> None" "scored j n s"
  then obtain q r where q: "present s q" "record_job q = Some j" "n \<le> record_rank q"
    and r: "present s r" "record_job r = record_job p" "record_rank p < record_rank r"
    by (auto simp: scored_iff overtaken_def list_ex_iff present_iff)
  show "scored j n (del p s)"
  proof (cases "q = p")
    case True
    with q r have "present (del p s) r" "record_job r = Some j" "n \<le> record_rank r"
      by auto
    then show ?thesis
      by (rule scoredI)
  next
    case False
    with q show ?thesis
      by (intro scoredI [of _ q]) simp_all
  qed
qed

lemma advance_perform: "records_advance s (perform a s)"
  by (cases a) (auto simp: advance_other advance_overtaken dest: queue_not_record split: option.split)

lemma recorded_mv: "recorded j s \<Longrightarrow> record_job p = None \<Longrightarrow> recorded j (mv p q s)"
  using advance_other(1) advance_recorded by blast

lemma recorded_del: "recorded j s \<Longrightarrow> record_job p = None \<Longrightarrow> recorded j (del p s)"
  using advance_other(2) advance_recorded by blast

lemma recorded_put: "recorded j s \<Longrightarrow> recorded j (put p c s)" "recorded j s \<Longrightarrow> recorded j (put_file p f s)"
  using advance_other(3,4) advance_recorded by blast+

lemma recorded_tick [simp]: "recorded j (tick n s) = recorded j s"
  by (simp add: recorded_iff)

lemma recorded_perform: "recorded j s \<Longrightarrow> recorded j (perform a s)"
  using advance_perform advance_recorded by blast

text \<open>No teardown of a plan puts the job back: the one step that publishes it without looking.\<close>

fun unrestored :: "job_id \<Rightarrow> act \<Rightarrow> bool" where
  "unrestored j (A_restore p c) \<longleftrightarrow> queue_job p \<noteq> Some j"
| "unrestored j _ \<longleftrightarrow> True"

lemma sole_perform: "sole_entry j s \<Longrightarrow> unrestored j a \<Longrightarrow> sole_entry j (perform a s)"
proof (cases a)
  case (A_publish p c)
  assume "sole_entry j s"
  moreover have "sole_entry j (put p c s)" if "queue_job p = Some i" "\<not> queued i s" "sole_entry j s" for i
    using that by (cases "i = j") (auto intro: sole_publish)
  ultimately show ?thesis
    using A_publish by (auto split: option.split)
qed (auto intro!: sole_mv sole_put dest: queue_not_record split: option.splits)

interpretation sole: queue_guarantee "sole_entry j" "sole_rel j" "unrestored j" "\<lambda>_ _. True" for j
proof unfold_locales
  fix s t p q i c f a
  show "sole_entry j s \<Longrightarrow> queue_job p = Some i \<Longrightarrow> queue_job q = Some i \<Longrightarrow> sole_rel j s (mv p q s)"
    by (auto simp: sole_rel_def advance_other sole_mv queue_not_record)
  show "sole_entry j s \<Longrightarrow> queue_job p = None \<Longrightarrow> record_job p = None \<Longrightarrow> sole_rel j s (put p c s)"
    by (auto simp: sole_rel_def advance_other)
  show "sole_entry j s \<Longrightarrow> queue_job p = None \<Longrightarrow> record_job p = None \<Longrightarrow> sole_rel j s (del p s)"
    by (auto simp: sole_rel_def advance_other)
  show "sole_entry j s \<Longrightarrow> queue_job p = None \<Longrightarrow> record_job p = None \<Longrightarrow> queue_job q = None \<Longrightarrow>
      record_job q = None \<Longrightarrow> sole_rel j s (mv p q s)"
    by (auto simp: sole_rel_def advance_other sole_mv)
  show "sole_entry j s \<Longrightarrow> record_job q = Some i \<Longrightarrow> \<not> present s q \<Longrightarrow> sole_rel j s (put_file q f s)"
    by (auto simp: sole_rel_def advance_other dest!: queue_not_record intro!: sole_put)
  show "sole_entry j s \<Longrightarrow> queue_job p = Some i \<Longrightarrow> recorded i s \<Longrightarrow> sole_rel j s (del p s)"
    by (auto simp: sole_rel_def advance_other queue_not_record)
  show "sole_entry j s \<Longrightarrow> queue_job p = Some i \<Longrightarrow> True \<Longrightarrow> filed_under b \<noteq> Some i \<Longrightarrow> sole_rel j s (del p s)" for b
    by (auto simp: sole_rel_def advance_other queue_not_record)
  show "sole_entry j s \<Longrightarrow> unrestored j a \<Longrightarrow> sole_rel j s (perform a s)"
    by (simp add: sole_rel_def advance_perform sole_perform)
qed (auto simp: sole_rel_def elim: advance_trans advanceD)

section \<open>Queued or recorded\<close>

text \<open>
  A job in the system with body \<open>b\<close>: at most one entry, holding \<open>b\<close>, and \<open>b\<close> names the job. The
  last condition is needed: a failure is filed under the id in the body while the entry is
  removed under the id in its key.
\<close>

definition kept_inv :: "job_id \<Rightarrow> json \<Rightarrow> fs \<Rightarrow> bool" where
  "kept_inv j b s \<longleftrightarrow> filed_under b = Some j \<and> sole_entry j s \<and> entries_hold j b s"

definition in_system :: "job_id \<Rightarrow> fs \<Rightarrow> bool" where
  "in_system j s \<longleftrightarrow> queued j s \<or> recorded j s"

definition kept_rel :: "job_id \<Rightarrow> json \<Rightarrow> fs \<Rightarrow> fs \<Rightarrow> bool" where
  "kept_rel j b s t \<longleftrightarrow>
     (kept_inv j b s \<longrightarrow> kept_inv j b t) \<and> (in_system j s \<longrightarrow> in_system j t)
     \<and> records_advance s t"

text \<open>The other processes do not tear the job's plan down, and publish it only with its body.\<close>

fun kept_act :: "job_id \<Rightarrow> json \<Rightarrow> act \<Rightarrow> bool" where
  "kept_act j b (A_retire p) \<longleftrightarrow> queue_job p \<noteq> Some j"
| "kept_act j b (A_publish p c) \<longleftrightarrow> (queue_job p = Some j \<longrightarrow> c = C_json b)"
| "kept_act j b (A_restore p c) \<longleftrightarrow> queue_job p \<noteq> Some j"
| "kept_act j b _ \<longleftrightarrow> True"

lemma kept_unrestored: "kept_act j b a \<Longrightarrow> unrestored j a"
  by (cases a) simp_all

lemma entries_holdI:
  "(\<And>p f. lookup s p = Some f \<Longrightarrow> queue_job p = Some j \<Longrightarrow> f_content f = C_json b) \<Longrightarrow> entries_hold j b s"
  unfolding entries_hold_iff by blast

lemma entries_holdD:
  "entries_hold j b s \<Longrightarrow> lookup s p = Some f \<Longrightarrow> queue_job p = Some j \<Longrightarrow> f_content f = C_json b"
  unfolding entries_hold_iff by blast

lemma hold_mv:
  "entries_hold j b s \<Longrightarrow> queue_job p = queue_job q \<Longrightarrow> entries_hold j b (mv p q s)"
  by (rule entries_holdI) (auto simp: lookup_mv dest: entries_holdD split: option.splits if_splits)

lemma hold_del: "entries_hold j b s \<Longrightarrow> entries_hold j b (del p s)"
  by (rule entries_holdI) (auto dest: entries_holdD split: if_splits)

lemma hold_put:
  "entries_hold j b s \<Longrightarrow> (queue_job p = Some j \<Longrightarrow> c = C_json b) \<Longrightarrow> entries_hold j b (put p c s)"
  "entries_hold j b s \<Longrightarrow> queue_job p \<noteq> Some j \<Longrightarrow> entries_hold j b (put_file p f s)"
  by (rule entries_holdI; auto dest: entries_holdD split: if_splits)+

lemma hold_tick [simp]: "entries_hold j b (tick n s) = entries_hold j b s"
  by (simp add: entries_hold_iff)

lemma hold_perform: "entries_hold j b s \<Longrightarrow> kept_act j b a \<Longrightarrow> entries_hold j b (perform a s)"
  by (cases a)
    (auto intro!: hold_mv hold_del hold_put dest: queue_not_record split: option.splits)

lemma queuedI: "present s p \<Longrightarrow> queue_job p = Some j \<Longrightarrow> queued j s"
  unfolding queued_iff by blast

lemma queued_mono:
  "queued j s \<Longrightarrow> (\<And>p. present s p \<Longrightarrow> queue_job p = Some j \<Longrightarrow> present t p) \<Longrightarrow> queued j t"
  unfolding queued_iff by blast

lemma queued_mv:
  assumes "queued j s" "queue_job p = queue_job q"
  shows "queued j (mv p q s)"
proof -
  from assms(1) obtain r where r: "present s r" "queue_job r = Some j"
    by (auto simp: queued_def list_ex_iff present_iff)
  then show ?thesis
    using assms(2) by (cases "r = p") (auto simp: present_mv intro: queuedI [of _ q] queuedI [of _ r])
qed

lemma queued_del: "queued j s \<Longrightarrow> queue_job p \<noteq> Some j \<Longrightarrow> queued j (del p s)"
  by (erule queued_mono) auto

lemma queued_put: "queued j s \<Longrightarrow> queued j (put p c s)" "queued j s \<Longrightarrow> queued j (put_file p f s)"
  by (erule queued_mono; simp)+

lemma queued_tick [simp]: "queued j (tick n s) = queued j s"
  by (simp add: queued_iff)

lemma in_system_mv:
  "in_system j s \<Longrightarrow> queue_job p = queue_job q \<Longrightarrow> record_job p = None \<Longrightarrow> in_system j (mv p q s)"
  unfolding in_system_def using queued_mv recorded_mv by blast

lemma in_system_del:
  "in_system j s \<Longrightarrow> queue_job p = Some j \<longrightarrow> recorded j s \<Longrightarrow> record_job p = None \<Longrightarrow> in_system j (del p s)"
  unfolding in_system_def using queued_del recorded_del by (metis option.distinct(1))

lemma in_system_put: "in_system j s \<Longrightarrow> in_system j (put p c s)" "in_system j s \<Longrightarrow> in_system j (put_file p f s)"
  unfolding in_system_def using queued_put recorded_put by blast+

lemma in_system_perform:
  assumes "in_system j s" "kept_act j b a"
  shows "in_system j (perform a s)"
proof (cases "recorded j s")
  case True
  then show ?thesis
    by (simp add: in_system_def recorded_perform)
next
  case False
  with assms(1) have "queued j s"
    by (simp add: in_system_def)
  then have "queued j (perform a s)"
    using False assms(2)
    by (cases a) (auto simp: queued_put dest: queue_not_record intro!: queued_mv queued_del split: option.splits)
  then show ?thesis
    by (simp add: in_system_def)
qed

interpretation kept: queue_guarantee "kept_inv j b" "kept_rel j b" "kept_act j b"
  "\<lambda>i v. i = j \<longrightarrow> v = b" for j b
proof unfold_locales
  fix s t p q i c f a v
  show "kept_inv j b s \<Longrightarrow> queue_job p = Some i \<Longrightarrow> queue_job q = Some i \<Longrightarrow> kept_rel j b s (mv p q s)"
    by (auto simp: kept_rel_def advance_other kept_inv_def queue_not_record intro: sole_mv hold_mv in_system_mv)
  show "kept_inv j b s \<Longrightarrow> queue_job p = None \<Longrightarrow> record_job p = None \<Longrightarrow> kept_rel j b s (put p c s)"
    by (auto simp: kept_rel_def advance_other kept_inv_def in_system_put intro!: hold_put)
  show "kept_inv j b s \<Longrightarrow> queue_job p = None \<Longrightarrow> record_job p = None \<Longrightarrow> kept_rel j b s (del p s)"
    by (auto simp: kept_rel_def advance_other kept_inv_def intro: hold_del in_system_del)
  show "kept_inv j b s \<Longrightarrow> queue_job p = None \<Longrightarrow> record_job p = None \<Longrightarrow> queue_job q = None \<Longrightarrow>
      record_job q = None \<Longrightarrow> kept_rel j b s (mv p q s)"
    by (auto simp: kept_rel_def advance_other kept_inv_def intro: sole_mv hold_mv in_system_mv)
  show "kept_inv j b s \<Longrightarrow> record_job q = Some i \<Longrightarrow> \<not> present s q \<Longrightarrow> kept_rel j b s (put_file q f s)"
    by (auto simp: kept_rel_def advance_other kept_inv_def in_system_put dest!: queue_not_record
        intro!: sole_put hold_put)
  show "kept_inv j b s \<Longrightarrow> queue_job p = Some i \<Longrightarrow> recorded i s \<Longrightarrow> kept_rel j b s (del p s)"
    by (auto simp: kept_rel_def advance_other kept_inv_def queue_not_record intro!: hold_del in_system_del)
  show "kept_inv j b s \<Longrightarrow> queue_job p = Some i \<Longrightarrow> i = j \<longrightarrow> v = b \<Longrightarrow> filed_under v \<noteq> Some i \<Longrightarrow>
      kept_rel j b s (del p s)"
    by (auto simp: kept_rel_def advance_other kept_inv_def queue_not_record intro!: hold_del in_system_del)
  show "kept_inv j b s \<Longrightarrow> queue_job p = Some i \<Longrightarrow> lookup s p = Some f \<Longrightarrow> f_content f = C_json v \<Longrightarrow>
      i = j \<longrightarrow> v = b"
    by (auto simp: kept_inv_def dest: entries_holdD)
  show "kept_inv j b s \<Longrightarrow> kept_act j b a \<Longrightarrow> kept_rel j b s (perform a s)"
    by (auto simp: kept_rel_def advance_other kept_inv_def advance_perform sole_perform kept_unrestored intro: in_system_perform hold_perform)
qed (auto simp: kept_rel_def elim: advance_trans advanceD)

section \<open>Records\<close>

definition intact_rel :: "path \<Rightarrow> fs \<Rightarrow> fs \<Rightarrow> bool" where
  "intact_rel r s t \<longleftrightarrow>
     (present s r \<and> record_job r \<noteq> None \<longrightarrow> lookup t r = lookup s r) \<and> records_advance s t"

fun intact_act :: "path \<Rightarrow> act \<Rightarrow> bool" where
  "intact_act r (A_record p c) \<longleftrightarrow> p \<noteq> r"
| "intact_act r (A_unrecord p) \<longleftrightarrow> p \<noteq> r"
| "intact_act r _ \<longleftrightarrow> True"

lemma lookup_mv_other: "p \<noteq> r \<Longrightarrow> q \<noteq> r \<Longrightarrow> lookup (mv p q s) r = lookup s r"
  by (auto simp: lookup_mv split: option.split)

lemma lookup_perform:
  assumes "record_job r \<noteq> None" "intact_act r a"
  shows "lookup (perform a s) r = lookup s r"
proof -
  have "queue_job r = None"
    using assms(1) queue_not_record by (cases "queue_job r") auto
  then show ?thesis
    using assms by (cases a) (auto intro!: lookup_mv_other split: option.splits)
qed

lemma intact_perform: "intact_act r a \<Longrightarrow> intact_rel r s (perform a s)"
  by (auto simp: intact_rel_def advance_other advance_perform lookup_perform)

interpretation intact: queue_guarantee "\<lambda>_. True" "intact_rel r" "intact_act r" "\<lambda>_ _. True" for r
proof unfold_locales
  fix s t u p q i c f a
  show "True \<Longrightarrow> queue_job p = Some i \<Longrightarrow> queue_job q = Some i \<Longrightarrow> intact_rel r s (mv p q s)"
    by (auto simp: intact_rel_def advance_other lookup_mv queue_not_record dest: queue_not_record split: option.split)
  show "True \<Longrightarrow> queue_job p = None \<Longrightarrow> record_job p = None \<Longrightarrow> intact_rel r s (put p c s)"
    by (auto simp: intact_rel_def advance_other)
  show "True \<Longrightarrow> queue_job p = None \<Longrightarrow> record_job p = None \<Longrightarrow> intact_rel r s (del p s)"
    by (auto simp: intact_rel_def advance_other)
  show "True \<Longrightarrow> queue_job p = None \<Longrightarrow> record_job p = None \<Longrightarrow> queue_job q = None \<Longrightarrow>
      record_job q = None \<Longrightarrow> intact_rel r s (mv p q s)"
    by (auto simp: intact_rel_def advance_other lookup_mv split: option.split)
  show "True \<Longrightarrow> record_job q = Some i \<Longrightarrow> \<not> present s q \<Longrightarrow> intact_rel r s (put_file q f s)"
    by (auto simp: intact_rel_def advance_other)
  show "True \<Longrightarrow> queue_job p = Some i \<Longrightarrow> recorded i s \<Longrightarrow> intact_rel r s (del p s)"
    by (auto simp: intact_rel_def advance_other queue_not_record dest: queue_not_record)
  show "True \<Longrightarrow> queue_job p = Some i \<Longrightarrow> True \<Longrightarrow> filed_under b \<noteq> Some i \<Longrightarrow> intact_rel r s (del p s)" for b
    by (auto simp: intact_rel_def advance_other queue_not_record dest: queue_not_record)
  show "True \<Longrightarrow> intact_act r a \<Longrightarrow> intact_rel r s (perform a s)"
    by (rule intact_perform)
qed (auto simp: intact_rel_def present_def records_advance_def)

text \<open>The weakest of the four, for any state and any company: a recorded job stays recorded.\<close>

definition filed_rel :: "fs \<Rightarrow> fs \<Rightarrow> bool" where
  "filed_rel s t \<longleftrightarrow> records_advance s t"

interpretation filed: queue_guarantee "\<lambda>_. True" filed_rel "\<lambda>_. True" "\<lambda>_ _. True"
proof unfold_locales
  fix s p q i c f a
  show "queue_job p = Some i \<Longrightarrow> queue_job q = Some i \<Longrightarrow> filed_rel s (mv p q s)"
    by (auto simp: filed_rel_def advance_other queue_not_record)
  show "record_job p = None \<Longrightarrow> filed_rel s (put p c s)" "\<not> present s q \<Longrightarrow> filed_rel s (put_file q f s)"
    by (auto simp: filed_rel_def advance_other)
  show "record_job p = None \<Longrightarrow> filed_rel s (del p s)"
    by (auto simp: filed_rel_def advance_other)
  show "record_job p = None \<Longrightarrow> filed_rel s (mv p q s)"
    by (auto simp: filed_rel_def advance_other)
  show "queue_job p = Some i \<Longrightarrow> recorded i s \<Longrightarrow> filed_rel s (del p s)"
    "queue_job p = Some i \<Longrightarrow> filed_under b \<noteq> Some i \<Longrightarrow> filed_rel s (del p s)" for b
    by (auto simp: filed_rel_def advance_other queue_not_record)
  show "filed_rel s (perform a s)"
    by (simp add: filed_rel_def advance_perform)
qed (auto simp: filed_rel_def elim: advance_trans advanceD)

end
