(* ===== verification/Denial.thy ===== *)
theory Denial
  imports Fs "HOL-Library.Sublist"
begin

text \<open>
  The text caps of \<open>pipette-plan-types/src/submission/mod.rs\<close> (\<open>keep_tail\<close>) and the denial record
  of \<open>pipette-core/src/denial.rs\<close>. A Rust string is its UTF-8 bytes, so the cut works on bytes
  and rounds up to a character boundary.
\<close>

definition ELLIPSIS :: string where
  "ELLIPSIS = map char_of [226 :: nat, 128, 166]"

text \<open>A byte that continues a character: \<open>0x80\<close> to \<open>0xBF\<close>.\<close>

definition is_continuation :: "char \<Rightarrow> bool" where
  "is_continuation c \<longleftrightarrow> 128 \<le> (of_char c :: nat) \<and> (of_char c :: nat) < 192"

definition is_char_boundary :: "string \<Rightarrow> nat \<Rightarrow> bool" where
  "is_char_boundary s i \<longleftrightarrow> i = 0 \<or> i = length s \<or> (i < length s \<and> \<not> is_continuation (s ! i))"

text \<open>\<open>str::ceil_char_boundary\<close>: the first boundary at or after an index.\<close>

definition ceil_char_boundary :: "string \<Rightarrow> nat \<Rightarrow> nat" where
  "ceil_char_boundary s i =
     (if i = 0 then 0 else i + length (takeWhile is_continuation (drop i s)))"

definition keep_tail :: "string \<Rightarrow> nat \<Rightarrow> string" where
  "keep_tail s max_bytes =
     (if length s \<le> max_bytes then s
      else let budget = max_bytes - length ELLIPSIS;
               start = ceil_char_boundary s (length s - budget)
           in ELLIPSIS @ drop start s)"

definition MAX_STORED_REASON_BYTES :: nat where "MAX_STORED_REASON_BYTES = 4096"
definition MAX_STORED_VERSION_BYTES :: nat where "MAX_STORED_VERSION_BYTES = 256"

definition denial_record_new ::
  "time \<Rightarrow> string \<Rightarrow> string option \<Rightarrow> string option \<Rightarrow> denial_record" where
  "denial_record_new at reason client_version runtime_version = \<lparr>
     denied_at = Some at,
     failure_reason = Some (keep_tail reason MAX_STORED_REASON_BYTES),
     dr_client_version = map_option (\<lambda>v. keep_tail v MAX_STORED_VERSION_BYTES) client_version,
     dr_runtime_version = map_option (\<lambda>v. keep_tail v MAX_STORED_VERSION_BYTES) runtime_version\<rparr>"

section \<open>What a cut keeps\<close>

lemma length_ELLIPSIS [simp]: "length ELLIPSIS = 3"
  by (simp add: ELLIPSIS_def)

lemma ceil_ge: "i \<le> ceil_char_boundary s i"
  by (simp add: ceil_char_boundary_def)

lemma ceil_le: "i \<le> length s \<Longrightarrow> ceil_char_boundary s i \<le> length s"
  using length_takeWhile_le [of is_continuation "drop i s"]
  by (auto simp: ceil_char_boundary_def)

lemma ceil_boundary:
  assumes "i \<le> length s"
  shows "is_char_boundary s (ceil_char_boundary s i)"
proof (cases "i = 0")
  case False
  let ?n = "length (takeWhile is_continuation (drop i s))"
  show ?thesis
  proof (cases "?n < length (drop i s)")
    case True
    then have "\<not> is_continuation (drop i s ! ?n)"
      by (rule nth_length_takeWhile)
    with True False show ?thesis
      by (auto simp: is_char_boundary_def ceil_char_boundary_def)
  next
    case f: False
    then have "?n = length (drop i s)"
      using length_takeWhile_le [of is_continuation "drop i s"] by linarith
    with False assms show ?thesis
      by (simp add: is_char_boundary_def ceil_char_boundary_def)
  qed
qed (simp add: is_char_boundary_def ceil_char_boundary_def)

lemma ceil_least:
  assumes "i \<le> k" "k < ceil_char_boundary s i" "i \<le> length s" "i \<noteq> 0"
  shows "\<not> is_char_boundary s k"
proof -
  let ?t = "takeWhile is_continuation (drop i s)"
  have k: "k - i < length ?t"
    using assms by (simp add: ceil_char_boundary_def)
  then have "is_continuation (?t ! (k - i))"
    using set_takeWhileD nth_mem by metis
  moreover have "?t ! (k - i) = s ! k" "k < length s"
    using k assms length_takeWhile_le [of is_continuation "drop i s"]
    by (auto simp: takeWhile_nth)
  ultimately show ?thesis
    using assms by (auto simp: is_char_boundary_def)
qed

text \<open>
  A capped text keeps the end. A text within the cap is stored unchanged. A longer one
  becomes the ellipsis and a proper suffix of itself that starts at a character boundary;
  with a cap of at least the ellipsis the result is within the cap, and the suffix is the
  longest one that fits: no earlier character boundary leaves a text within the cap.
\<close>

theorem keep_tail_spec:
  "(length s \<le> m \<longrightarrow> keep_tail s m = s)
   \<and> (m < length s \<longrightarrow> (\<exists>start. keep_tail s m = ELLIPSIS @ drop start s
        \<and> 0 < start \<and> start \<le> length s \<and> is_char_boundary s start
        \<and> (3 \<le> m \<longrightarrow> length (keep_tail s m) \<le> m
             \<and> (\<forall>k < start. is_char_boundary s k \<longrightarrow> m < length (ELLIPSIS @ drop k s)))))"
proof (intro conjI impI)
  assume m: "m < length s"
  define i where "i = length s - (m - 3)"
  have i: "i \<le> length s" "i \<noteq> 0"
    using m by (auto simp: i_def)
  let ?c = "ceil_char_boundary s i"
  have kt: "keep_tail s m = ELLIPSIS @ drop ?c s"
    using m by (simp add: keep_tail_def i_def Let_def)
  have "m < length (ELLIPSIS @ drop k s)" if "3 \<le> m" "k < ?c" "is_char_boundary s k" for k
    using ceil_least [of i k s] that i m by (cases "i \<le> k") (auto simp: i_def)
  moreover have "length (keep_tail s m) \<le> m" if "3 \<le> m"
    using that m ceil_ge [of i s] by (simp add: kt i_def)
  moreover have "0 < ?c"
    using ceil_ge [of i s] i(2) by linarith
  ultimately show "\<exists>start. keep_tail s m = ELLIPSIS @ drop start s
        \<and> 0 < start \<and> start \<le> length s \<and> is_char_boundary s start
        \<and> (3 \<le> m \<longrightarrow> length (keep_tail s m) \<le> m
             \<and> (\<forall>k < start. is_char_boundary s k \<longrightarrow> m < length (ELLIPSIS @ drop k s)))"
    using kt ceil_le [OF i(1)] ceil_boundary [OF i(1)] by blast
qed (simp add: keep_tail_def)

theorem keep_tail_spec_witness:
  "keep_tail ''abcdefgh'' 6 = ELLIPSIS @ ''fgh'' \<and> length (keep_tail ''abcdefgh'' 6) \<le> 6"
  using keep_tail_spec [of "''abcdefgh''" 6]
  by (simp add: keep_tail_def ceil_char_boundary_def is_continuation_def)

text \<open>The cap is not kept below the ellipsis: a text cut to two bytes is the three of the ellipsis.\<close>

lemma keep_tail_below_ellipsis: "m < 3 \<Longrightarrow> m < length s \<Longrightarrow> keep_tail s m = ELLIPSIS"
  by (simp add: keep_tail_def ceil_char_boundary_def)

end
