(* ===== verification/Resolution.thy ===== *)
theory Resolution
  imports Conservation Denial
begin

text \<open>
  How one queue entry ends, the part of \<open>pipette-pipeline/src/queue_maintenance.rs\<close> that the
  maintenance passes share with the device routes: a lease that should no longer be held goes
  back to \<open>avail/\<close> or away, and a job nobody will run becomes a synthetic failure. Also a
  client's own lease, as \<open>client/benchmarks/submissions.rs\<close> finds it.
\<close>

section \<open>Leases\<close>

datatype lease_resolution = L_Recycled | L_ResolvedStale | L_Gone

definition resolve_or_recycle_lease ::
  "ext \<Rightarrow> job_id \<Rightarrow> expires_at \<Rightarrow> client_id \<Rightarrow> time \<Rightarrow> lease_resolution io" where
  "resolve_or_recycle_lease x j e c t =
     io_bind (has_record j) (\<lambda>recorded.
       if recorded then io_bind (delete_lease x j e c t) (\<lambda>_. io_ret L_ResolvedStale)
       else io_bind (recycle_lease x j e c t) (\<lambda>r.
         io_ret (case r of Recycled \<Rightarrow> L_Recycled | RecycleGone \<Rightarrow> L_Gone)))"

definition own_lease :: "ext \<Rightarrow> client_id \<Rightarrow> job_id \<Rightarrow> (expires_at \<times> time) option io" where
  "own_lease x c j =
     io_bind (list_leased_for_client c) (\<lambda>keys.
       io_ret (case List.map_filter (\<lambda>k.
           case parse_leased_key x k of
             Inl _ \<Rightarrow> None
           | Inr l \<Rightarrow> if l_job_id l = j then Some (l_expires_at l, l_lease_expiry l) else None) keys of
         [] \<Rightarrow> None | l # _ \<Rightarrow> Some l))"

type_synonym leased_body = "expires_at \<times> time \<times> json"

definition leased_body_at_current_key ::
  "ext \<Rightarrow> job_id \<Rightarrow> expires_at \<Rightarrow> client_id \<Rightarrow> time \<Rightarrow> leased_body option io" where
  "leased_body_at_current_key x j e c t =
     io_bind (get_leased x j e c t) (\<lambda>body.
       case body of
         Some b \<Rightarrow> io_ret (Some (e, t, b))
       | None \<Rightarrow>
           io_bind (own_lease x c j) (\<lambda>current.
             case current of
               None \<Rightarrow> io_ret None
             | Some (e', t') \<Rightarrow>
                 io_bind (get_leased x j e' c t') (\<lambda>body.
                   io_ret (map_option (\<lambda>b. (e', t', b)) body))))"

definition own_leased_body :: "ext \<Rightarrow> client_id \<Rightarrow> job_id \<Rightarrow> leased_body option io" where
  "own_leased_body x c j =
     io_bind (own_lease x c j) (\<lambda>l.
       case l of
         None \<Rightarrow> io_ret None
       | Some (e, t) \<Rightarrow> leased_body_at_current_key x j e c t)"

section \<open>Terminal entries\<close>

record avail_key =
  ak_key :: string
  ak_job_id :: job_id
  ak_expires_at :: expires_at

datatype queue_entry = Q_Avail avail_key | Q_Lease lease

fun entry_job_id :: "queue_entry \<Rightarrow> job_id" where
  "entry_job_id (Q_Avail a) = ak_job_id a"
| "entry_job_id (Q_Lease l) = l_job_id l"

fun entry_delete :: "ext \<Rightarrow> queue_entry \<Rightarrow> unit io" where
  "entry_delete x (Q_Avail a) = delete_avail x (ak_job_id a) (ak_expires_at a)"
| "entry_delete x (Q_Lease l) =
     delete_lease x (l_job_id l) (l_expires_at l) (l_client_id l) (l_lease_expiry l)"

text \<open>
  The record is written before the entry goes; a record that is there is kept. Only a body no
  record can ever be built from lets the entry go without one. The reason is computed only
  when a record is to be written.
\<close>

definition resolve_job_terminal ::
  "ext \<Rightarrow> catalog \<Rightarrow> queue_entry \<Rightarrow> json \<Rightarrow> string io \<Rightarrow> failure_source \<Rightarrow> time \<Rightarrow> bool io" where
  "resolve_job_terminal x catalog entry body reason source now =
     io_bind (has_record (entry_job_id entry)) (\<lambda>recorded.
       if recorded then io_bind (entry_delete x entry) (\<lambda>_. io_ret False)
       else io_bind reason (\<lambda>failure_reason.
         io_bind (attempt (record_system_failure x catalog body failure_reason source now)) (\<lambda>r.
           case r of
             Inr Created \<Rightarrow> io_bind (entry_delete x entry) (\<lambda>_. io_ret True)
           | Inr AlreadyExists \<Rightarrow> io_bind (entry_delete x entry) (\<lambda>_. io_ret False)
           | Inl e \<Rightarrow>
               if e = E_unrecordable then io_bind (entry_delete x entry) (\<lambda>_. io_ret False)
               else io_raise e)))"

fun entry_ok :: "queue_entry \<Rightarrow> bool" where
  "entry_ok (Q_Avail a) \<longleftrightarrow> valid_job_id (ak_job_id a)"
| "entry_ok (Q_Lease l) \<longleftrightarrow> valid_job_id (l_job_id l) \<and> valid_client_id (l_client_id l)"

section \<open>Under any interference\<close>

context marker_guarantee
begin

lemma safe_own_lease: "safe (own_lease x c j)"
  unfolding own_lease_def by (intro safe_intros safe_todo_reads)

lemma knows_own_leased_body:
  assumes "valid_job_id j" "valid_client_id c"
  shows "knows (own_leased_body x c j) (\<lambda>r. \<forall>e t b. r = Some (e, t, b) \<longrightarrow> bodyok j b)"
proof -
  note got = knows_get_leased [OF assms]
  have "knows (leased_body_at_current_key x j e c t) (\<lambda>r. \<forall>e t b. r = Some (e, t, b) \<longrightarrow> bodyok j b)" for e t
    unfolding leased_body_at_current_key_def
    by (rule knows_bind [OF got])
      (auto intro!: knows_ret knows_bind [OF safe_knows [OF safe_own_lease]] knows_bind [OF got]
        split: option.split)
  then show ?thesis
    unfolding own_leased_body_def
    by (intro knows_bind [OF safe_knows [OF safe_own_lease]]) (auto intro: knows_ret split: option.split)
qed

end

context queue_guarantee
begin

lemma safe_resolve_or_recycle:
  assumes "valid_job_id j" "valid_client_id c"
  shows "safe (resolve_or_recycle_lease x j e c t)"
proof -
  have "rg Inv R A (\<lambda>s. b \<longrightarrow> recorded j s) (if b then io_bind (delete_lease x j e c t) (\<lambda>_. io_ret L_ResolvedStale)
      else io_bind (recycle_lease x j e c t) (\<lambda>r.
        io_ret (case r of Recycled \<Rightarrow> L_Recycled | RecycleGone \<Rightarrow> L_Gone))) anyres" for b
  proof (cases b)
    case True
    with assms show ?thesis
      by (auto intro!: rg_then rg_delete_finished safe_ret)
  next
    case False
    with assms show ?thesis
      by (auto intro!: safe_pre safe_bind safe_moves safe_ret)
  qed
  then show ?thesis
    unfolding resolve_or_recycle_lease_def safe_def by (rule rg_bind [OF rg_has_record])
qed

lemma rg_entry_delete: "entry_ok q \<Longrightarrow> rg Inv R A (recorded (entry_job_id q)) (entry_delete x q) anyres"
  by (cases q) (simp_all add: rg_delete_finished)

lemma safe_entry_delete_dropped:
  "entry_ok q \<Longrightarrow> bodyok (entry_job_id q) b \<Longrightarrow> filed_under b \<noteq> Some (entry_job_id q) \<Longrightarrow> safe (entry_delete x q)"
  by (cases q) (simp_all add: safe_delete_dropped)

lemma safe_resolve_job_terminal:
  assumes "entry_ok q" "bodyok (entry_job_id q) body" "safe reason"
  shows "safe (resolve_job_terminal x catalog q body reason source now)"
proof -
  let ?j = "entry_job_id q"
  let ?del = "\<lambda>b. io_bind (entry_delete x q) (\<lambda>_. io_ret b)"
  have fin: "rg Inv R A (recorded ?j) (?del b) anyres" for b
    by (intro rg_then rg_entry_delete assms safe_ret)
  have drop: "safe (?del b)" if "filed_under body \<noteq> Some ?j" for b
    by (intro safe_bind safe_entry_delete_dropped [OF assms(1,2) that] safe_ret)
  have filed: "rg Inv R A (\<lambda>s. \<exists>j. filed_under body = Some j \<and> recorded j s) (?del b) anyres" for b
  proof (cases "filed_under body = Some ?j")
    case True
    then show ?thesis
      by (auto intro: rg_conseq [OF fin])
  qed (simp add: drop safe_pre)
  have "rg Inv R A (\<lambda>s. case r of Inl e \<Rightarrow> e = E_unrecordable \<longrightarrow> filed_under body = None
        | Inr _ \<Rightarrow> \<exists>j. filed_under body = Some j \<and> recorded j s)
      (case r of Inr Created \<Rightarrow> ?del True | Inr AlreadyExists \<Rightarrow> ?del False
       | Inl e \<Rightarrow> if e = E_unrecordable then ?del False else io_raise e) anyres" for r
    by (cases r) (auto intro!: filed rg_raise rg_const drop [unfolded safe_def] split: create_outcome.split)
  then have rec: "safe (io_bind (attempt (record_system_failure x catalog body fr source now)) (\<lambda>r.
      case r of Inr Created \<Rightarrow> ?del True | Inr AlreadyExists \<Rightarrow> ?del False
       | Inl e \<Rightarrow> if e = E_unrecordable then ?del False else io_raise e))" for fr
    unfolding safe_def
    by (rule rg_bind [OF rg_attempt_raises
        [OF rg_record_system_failure record_system_failure_unrecordable]])
  have "rg Inv R A (\<lambda>s. b \<longrightarrow> recorded ?j s) (if b then ?del False else io_bind reason (\<lambda>fr.
      io_bind (attempt (record_system_failure x catalog body fr source now)) (\<lambda>r.
      case r of Inr Created \<Rightarrow> ?del True | Inr AlreadyExists \<Rightarrow> ?del False
       | Inl e \<Rightarrow> if e = E_unrecordable then ?del False else io_raise e))) anyres" for b
    by (cases b) (simp add: fin, simp add: safe_pre safe_bind assms(3) rec)
  then show ?thesis
    unfolding resolve_job_terminal_def safe_def by (rule rg_bind [OF rg_has_record])
qed

end

section \<open>What the device handlers rely on\<close>

text \<open>
  The queue as one device uses it: the handlers of a device only claim for it, renew and put
  back leases of its own. \<open>dev\<close> are the devices whose use of these operations keeps the relation.
\<close>

locale lease_guarantee = marker_guarantee +
  fixes dev :: "client_id \<Rightarrow> bool"
  assumes dev_valid: "dev c \<Longrightarrow> valid_client_id c"
    and own_claim: "dev c \<Longrightarrow> valid_job_id j \<Longrightarrow> safe (claim_job x j e c t)"
    and own_recycle: "dev c \<Longrightarrow> valid_job_id j \<Longrightarrow> safe (recycle_lease x j e c t)"
    and own_renew: "dev c \<Longrightarrow> valid_job_id j \<Longrightarrow> safe (renew_lease x j c t)"
    and own_resolve: "dev c \<Longrightarrow> valid_job_id j \<Longrightarrow> safe (resolve_or_recycle_lease x j e c t)"

text \<open>
  The queue as maintenance uses it: entries are settled, put back or re-dated. \<open>may\<close> are the
  entries whose settlement keeps the relation.
\<close>

locale entry_guarantee = marker_guarantee +
  fixes may :: "ext \<Rightarrow> queue_entry \<Rightarrow> bool"
  assumes put_back: "may x (Q_Lease l) \<Longrightarrow> entry_ok (Q_Lease l) \<Longrightarrow>
      safe (resolve_or_recycle_lease x (l_job_id l) (l_expires_at l) (l_client_id l) (l_lease_expiry l))"
    and terminate: "may x q \<Longrightarrow> entry_ok q \<Longrightarrow> bodyok (entry_job_id q) body \<Longrightarrow> safe reason \<Longrightarrow>
      safe (resolve_job_terminal x catalog q body reason source now)"
    and redate: "may x (Q_Avail a) \<Longrightarrow> entry_ok (Q_Avail a) \<Longrightarrow>
      safe (redate_avail x (ak_job_id a) (ak_expires_at a) to)"

sublocale queue_guarantee \<subseteq> entry_guarantee Inv R A bodyok "\<lambda>_ _. True"
  by unfold_locales (simp_all add: safe_moves safe_resolve_job_terminal safe_resolve_or_recycle)

sublocale queue_guarantee \<subseteq> lease_guarantee Inv R A bodyok valid_client_id
  by unfold_locales (simp_all add: safe_moves safe_renew safe_resolve_or_recycle)

end
