(* ===== verification/Vault.thy ===== *)
theory Vault
  imports Fs Descriptors
begin

text \<open>
  Vault resources: the references a job body carries (\<open>pipette-pipeline/src/vault_check.rs\<close>,
  \<open>location.rs\<close>, \<open>principal.rs\<close> and \<open>descriptor.rs\<close> of \<open>pipette-plan-types\<close>), and who may read,
  administer or fetch one (\<open>pipette-httpapi/src/vault_access.rs\<close>). The organization store is a
  pair of reads, \<open>orgs\<close>: the owner of a device and the organization of an account.
\<close>

section \<open>Principals and paths\<close>

type_synonym org_id = string
type_synonym user_id = string
type_synonym vault_resource_id = string

definition check_prefixed_id :: "string \<Rightarrow> string \<Rightarrow> string \<Rightarrow> (principal_id_error, unit) result" where
  "check_prefixed_id value kind prefix =
     res_bind (check_id_charset value kind) (\<lambda>_.
       if \<not> starts_with prefix value then Inl (PMissingPrefix kind prefix) else Inr ())"

definition prefixed_try_new :: "string \<Rightarrow> string \<Rightarrow> string \<Rightarrow> (principal_id_error, string) result" where
  "prefixed_try_new kind prefix s =
     res_bind (check_prefixed_id (trim s) kind prefix) (\<lambda>_. Inr (trim s))"

definition org_id_try_new :: "string \<Rightarrow> (principal_id_error, org_id) result" where
  "org_id_try_new = prefixed_try_new ''organization id'' ''org_''"

definition user_id_try_new :: "string \<Rightarrow> (principal_id_error, user_id) result" where
  "user_id_try_new = prefixed_try_new ''user id'' ''user_''"

definition vault_resource_id_try_new :: "string \<Rightarrow> (principal_id_error, vault_resource_id) result" where
  "vault_resource_id_try_new = prefixed_try_new ''vault resource id'' ''vault_''"

datatype principal_owner = OwnerOrg org_id | OwnerUser user_id

text \<open>\<open>VaultPrincipalId::from_str\<close>, with \<open>VaultOwner::from\<close> applied to what it parsed.\<close>

definition parse_vault_principal :: "string \<Rightarrow> (principal_id_error, principal_owner) result" where
  "parse_vault_principal raw =
     (let s = trim raw in
      if starts_with ''org_'' s then res_bind (org_id_try_new s) (\<lambda>i. Inr (OwnerOrg i))
      else if starts_with ''user_'' s then res_bind (user_id_try_new s) (\<lambda>i. Inr (OwnerUser i))
      else Inl (PUnknownKind ''principal id''))"

definition strip_prefix :: "string \<Rightarrow> string \<Rightarrow> string option" where
  "strip_prefix p s = (if starts_with p s then Some (drop (length p) s) else None)"

datatype vault_path_error = VaultPathShape | VaultPathResource principal_id_error

definition parse_vault_path :: "string \<Rightarrow> (vault_path_error, vault_resource_id) result" where
  "parse_vault_path s =
     res_bind (ok_or VaultPathShape
         (Option.bind (strip_prefix ''/vault/resources/'' (trim s)) (strip_suffix ''/content'')))
       (\<lambda>i. map_err VaultPathResource (vault_resource_id_try_new i))"

section \<open>The references of a job body\<close>

definition is_vault_source :: "(string \<times> json) list \<Rightarrow> bool" where
  "is_vault_source kvs =
     list_ex (\<lambda>key. case Option.bind (map_of kvs key) as_str of
         Some tag \<Rightarrow> starts_with ''vault_'' tag
       | None \<Rightarrow> False) [''source'', ''type'']"

record vault_ref =
  vr_resource_id :: vault_resource_id
  vr_principal :: string
  vr_sha256 :: "string option"
  vr_custom_label :: "string option"

definition CUSTOM_LABEL :: string where
  "CUSTOM_LABEL = ''custom_label''"

definition digest_field_for :: "string \<Rightarrow> string" where
  "digest_field_for key = (if key = ''url'' then ''sha256'' else key @ ''_sha256'')"

definition vault_paths :: "(string \<times> json) list \<Rightarrow> (string \<times> vault_resource_id) list" where
  "vault_paths kvs =
     List.map_filter
       (\<lambda>(key, v). Option.bind (as_str v) (\<lambda>s. map_option (Pair key) (ok (parse_vault_path s))))
       (filter (\<lambda>(key, _). key \<noteq> ''principal_id'' \<and> key \<noteq> CUSTOM_LABEL) kvs)"

definition to_ascii_lowercase :: "string \<Rightarrow> string" where
  "to_ascii_lowercase = map (\<lambda>c.
     if 65 \<le> (of_char c :: nat) \<and> (of_char c :: nat) \<le> 90 then char_of ((of_char c :: nat) + 32) else c)"

datatype vault_ref_malformed = NoPrincipal | LabelNotString | NoVaultPath

definition refs_of :: "(string \<times> json) list \<Rightarrow> (vault_ref_malformed, vault_ref list) result" where
  "refs_of kvs =
     res_bind (ok_or NoPrincipal (Option.bind (map_of kvs ''principal_id'') as_str)) (\<lambda>p.
     res_bind (case map_of kvs CUSTOM_LABEL of
         None \<Rightarrow> Inr None
       | Some JNull \<Rightarrow> Inr None
       | Some (JStr label) \<Rightarrow> Inr (Some (trim label))
       | Some _ \<Rightarrow> Inl LabelNotString) (\<lambda>custom_label.
       let refs = map (\<lambda>(key, path). \<lparr>
             vr_resource_id = path,
             vr_principal = trim p,
             vr_sha256 = map_option (to_ascii_lowercase \<circ> trim)
               (Option.bind (map_of kvs (digest_field_for key)) as_str),
             vr_custom_label = custom_label\<rparr>) (vault_paths kvs)
       in if refs = [] then Inl NoVaultPath else Inr refs))"

fun collect :: "json \<Rightarrow> (vault_ref_malformed, vault_ref list) result"
  and collect_fields :: "(string \<times> json) list \<Rightarrow> (vault_ref_malformed, vault_ref list) result"
  and collect_items :: "json list \<Rightarrow> (vault_ref_malformed, vault_ref list) result" where
  "collect (JObj kvs) =
     res_bind (if is_vault_source kvs then refs_of kvs else Inr []) (\<lambda>own.
     res_bind (collect_fields kvs) (\<lambda>rest. Inr (own @ rest)))"
| "collect (JArr items) = collect_items items"
| "collect _ = Inr []"
| "collect_fields [] = Inr []"
| "collect_fields ((_, v) # kvs) =
     res_bind (collect v) (\<lambda>own. res_bind (collect_fields kvs) (\<lambda>rest. Inr (own @ rest)))"
| "collect_items [] = Inr []"
| "collect_items (v # vs) =
     res_bind (collect v) (\<lambda>own. res_bind (collect_items vs) (\<lambda>rest. Inr (own @ rest)))"

definition vault_refs :: "json \<Rightarrow> (vault_ref_malformed, vault_ref list) result" where
  "vault_refs body = collect body"

section \<open>Who may fetch\<close>

record orgs =
  get_ownership :: "client_id \<Rightarrow> (err, principal_owner option) result"
  get_membership :: "user_id \<Rightarrow> (err, org_id option) result"

definition org_of :: "orgs \<Rightarrow> principal_owner \<Rightarrow> (err, org_id option) result" where
  "org_of os w =
     (case w of OwnerOrg i \<Rightarrow> Inr (Some i) | OwnerUser u \<Rightarrow> get_membership os u)"

definition owning_org :: "orgs \<Rightarrow> client_id \<Rightarrow> (err, org_id option) result" where
  "owning_org os c =
     res_bind (get_ownership os c) (\<lambda>held. case held of None \<Rightarrow> Inr None | Some w \<Rightarrow> org_of os w)"

definition client_may_fetch :: "orgs \<Rightarrow> client_id \<Rightarrow> principal_owner \<Rightarrow> (app_error, bool) result" where
  "client_may_fetch os c w =
     (case w of
        OwnerUser u \<Rightarrow>
          res_bind (map_err (\<lambda>_. Internal) (get_ownership os c)) (\<lambda>held. Inr (held = Some (OwnerUser u)))
      | OwnerOrg i \<Rightarrow>
          res_bind (map_err (\<lambda>_. Internal) (owning_org os c)) (\<lambda>held. Inr (held = Some i)))"

fun collect_results :: "('e, 'a) result list \<Rightarrow> ('e, 'a list) result" where
  "collect_results [] = Inr []"
| "collect_results (r # rs) = res_bind r (\<lambda>a. res_bind (collect_results rs) (\<lambda>as. Inr (a # as)))"

text \<open>The principals of a body, in the order of a \<open>BTreeSet\<close>.\<close>

definition client_may_fetch_job :: "orgs \<Rightarrow> client_id \<Rightarrow> json \<Rightarrow> (app_error, bool) result" where
  "client_may_fetch_job os c body =
     res_bind (map_err (\<lambda>_. Internal) (vault_refs body)) (\<lambda>refs.
     res_bind (collect_results (map (map_err (\<lambda>_. Internal) \<circ> parse_vault_principal)
         (sort (remdups (map vr_principal refs))))) (\<lambda>owners.
     res_bind (collect_results (map (client_may_fetch os c) owners)) (\<lambda>fetchable.
       Inr (list_all id fetchable))))"

section \<open>Who may read and administer\<close>

datatype vault_reach = ReachAny | ReachOwn user_id "org_id option"

text \<open>\<open>any_orgs\<close> and \<open>own_orgs\<close>: whether the caller holds \<open>manage_any_orgs\<close> and \<open>manage_orgs\<close>.\<close>

definition reach_from_rights :: "orgs \<Rightarrow> bool \<Rightarrow> user_id \<Rightarrow> (err, vault_reach) result" where
  "reach_from_rights os any_orgs u =
     (if any_orgs then Inr ReachAny
      else res_bind (get_membership os u) (\<lambda>m. Inr (ReachOwn u m)))"

fun reach_admits :: "vault_reach \<Rightarrow> principal_owner \<Rightarrow> bool" where
  "reach_admits ReachAny _ = True"
| "reach_admits (ReachOwn u _) (OwnerUser v) = (v = u)"
| "reach_admits (ReachOwn _ m) (OwnerOrg i) = (m = Some i)"

record vault_authority =
  va_user_id :: user_id
  va_server :: bool
  va_admin_of :: "org_id option"
  va_member_of :: "org_id option"

definition authority_resolve ::
  "orgs \<Rightarrow> bool \<Rightarrow> bool \<Rightarrow> user_id \<Rightarrow> (err, vault_authority) result" where
  "authority_resolve os any_orgs own_orgs u =
     res_bind (get_membership os u) (\<lambda>member_of.
       Inr \<lparr>va_user_id = u, va_server = any_orgs,
         va_admin_of = (if own_orgs then member_of else None), va_member_of = member_of\<rparr>)"

definition may_administer :: "vault_authority \<Rightarrow> principal_owner \<Rightarrow> bool" where
  "may_administer a w \<longleftrightarrow>
     va_server a \<or> (case w of OwnerUser u \<Rightarrow> u = va_user_id a | OwnerOrg i \<Rightarrow> va_admin_of a = Some i)"

definition may_set_model_params :: "vault_authority \<Rightarrow> principal_owner \<Rightarrow> bool" where
  "may_set_model_params a w \<longleftrightarrow>
     va_server a \<or> (case w of OwnerOrg i \<Rightarrow> va_admin_of a = Some i | OwnerUser _ \<Rightarrow> False)"

definition may_hand_to :: "vault_authority \<Rightarrow> principal_owner \<Rightarrow> org_id option \<Rightarrow> bool" where
  "may_hand_to a w destination_org \<longleftrightarrow>
     va_server a \<or>
     (case w of
        OwnerUser u \<Rightarrow> u = va_user_id a \<or> (va_admin_of a \<noteq> None \<and> va_admin_of a = destination_org)
      | OwnerOrg i \<Rightarrow> va_member_of a = Some i)"

section \<open>What the checks show\<close>

lemma collect_covers:
  "collect v = Inr refs \<Longrightarrow> JObj kvs \<in> set (subvalues v) \<Longrightarrow> is_vault_source kvs \<Longrightarrow>
     \<exists>own. refs_of kvs = Inr own \<and> set own \<subseteq> set refs"
  "collect_fields fs = Inr refs \<Longrightarrow> (k, u) \<in> set fs \<Longrightarrow> JObj kvs \<in> set (subvalues u) \<Longrightarrow>
     is_vault_source kvs \<Longrightarrow> \<exists>own. refs_of kvs = Inr own \<and> set own \<subseteq> set refs"
  "collect_items vs = Inr refs \<Longrightarrow> u \<in> set vs \<Longrightarrow> JObj kvs \<in> set (subvalues u) \<Longrightarrow>
     is_vault_source kvs \<Longrightarrow> \<exists>own. refs_of kvs = Inr own \<and> set own \<subseteq> set refs"
proof (induction v and fs and vs arbitrary: refs and refs k u and refs u
    rule: collect_collect_fields_collect_items.induct)
  case (1 fs)
  then show ?case
    by (fastforce simp: res_bind_Inr_iff split: if_splits)
next
  case (5 _ v fs)
  then show ?case
    by (fastforce simp: res_bind_Inr_iff)
next
  case (7 v vs)
  then show ?case
    by (fastforce simp: res_bind_Inr_iff)
qed auto

lemma refs_of_Inr:
  "refs_of kvs = Inr own \<Longrightarrow>
   \<exists>p. map_of kvs ''principal_id'' = Some (JStr p) \<and> own \<noteq> [] \<and> (\<forall>r \<in> set own. vr_principal r = trim p)"
  by (auto simp: refs_of_def res_bind_Inr_iff Let_def bind_eq_Some_conv split: if_splits)

lemma collect_results_Inr:
  "collect_results rs = Inr as \<longleftrightarrow> rs = map Inr as"
  by (induction rs arbitrary: as) (auto simp: res_bind_Inr_iff Cons_eq_map_conv)

lemma may_fetch_all:
  assumes "client_may_fetch_job os c body = Inr True" "vault_refs body = Inr refs" "r \<in> set refs"
  shows "\<exists>w. parse_vault_principal (vr_principal r) = Inr w \<and> client_may_fetch os c w = Inr True"
proof -
  let ?ps = "sort (remdups (map vr_principal refs))"
  from assms(1,2) obtain owners fetchable where
    o: "map (map_err (\<lambda>_. Internal) \<circ> parse_vault_principal) ?ps = map Inr owners"
      "map (client_may_fetch os c) owners = map Inr fetchable" "list_all id fetchable"
    by (auto simp: client_may_fetch_job_def res_bind_Inr_iff collect_results_Inr)
  have "vr_principal r \<in> set ?ps"
    using assms(3) by auto
  then obtain i where i: "i < length ?ps" "?ps ! i = vr_principal r"
    unfolding in_set_conv_nth by blast
  have len: "length owners = length ?ps" "length fetchable = length owners"
    using arg_cong [OF o(1), of length] arg_cong [OF o(2), of length] by simp_all
  have "map_err (\<lambda>_. Internal) (parse_vault_principal (vr_principal r)) = Inr (owners ! i)"
    using arg_cong [OF o(1), of "\<lambda>l. l ! i"] i len by simp
  moreover have "client_may_fetch os c (owners ! i) = Inr (fetchable ! i)"
    using arg_cong [OF o(2), of "\<lambda>l. l ! i"] i len by simp
  moreover have "fetchable ! i"
    using o(3) i len by (simp add: list_all_length)
  ultimately show ?thesis
    by simp
qed

text \<open>
  C33: A device that passes the vault check reaches everything the job's body names. For every
  object nested anywhere in the body that is tagged as a vault source, the check found a
  string \<open>principal_id\<close>, parsed it as an account or an organization, and that principal is the
  device's owner: the account that owns the device, or the organization that does, directly
  or through the owning account's membership. An unowned device passes only on a body that
  names no vault source.
\<close>

theorem client_may_fetch_job_sound:
  assumes "client_may_fetch_job os c body = Inr True"
    and "JObj kvs \<in> set (subvalues body)" "is_vault_source kvs"
  shows "\<exists>p w held. map_of kvs ''principal_id'' = Some (JStr p)
    \<and> parse_vault_principal (trim p) = Inr w
    \<and> get_ownership os c = Inr (Some held)
    \<and> (case w of OwnerUser u \<Rightarrow> held = OwnerUser u
        | OwnerOrg i \<Rightarrow> held = OwnerOrg i \<or> (\<exists>u. held = OwnerUser u \<and> get_membership os u = Inr (Some i)))"
proof -
  obtain refs where refs: "vault_refs body = Inr refs"
    using assms(1) by (auto simp: client_may_fetch_job_def res_bind_Inr_iff)
  then obtain own where own: "refs_of kvs = Inr own" "set own \<subseteq> set refs"
    using collect_covers(1) [of body refs kvs] assms by (auto simp: vault_refs_def)
  then obtain p r where p: "map_of kvs ''principal_id'' = Some (JStr p)" "r \<in> set refs"
      "vr_principal r = trim p"
    using refs_of_Inr [OF own(1)] by (cases own) auto
  then obtain w where w: "parse_vault_principal (trim p) = Inr w" "client_may_fetch os c w = Inr True"
    using may_fetch_all [OF assms(1) refs] by fastforce
  from w(2) have "\<exists>held. get_ownership os c = Inr (Some held) \<and> (case w of OwnerUser u \<Rightarrow> held = OwnerUser u
        | OwnerOrg i \<Rightarrow> held = OwnerOrg i \<or> (\<exists>u. held = OwnerUser u \<and> get_membership os u = Inr (Some i)))"
    by (cases w; cases "get_ownership os c")
      (auto simp: client_may_fetch_def owning_org_def org_of_def res_bind_Inr_iff
        split: option.splits principal_owner.splits)
  with p w show ?thesis
    by blast
qed

definition sample_orgs :: orgs where
  "sample_orgs = \<lparr>
     get_ownership = (\<lambda>c. Inr (if c = ''dev'' then Some (OwnerUser ''user_1'') else None)),
     get_membership = (\<lambda>u. Inr (if u = ''user_1'' then Some ''org_1'' else None))\<rparr>"

definition sample_source :: "(string \<times> json) list" where
  "sample_source = [(''source'', JStr ''vault_file''), (''principal_id'', JStr ''org_1''),
     (''url'', JStr ''/vault/resources/vault_7/content'')]"

theorem client_may_fetch_job_sound_witness:
  "client_may_fetch_job sample_orgs ''dev'' (JObj [(''model'', JObj sample_source)]) = Inr True
   \<and> (\<exists>p w held. map_of sample_source ''principal_id'' = Some (JStr p)
    \<and> parse_vault_principal (trim p) = Inr w
    \<and> get_ownership sample_orgs ''dev'' = Inr (Some held)
    \<and> (case w of OwnerUser u \<Rightarrow> held = OwnerUser u
        | OwnerOrg i \<Rightarrow> held = OwnerOrg i
            \<or> (\<exists>u. held = OwnerUser u \<and> get_membership sample_orgs u = Inr (Some i))))"
proof -
  have "client_may_fetch_job sample_orgs ''dev'' (JObj [(''model'', JObj sample_source)]) = Inr True"
    by code_simp
  moreover have "JObj sample_source \<in> set (subvalues (JObj [(''model'', JObj sample_source)]))"
      "is_vault_source sample_source"
    by code_simp+
  ultimately show ?thesis
    using client_may_fetch_job_sound [of sample_orgs "''dev''" "JObj [(''model'', JObj sample_source)]" sample_source]
    by blast
qed



end
