(* ===== verification/Clients.thy ===== *)
theory Clients
  imports Ids Json
begin

text \<open>
  Client records as the matcher sees them: \<open>pipette-core/src/client.rs\<close> (statuses, the flag
  namespaces, the flags a device profile normalizes to, the effective capabilities) and
  \<open>pipette-core/src/client_permission.rs\<close> (the set of names a client holds, and which of
  them grant something).

  A \<open>BTreeSet<String>\<close> is a \<open>string set\<close>; where its order is read, it is read through
  \<open>sorted_list_of_set\<close>. The three text fields no decision reads (\<open>organization\<close>,
  \<open>client_details\<close>, \<open>contact_email\<close>) are kept as strings.
\<close>

section \<open>Flags\<close>

datatype client_status = Pending | Approved

definition RESERVED_CAPABILITY_NAMESPACES :: "string list" where
  "RESERVED_CAPABILITY_NAMESPACES =
     [''os'', ''os_version'', ''arch'', ''os_family'', ''device'', ''chip'', ''form_factor'',
      ''ram_bytes'', ''gpu'', ''gpu_vram_bytes'', ''npu'', ''npu_vram_bytes'']"

definition is_reserved_capability :: "string \<Rightarrow> bool" where
  "is_reserved_capability flag =
     (case split_once CHR '':'' flag of
        None \<Rightarrow> False
      | Some (ns, _) \<Rightarrow> ns \<in> set RESERVED_CAPABILITY_NAMESPACES)"

definition TAG_NAMESPACE :: string where
  "TAG_NAMESPACE = ''tag''"

type_synonym tag = string

definition tag_flag :: "tag \<Rightarrow> string" where
  "tag_flag tag = TAG_NAMESPACE @ '':'' @ tag"

definition is_tag_capability :: "string \<Rightarrow> bool" where
  "is_tag_capability flag =
     (case split_once CHR '':'' flag of None \<Rightarrow> False | Some (ns, _) \<Rightarrow> ns = TAG_NAMESPACE)"

definition CLIENT_VERSION_NAMESPACE :: string where
  "CLIENT_VERSION_NAMESPACE = ''client_version''"

definition client_version_of :: "string \<Rightarrow> string option" where
  "client_version_of flag =
     (case split_once CHR '':'' flag of
        None \<Rightarrow> None
      | Some (ns, version) \<Rightarrow> if ns = CLIENT_VERSION_NAMESPACE then Some version else None)"

section \<open>The flags of a device profile\<close>

definition slugify :: "ext \<Rightarrow> string \<Rightarrow> string" where
  "slugify x value = lowercase x (remove_whitespace value)"

datatype device_form_factor = Phone | Tablet | Laptop | Desktop | Server | Embedded

fun show_form_factor :: "device_form_factor \<Rightarrow> string" where
  "show_form_factor Phone = ''phone''"
| "show_form_factor Tablet = ''tablet''"
| "show_form_factor Laptop = ''laptop''"
| "show_form_factor Desktop = ''desktop''"
| "show_form_factor Server = ''server''"
| "show_form_factor Embedded = ''embedded''"

definition parse_form_factor :: "string \<Rightarrow> device_form_factor option" where
  "parse_form_factor s =
     find (\<lambda>f. show_form_factor f = s) [Phone, Tablet, Laptop, Desktop, Server, Embedded]"

record device_profile =
  device_name :: "string option"
  device_form_factor :: "device_form_factor option"
  device_os_name :: "string option"
  device_os_version :: "string option"
  device_cpu_arch :: "string option"
  device_os_family :: "string option"
  device_chip_model :: "string option"
  device_ram_bytes :: "nat option"
  device_gpu_model :: "string option"
  device_gpu_vram_bytes :: "nat option"
  device_npu_model :: "string option"
  device_npu_vram_bytes :: "nat option"

definition canonical_cpu_arch :: "ext \<Rightarrow> string \<Rightarrow> string" where
  "canonical_cpu_arch x value =
     (let slug = slugify x value in
      if slug \<in> {''amd64'', ''x64'', ''x86-64'', ''x86_64''} then ''x86_64''
      else if slug \<in> {''aarch64'', ''arm64-v8a'', ''arm64e'', ''arm64''} then ''arm64''
      else slug)"

definition canonical_os_family :: "ext \<Rightarrow> string \<Rightarrow> device_form_factor option \<Rightarrow> string" where
  "canonical_os_family x value form_factor =
     (let slug = slugify x value in
      if slug = ''darwin'' then
        (if form_factor \<in> {Some Phone, Some Tablet} then ''ios'' else ''macos'')
      else if slug \<in> {''macos'', ''macosx'', ''osx''} then ''macos''
      else if slug \<in> {''win32'', ''win64'', ''windows''} then ''windows''
      else if slug \<in> {''ipados'', ''ios''} then ''ios''
      else slug)"

definition string_flag :: "ext \<Rightarrow> string \<Rightarrow> string option \<Rightarrow> string set" where
  "string_flag x ns value = (case value of None \<Rightarrow> {} | Some v \<Rightarrow> {ns @ '':'' @ slugify x v})"

definition count_flag :: "string \<Rightarrow> nat option \<Rightarrow> string set" where
  "count_flag ns value = (case value of None \<Rightarrow> {} | Some n \<Rightarrow> {ns @ '':'' @ nat_str n})"

definition normalized_flags :: "ext \<Rightarrow> device_profile \<Rightarrow> string set" where
  "normalized_flags x profile =
     string_flag x ''device'' (device_name profile)
     \<union> string_flag x ''os'' (device_os_name profile)
     \<union> string_flag x ''os_version'' (device_os_version profile)
     \<union> string_flag x ''chip'' (device_chip_model profile)
     \<union> string_flag x ''gpu'' (device_gpu_model profile)
     \<union> string_flag x ''npu'' (device_npu_model profile)
     \<union> (case device_cpu_arch profile of
          None \<Rightarrow> {} | Some arch \<Rightarrow> {''arch:'' @ canonical_cpu_arch x arch})
     \<union> (case device_os_family profile of
          None \<Rightarrow> {}
        | Some family \<Rightarrow>
            {''os_family:'' @ canonical_os_family x family (device_form_factor profile)})
     \<union> string_flag x ''form_factor'' (map_option show_form_factor (device_form_factor profile))
     \<union> count_flag ''ram_bytes'' (device_ram_bytes profile)
     \<union> count_flag ''gpu_vram_bytes'' (device_gpu_vram_bytes profile)
     \<union> count_flag ''npu_vram_bytes'' (device_npu_vram_bytes profile)"

text \<open>\<open>NonEmptyTrimmedString::try_new\<close>.\<close>

definition non_empty_trimmed :: "string \<Rightarrow> string option" where
  "non_empty_trimmed s = (if trim s = [] then None else Some (trim s))"

definition record_text :: "json \<Rightarrow> string \<Rightarrow> string option" where
  "record_text r field =
     Option.bind (Option.bind (get r field) as_str) non_empty_trimmed"

definition record_bytes :: "json \<Rightarrow> string \<Rightarrow> nat option" where
  "record_bytes r field = Option.bind (get r field) as_u64"

definition recorded_run_flags :: "ext \<Rightarrow> json \<Rightarrow> string set" where
  "recorded_run_flags x r =
     normalized_flags x \<lparr>
       device_name = record_text r ''device_name'',
       device_form_factor =
         Option.bind (Option.bind (get r ''device_form_factor'') as_str) parse_form_factor,
       device_os_name = record_text r ''device_os_name'',
       device_os_version = record_text r ''device_os_version'',
       device_cpu_arch = record_text r ''device_cpu_arch'',
       device_os_family = record_text r ''device_os_family'',
       device_chip_model = record_text r ''device_chip_model'',
       device_ram_bytes = record_bytes r ''device_ram_bytes'',
       device_gpu_model = record_text r ''device_gpu_model'',
       device_gpu_vram_bytes = record_bytes r ''device_gpu_vram_bytes'',
       device_npu_model = record_text r ''device_npu_model'',
       device_npu_vram_bytes = record_bytes r ''device_npu_vram_bytes''\<rparr>
     \<union> string_flag x CLIENT_VERSION_NAMESPACE (record_text r ''client_version'')"

record client =
  client_id :: client_id
  public_key :: string
  organization :: string
  client_details :: string
  contact_email :: string
  status :: client_status
  registered_at :: time
  device_profile :: device_profile
  capabilities :: "string set"

definition effective_capabilities :: "ext \<Rightarrow> client \<Rightarrow> string set" where
  "effective_capabilities x c = normalized_flags x (device_profile c) \<union> capabilities c"

section \<open>Permissions\<close>

datatype client_permission = SubmitResults | PerformWork

fun permission_name :: "client_permission \<Rightarrow> string" where
  "permission_name SubmitResults = ''submit_results''"
| "permission_name PerformWork = ''perform_work''"

definition permission_from_str :: "string \<Rightarrow> client_permission option" where
  "permission_from_str s = find (\<lambda>p. permission_name p = s) [SubmitResults, PerformWork]"

datatype stored_permission = Known client_permission | Unknown string

definition classify :: "string \<Rightarrow> stored_permission" where
  "classify name =
     (case permission_from_str name of Some p \<Rightarrow> Known p | None \<Rightarrow> Unknown name)"

fun wire_name :: "stored_permission \<Rightarrow> string" where
  "wire_name (Known p) = permission_name p"
| "wire_name (Unknown n) = n"

text \<open>
  A \<open>BTreeSet<StoredClientPermission>\<close>, whose identity and order are the wire name: the list
  of its members in ascending order of wire name. Inserting a present name changes nothing.
\<close>

type_synonym client_permission_set = "stored_permission list"

fun perm_insert :: "stored_permission \<Rightarrow> client_permission_set \<Rightarrow> client_permission_set" where
  "perm_insert m [] = [m]"
| "perm_insert m (n # r) =
     (if wire_name m = wire_name n then n # r
      else if wire_name m < wire_name n then m # n # r
      else n # perm_insert m r)"

definition perm_contains :: "client_permission_set \<Rightarrow> stored_permission \<Rightarrow> bool" where
  "perm_contains s m \<longleftrightarrow> wire_name m \<in> set (map wire_name s)"

definition names :: "client_permission_set \<Rightarrow> string list" where
  "names s = map wire_name s"

definition holds :: "client_permission_set \<Rightarrow> client_permission \<Rightarrow> bool" where
  "holds s permission = list_ex (\<lambda>m. m = Known permission) s"

definition perm_collect :: "stored_permission list \<Rightarrow> client_permission_set" where
  "perm_collect ms = fold perm_insert ms []"

definition insert_all ::
  "client_permission_set \<Rightarrow> client_permission list \<Rightarrow> bool \<times> client_permission_set" where
  "insert_all s permissions =
     (let s' = fold perm_insert (map Known permissions) s in (length s' \<noteq> length s, s'))"

definition remove_all ::
  "client_permission_set \<Rightarrow> string list \<Rightarrow> bool \<times> client_permission_set" where
  "remove_all s ns =
     (let s' = filter (\<lambda>m. wire_name m \<notin> set ns) s in (length s' \<noteq> length s, s'))"

definition replace ::
  "client_permission_set \<Rightarrow> client_permission list \<Rightarrow> bool \<times> client_permission_set" where
  "replace s permissions =
     (let s' = perm_collect (map Known permissions) in (names s' \<noteq> names s, s'))"

definition REGISTRATION_DEFAULT :: client_permission_set where
  "REGISTRATION_DEFAULT = perm_collect [Known SubmitResults]"

definition effective :: "client_permission_set option \<Rightarrow> client_permission_set" where
  "effective stored = (case stored of None \<Rightarrow> [] | Some s \<Rightarrow> s)"

definition effective_holds :: "client_permission_set option \<Rightarrow> client_permission \<Rightarrow> bool" where
  "effective_holds stored permission =
     (case stored of None \<Rightarrow> False | Some s \<Rightarrow> holds s permission)"

section \<open>What the flags and the sets guarantee\<close>

subsection \<open>Namespaces\<close>

lemma split_once_ns [simp]:
  "CHR '':'' \<notin> set ns \<Longrightarrow> split_once CHR '':'' (ns @ '':'' @ v) = Some (ns, v)"
  by simp

lemma tag_flag_is_tag [simp]: "is_tag_capability (tag_flag t)"
  by (simp add: is_tag_capability_def tag_flag_def TAG_NAMESPACE_def)

lemma tag_flag_inj [simp]: "tag_flag s = tag_flag t \<longleftrightarrow> s = t"
  by (simp add: tag_flag_def)

lemma is_tag_capability_iff: "is_tag_capability f \<longleftrightarrow> (\<exists>t. f = tag_flag t)"
proof
  assume "is_tag_capability f"
  then obtain t where "split_once CHR '':'' f = Some (TAG_NAMESPACE, t)"
    by (auto simp: is_tag_capability_def split: option.splits)
  then show "\<exists>t. f = tag_flag t"
    by (auto simp: split_once_Some_iff tag_flag_def)
qed auto

lemma client_version_of_Some_iff:
  "client_version_of f = Some v \<longleftrightarrow> f = CLIENT_VERSION_NAMESPACE @ '':'' @ v"
proof
  assume "client_version_of f = Some v"
  then show "f = CLIENT_VERSION_NAMESPACE @ '':'' @ v"
    by (auto simp: client_version_of_def split_once_Some_iff split: option.splits if_splits)
next
  have "CHR '':'' \<notin> set CLIENT_VERSION_NAMESPACE"
    by (simp add: CLIENT_VERSION_NAMESPACE_def)
  moreover assume "f = CLIENT_VERSION_NAMESPACE @ '':'' @ v"
  ultimately show "client_version_of f = Some v"
    by (simp add: client_version_of_def)
qed

lemma tag_no_version [simp]: "client_version_of (tag_flag t) = None"
  by (simp add: client_version_of_def tag_flag_def TAG_NAMESPACE_def CLIENT_VERSION_NAMESPACE_def)

lemma string_flag_reserved:
  "CHR '':'' \<notin> set ns \<Longrightarrow> ns \<in> set RESERVED_CAPABILITY_NAMESPACES \<Longrightarrow>
   f \<in> string_flag x ns v \<Longrightarrow> is_reserved_capability f"
  by (auto simp: string_flag_def is_reserved_capability_def split: option.splits)

lemma count_flag_reserved:
  "CHR '':'' \<notin> set ns \<Longrightarrow> ns \<in> set RESERVED_CAPABILITY_NAMESPACES \<Longrightarrow>
   f \<in> count_flag ns v \<Longrightarrow> is_reserved_capability f"
  by (auto simp: count_flag_def is_reserved_capability_def split: option.splits)

text \<open>Every flag a profile normalizes to is in a server-owned namespace.\<close>

lemma normalized_flags_reserved: "f \<in> normalized_flags x p \<Longrightarrow> is_reserved_capability f"
  unfolding normalized_flags_def
  by (elim UnE; (rule string_flag_reserved count_flag_reserved; (assumption | simp add: RESERVED_CAPABILITY_NAMESPACES_def)
      | simp add: is_reserved_capability_def RESERVED_CAPABILITY_NAMESPACES_def split: option.splits))

lemma reserved_no_tag: "is_reserved_capability f \<Longrightarrow> \<not> is_tag_capability f"
  by (auto simp: is_reserved_capability_def is_tag_capability_def TAG_NAMESPACE_def
      RESERVED_CAPABILITY_NAMESPACES_def split: option.splits)

lemma reserved_no_version: "is_reserved_capability f \<Longrightarrow> client_version_of f = None"
  by (auto simp: is_reserved_capability_def client_version_of_def CLIENT_VERSION_NAMESPACE_def
      RESERVED_CAPABILITY_NAMESPACES_def split: option.splits)

lemma finite_string_flag [simp]: "finite (string_flag x ns v)" "finite (count_flag ns n)"
  by (auto simp: string_flag_def count_flag_def split: option.splits)

lemma finite_normalized_flags [simp]: "finite (normalized_flags x p)"
  by (simp add: normalized_flags_def split: option.splits)

subsection \<open>Permission sets\<close>

text \<open>
  The invariant of a permission set: ascending, one member per name, and every member in
  the variant its name classifies to.
\<close>

definition perm_set_ok :: "client_permission_set \<Rightarrow> bool" where
  "perm_set_ok s \<longleftrightarrow> sorted_wrt (<) (names s) \<and> list_all (\<lambda>m. classify (wire_name m) = m) s"

lemma permission_from_name [simp]: "permission_from_str (permission_name p) = Some p"
  by (cases p) (simp_all add: permission_from_str_def)

lemma classify_Known [simp]: "classify (permission_name p) = Known p"
  by (simp add: classify_def)

lemma classify_idem: "classify (wire_name (classify n)) = classify n"
  by (auto simp: classify_def permission_from_str_def split: option.splits if_splits)

lemma names_simps [simp]: "names [] = []" "names (m # s) = wire_name m # names s"
  by (simp_all add: names_def)

lemma set_names_insert [simp]: "set (names (perm_insert m s)) = insert (wire_name m) (set (names s))"
  by (induction m s rule: perm_insert.induct) auto

lemma set_perm_insert: "set (perm_insert m s) \<subseteq> insert m (set s)"
  by (induction m s rule: perm_insert.induct) auto

lemma perm_set_ok_Cons:
  "perm_set_ok (n # r) \<longleftrightarrow>
     (\<forall>w \<in> set (names r). wire_name n < w) \<and> classify (wire_name n) = n \<and> perm_set_ok r"
  by (auto simp: perm_set_ok_def names_def)

lemma perm_insert_ok: "perm_set_ok s \<Longrightarrow> classify (wire_name m) = m \<Longrightarrow> perm_set_ok (perm_insert m s)"
proof (induction m s rule: perm_insert.induct)
  case (2 m n r)
  then show ?case
    by (auto simp: perm_set_ok_Cons dest: less_trans)
qed (simp add: perm_set_ok_def)

lemma fold_perm_insert_ok:
  "perm_set_ok s \<Longrightarrow> list_all (\<lambda>m. classify (wire_name m) = m) ms \<Longrightarrow>
   perm_set_ok (fold perm_insert ms s)"
  by (induction ms arbitrary: s) (auto simp: perm_insert_ok)

lemma set_names_fold [simp]:
  "set (names (fold perm_insert ms s)) = set (names s) \<union> wire_name ` set ms"
  by (induction ms arbitrary: s) auto

lemma perm_collect_ok: "perm_set_ok (perm_collect (map Known ps))"
  unfolding perm_collect_def
  by (rule fold_perm_insert_ok) (simp_all add: perm_set_ok_def list_all_iff)

lemma perm_collect_names [simp]: "set (names (perm_collect ms)) = wire_name ` set ms"
  unfolding perm_collect_def by simp

lemma distinct_perm_names: "perm_set_ok s \<Longrightarrow> distinct (names s)"
  by (simp add: perm_set_ok_def strict_sorted_iff)

lemma length_names: "perm_set_ok s \<Longrightarrow> length s = card (set (names s))"
  using distinct_card [OF distinct_perm_names] by (simp add: names_def)

lemma names_determine:
  "perm_set_ok s \<Longrightarrow> perm_set_ok t \<Longrightarrow> set (names s) = set (names t) \<Longrightarrow> names s = names t"
  unfolding perm_set_ok_def using strict_sorted_equal by blast

text \<open>What a set grants is decided by its names alone.\<close>

lemma permission_name_inj [simp]: "permission_name p = permission_name q \<longleftrightarrow> p = q"
  by (cases p; cases q) simp_all

lemma classified_Known:
  "classify (wire_name m) = m \<Longrightarrow> m = Known p \<longleftrightarrow> permission_name p = wire_name m"
  by (cases m) (auto simp: classify_def split: option.splits)

lemma holds_iff_name: "perm_set_ok s \<Longrightarrow> holds s p \<longleftrightarrow> permission_name p \<in> set (names s)"
  by (induction s) (simp_all add: holds_def perm_set_ok_Cons classified_Known)

lemma perm_filter_ok: "perm_set_ok s \<Longrightarrow> perm_set_ok (filter P s)"
  by (induction s) (auto simp: perm_set_ok_Cons names_def)

lemma card_eq_iff_chain:
  "finite A \<Longrightarrow> finite B \<Longrightarrow> A \<subseteq> B \<or> B \<subseteq> A \<Longrightarrow> card A = card B \<longleftrightarrow> A = B"
  using card_subset_eq by metis

lemma changed_iff:
  assumes "perm_set_ok s" "perm_set_ok t"
    and "set (names s) \<subseteq> set (names t) \<or> set (names t) \<subseteq> set (names s)"
  shows "length t \<noteq> length s \<longleftrightarrow> set (names t) \<noteq> set (names s)"
proof -
  have "card (set (names t)) = card (set (names s)) \<longleftrightarrow> set (names t) = set (names s)"
    using assms(3) by (intro card_eq_iff_chain) auto
  then show ?thesis
    by (simp add: length_names [OF assms(1)] length_names [OF assms(2)])
qed

lemma insert_all_spec:
  assumes "perm_set_ok s" "insert_all s ps = (ch, t)"
  shows "perm_set_ok t" "set (names t) = set (names s) \<union> permission_name ` set ps"
    and "ch \<longleftrightarrow> set (names t) \<noteq> set (names s)"
proof -
  from assms have t: "t = fold perm_insert (map Known ps) s" and ch: "ch \<longleftrightarrow> length t \<noteq> length s"
    by (auto simp: insert_all_def Let_def)
  show ok: "perm_set_ok t"
    unfolding t by (rule fold_perm_insert_ok [OF assms(1)]) (simp add: list_all_iff)
  show "set (names t) = set (names s) \<union> permission_name ` set ps"
    by (simp add: t image_image)
  then show "ch \<longleftrightarrow> set (names t) \<noteq> set (names s)"
    unfolding ch by (intro changed_iff [OF assms(1) ok]) blast
qed

lemma remove_all_spec:
  assumes "perm_set_ok s" "remove_all s ns = (ch, t)"
  shows "perm_set_ok t" "set (names t) = set (names s) - set ns"
    and "ch \<longleftrightarrow> set (names t) \<noteq> set (names s)"
proof -
  from assms have t: "t = filter (\<lambda>m. wire_name m \<notin> set ns) s" and ch: "ch \<longleftrightarrow> length t \<noteq> length s"
    by (auto simp: remove_all_def Let_def)
  show ok: "perm_set_ok t"
    unfolding t by (rule perm_filter_ok [OF assms(1)])
  show "set (names t) = set (names s) - set ns"
    by (auto simp: t names_def)
  then show "ch \<longleftrightarrow> set (names t) \<noteq> set (names s)"
    unfolding ch by (intro changed_iff [OF assms(1) ok]) blast
qed

lemma replace_spec:
  assumes "perm_set_ok s" "replace s ps = (ch, t)"
  shows "perm_set_ok t" "set (names t) = permission_name ` set ps"
    and "ch \<longleftrightarrow> set (names t) \<noteq> set (names s)"
proof -
  from assms have t: "t = perm_collect (map Known ps)" and ch: "ch \<longleftrightarrow> names t \<noteq> names s"
    by (auto simp: replace_def Let_def)
  show ok: "perm_set_ok t"
    unfolding t by (rule perm_collect_ok)
  show "set (names t) = permission_name ` set ps"
    by (simp add: t image_image)
  show "ch \<longleftrightarrow> set (names t) \<noteq> set (names s)"
    unfolding ch using names_determine [OF ok assms(1)] by auto
qed

text \<open>
  C35: The stored permission set of a client refines the set of its names: on a well-formed
  set \<open>insert_all\<close>, \<open>remove_all\<close> and \<open>replace\<close> compute union, difference and assignment of
  names, keep the set well-formed (ascending, one member per name, every name in the variant
  it classifies to), and report "changed" exactly when the set of names changed; and a
  permission is granted exactly when its wire name is held, so an unknown name grants nothing.
\<close>

theorem permission_set_refines:
  assumes "perm_set_ok s"
  shows "(insert_all s ps = (ch, t) \<longrightarrow>
            perm_set_ok t \<and> set (names t) = set (names s) \<union> permission_name ` set ps
            \<and> (ch \<longleftrightarrow> set (names t) \<noteq> set (names s)))
       \<and> (remove_all s ns = (ch, t) \<longrightarrow>
            perm_set_ok t \<and> set (names t) = set (names s) - set ns
            \<and> (ch \<longleftrightarrow> set (names t) \<noteq> set (names s)))
       \<and> (replace s ps = (ch, t) \<longrightarrow>
            perm_set_ok t \<and> set (names t) = permission_name ` set ps
            \<and> (ch \<longleftrightarrow> set (names t) \<noteq> set (names s)))
       \<and> (effective_holds (Some s) p \<longleftrightarrow> permission_name p \<in> set (names s))
       \<and> \<not> effective_holds None p"
proof (intro conjI impI)
  show "effective_holds (Some s) p \<longleftrightarrow> permission_name p \<in> set (names s)"
    by (simp add: effective_holds_def holds_iff_name [OF assms])
qed ((rule insert_all_spec [OF assms] remove_all_spec [OF assms] replace_spec [OF assms]; assumption)
    | simp add: effective_holds_def)+

theorem permission_set_refines_witness:
  "let s = [Known PerformWork, Unknown ''zed''];
       s' = [Known PerformWork, Known SubmitResults, Unknown ''zed''] in
   perm_set_ok s \<and> insert_all s [SubmitResults] = (True, s') \<and> perm_set_ok s'
   \<and> effective_holds (Some s) PerformWork"
proof -
  let ?s = "[Known PerformWork, Unknown ''zed'']"
  let ?t = "[Known PerformWork, Known SubmitResults, Unknown ''zed'']"
  have "perm_set_ok ?s" "insert_all ?s [SubmitResults] = (True, ?t)"
    by code_simp+
  with permission_set_refines [of ?s "[SubmitResults]" True ?t "[]" PerformWork]
  show ?thesis
    by simp
qed

end
