(* ===== verification/Matching.thy ===== *)
theory Matching
  imports Clients
begin

text \<open>
  Which clients a job is offered to: \<open>pipette-core/src/matching.rs\<close>. The clauses of a job
  body are parsed once, every match evaluates them through \<open>admit\<close>, and the reports on a
  fleet (\<open>narrow_fleet\<close>, \<open>roster_standing\<close>) and on a body (\<open>unmatchable_reason\<close>,
  \<open>clients_only_roster\<close>) answer through the same definitions. The theorems relate each
  report to the matcher.
\<close>

section \<open>Rights and tags of a fleet\<close>

type_synonym fleet_rights = "client_id \<Rightarrow> client_permission_set option"

definition holds_perform_work :: "fleet_rights \<Rightarrow> client_id \<Rightarrow> bool" where
  "holds_perform_work rights c = effective_holds (rights c) PerformWork"

definition admits :: "fleet_rights \<Rightarrow> client \<Rightarrow> bool" where
  "admits rights client \<longleftrightarrow> status client = Approved \<and> holds_perform_work rights (client_id client)"

definition workers :: "fleet_rights \<Rightarrow> client list \<Rightarrow> client list" where
  "workers rights fleet = filter (admits rights) fleet"

type_synonym fleet_tags = "client_id \<Rightarrow> tag set option"

definition fleet_tags_new :: "(client_id \<times> tag) list \<Rightarrow> fleet_tags" where
  "fleet_tags_new markers =
     fold (\<lambda>(c, t) tags. tags(c \<mapsto> insert t (case tags c of None \<Rightarrow> {} | Some ts \<Rightarrow> ts))) markers (\<lambda>_. None)"

definition capabilities_of :: "ext \<Rightarrow> fleet_tags \<Rightarrow> client \<Rightarrow> string set" where
  "capabilities_of x tags client =
     {flag \<in> effective_capabilities x client. \<not> is_tag_capability flag}
     \<union> (case tags (client_id client) of None \<Rightarrow> {} | Some ts \<Rightarrow> tag_flag ` ts)"

section \<open>The clauses of a job body\<close>

definition flag_set :: "json list \<Rightarrow> string set option" where
  "flag_set flags = map_option set (collect_opt as_str flags)"

definition job_requires :: "json \<Rightarrow> string set option" where
  "job_requires body = Option.bind (Option.bind (get body ''requires'') as_array) flag_set"

definition job_excludes :: "json \<Rightarrow> string set option" where
  "job_excludes body =
     (case get body ''excludes'' of
        None \<Rightarrow> Some {}
      | Some excludes \<Rightarrow> Option.bind (as_array excludes) flag_set)"

definition job_exclude_clients :: "json \<Rightarrow> string set option" where
  "job_exclude_clients body =
     (case get body ''exclude_clients'' of
        None \<Rightarrow> Some {}
      | Some ids \<Rightarrow> Option.bind (as_array ids) flag_set)"

definition flag_groups :: "json \<Rightarrow> string \<Rightarrow> string set list option" where
  "flag_groups body field =
     (case get body field of
        None \<Rightarrow> Some []
      | Some groups \<Rightarrow>
          Option.bind (as_array groups)
            (collect_opt (\<lambda>group. Option.bind (as_array group) flag_set)))"

definition job_any_of :: "json \<Rightarrow> string set list option" where
  "job_any_of body = flag_groups body ''any_of''"

definition job_not_all_of :: "json \<Rightarrow> string set list option" where
  "job_not_all_of body = flag_groups body ''not_all_of''"

record clauses =
  requires :: "string set"
  excludes :: "string set"
  exclude_clients :: "string set"
  any_of :: "string set list"
  not_all_of :: "string set list"

definition clauses_parse :: "json \<Rightarrow> clauses option" where
  "clauses_parse body =
     Option.bind (case get body ''requires'' of None \<Rightarrow> Some {} | Some _ \<Rightarrow> job_requires body) (\<lambda>rq.
     Option.bind (job_excludes body) (\<lambda>ex.
     Option.bind (job_exclude_clients body) (\<lambda>exc.
     Option.bind (job_any_of body) (\<lambda>an.
     Option.bind (job_not_all_of body) (\<lambda>na.
     Some \<lparr>requires = rq, excludes = ex, exclude_clients = exc, any_of = an, not_all_of = na\<rparr>)))))"

definition client_listed :: "json \<Rightarrow> client_id \<Rightarrow> bool" where
  "client_listed body c =
     (case Option.bind (get body ''clients'') as_array of
        None \<Rightarrow> False
      | Some arr \<Rightarrow> list_ex (\<lambda>v. as_str v = Some c) arr)"

definition capabilities_satisfy :: "string set \<Rightarrow> string set list \<Rightarrow> string set \<Rightarrow> bool" where
  "capabilities_satisfy rq an flags \<longleftrightarrow>
     rq \<noteq> {} \<and> rq \<subseteq> flags \<and> list_all (\<lambda>group. group \<inter> flags \<noteq> {}) an"

definition excludes_client :: "clauses \<Rightarrow> client_id \<Rightarrow> string set \<Rightarrow> bool" where
  "excludes_client cl c caps \<longleftrightarrow>
     c \<in> exclude_clients cl
     \<or> excludes cl \<inter> caps \<noteq> {}
     \<or> list_ex (\<lambda>group. group \<subseteq> caps) (not_all_of cl)"

definition admit :: "clauses \<Rightarrow> json \<Rightarrow> client_id \<Rightarrow> string set \<Rightarrow> bool" where
  "admit cl body c caps \<longleftrightarrow>
     \<not> excludes_client cl c caps
     \<and> (client_listed body c \<or> capabilities_satisfy (requires cl) (any_of cl) caps)"

definition effective_roster :: "clauses \<Rightarrow> json \<Rightarrow> string list" where
  "effective_roster cl body =
     (case Option.bind (get body ''clients'') as_array of
        None \<Rightarrow> []
      | Some arr \<Rightarrow> filter (\<lambda>i. i \<notin> exclude_clients cl) (List.map_filter as_str arr))"

definition effective_roster_empty :: "clauses \<Rightarrow> json \<Rightarrow> bool" where
  "effective_roster_empty cl body \<longleftrightarrow> effective_roster cl body = []"

definition job_matches_client :: "ext \<Rightarrow> json \<Rightarrow> client \<Rightarrow> fleet_tags \<Rightarrow> bool" where
  "job_matches_client x body client tags =
     (case clauses_parse body of
        None \<Rightarrow> False
      | Some cl \<Rightarrow> admit cl body (client_id client) (capabilities_of x tags client))"

definition admitted_client_versions :: "ext \<Rightarrow> json \<Rightarrow> client \<Rightarrow> fleet_tags \<Rightarrow> string list" where
  "admitted_client_versions x body client tags =
     (case clauses_parse body of
        None \<Rightarrow> []
      | Some cl \<Rightarrow>
          let caps = capabilities_of x tags client;
              versions = {f \<in> caps. client_version_of f \<noteq> None};
              others = {f \<in> caps. client_version_of f = None} in
          filter (\<lambda>v. v \<noteq> [])
            (List.map_filter client_version_of
              (filter (\<lambda>f. admit cl body (client_id client) (insert f others))
                (sorted_list_of_set versions))))"

definition clients_only_roster :: "json \<Rightarrow> string list option" where
  "clients_only_roster body =
     Option.bind (clauses_parse body) (\<lambda>cl.
       let roster = effective_roster cl body in
       if roster \<noteq> [] \<and> requires cl = {} then Some roster else None)"

definition capability_clauses_malformed :: "json \<Rightarrow> bool" where
  "capability_clauses_malformed body \<longleftrightarrow> clauses_parse body = None"

definition dead_roster_reason :: "json \<Rightarrow> string" where
  "dead_roster_reason body =
     (if (case get body ''clients'' of
            None \<Rightarrow> False
          | Some (JArr ids) \<Rightarrow> ids \<noteq> [] \<and> \<not> list_ex is_string ids
          | Some _ \<Rightarrow> True)
      then ''the `clients` value is not an array of client ids''
      else ''the `clients` roster is empty or wholly excluded'')"

definition capability_branch_reason :: "clauses \<Rightarrow> string option" where
  "capability_branch_reason cl =
     (if requires cl = {} then
        Some ''`requires` is empty, so the capability path matches nobody''
      else if requires cl \<inter> excludes cl \<noteq> {} then
        Some ''`excludes` names a flag `requires` demands''
      else if list_ex (\<lambda>group. group \<subseteq> requires cl) (not_all_of cl) then
        Some ''a `not_all_of` group holds only flags `requires` demands''
      else if list_ex (\<lambda>group. group = {}) (any_of cl) then
        Some ''an `any_of` group is empty, so nothing satisfies it''
      else if list_ex (\<lambda>group. group \<subseteq> excludes cl) (any_of cl) then
        Some ''`excludes` covers every member of an `any_of` group''
      else None)"

definition unmatchable_reason :: "json \<Rightarrow> string option" where
  "unmatchable_reason body =
     Option.bind (clauses_parse body) (\<lambda>cl.
       if list_ex (\<lambda>group. group = {}) (not_all_of cl) then
         Some ''an empty `not_all_of` group excludes every client, whatever its id or flags''
       else
         Option.bind
           (if effective_roster_empty cl body then capability_branch_reason cl else None)
           (\<lambda>branch. Some (dead_roster_reason body @ '', and '' @ branch)))"

section \<open>Whether a finished run still answers a changed job\<close>

definition is_routing_flag :: "string \<Rightarrow> bool" where
  "is_routing_flag flag \<longleftrightarrow> is_tag_capability flag \<or> client_version_of flag \<noteq> None"

definition REQUIRED_FLAGS :: string where
  "REQUIRED_FLAGS = ''required_flags''"

definition required_flags :: "json \<Rightarrow> string set option" where
  "required_flags body =
     (case get body REQUIRED_FLAGS of
        None \<Rightarrow> Some {}
      | Some flags \<Rightarrow> Option.bind (as_array flags) flag_set)"

record measured =
  m_requires :: "string set"
  m_excludes :: "string set"
  m_any_of :: "string set set"
  m_not_all_of :: "string set set"

definition routes :: "string set \<Rightarrow> string \<Rightarrow> bool" where
  "routes required flag \<longleftrightarrow> is_routing_flag flag \<and> flag \<notin> required"

definition measured_groups :: "string set \<Rightarrow> string set list \<Rightarrow> string set set" where
  "measured_groups required groups =
     set (filter (\<lambda>group. group = {} \<or> \<not> (\<forall>f \<in> group. routes required f)) groups)"

definition measured_of :: "clauses \<Rightarrow> string set \<Rightarrow> measured" where
  "measured_of cl required =
     \<lparr>m_requires = {f \<in> requires cl. \<not> routes required f},
      m_excludes = {f \<in> excludes cl. \<not> routes required f},
      m_any_of = measured_groups required (any_of cl),
      m_not_all_of = measured_groups required (not_all_of cl)\<rparr>"

definition positive_flags :: "measured \<Rightarrow> string set" where
  "positive_flags m = m_requires m \<union> \<Union> (m_any_of m)"

definition met_by :: "measured \<Rightarrow> string set \<Rightarrow> bool" where
  "met_by m flags \<longleftrightarrow> m_requires m \<subseteq> flags \<and> (\<forall>group \<in> m_any_of m. group \<inter> flags \<noteq> {})"

definition run_answers :: "json \<Rightarrow> json \<Rightarrow> string set \<Rightarrow> bool" where
  "run_answers before after run =
     (case (clauses_parse before, clauses_parse after, required_flags before, required_flags after) of
        (Some was_clauses, Some now_clauses, Some was_required, Some now_required) \<Rightarrow>
          let was = measured_of was_clauses was_required;
              now = measured_of now_clauses now_required;
              roster_run = \<not> effective_roster_empty was_clauses before in
          if was = now \<and> \<not> roster_run then True
          else if \<not> m_excludes now \<subseteq> m_excludes was \<or> \<not> m_not_all_of now \<subseteq> m_not_all_of was then False
          else
            let held = (if roster_run then {} else requires was_clauses) in
            (\<forall>flag \<in> positive_flags now.
               is_reserved_capability flag \<or> client_version_of flag \<noteq> None \<or> flag \<in> held)
            \<and> met_by now (run \<union> held)
      | _ \<Rightarrow> False)"

section \<open>Reports on a fleet\<close>

record narrowing_clauses =
  n_clients :: "string list"
  n_exclude_clients :: "string list"
  n_requires :: "string list"
  n_excludes :: "string list"
  n_any_of :: "string list list"
  n_not_all_of :: "string list list"

definition default_clauses :: narrowing_clauses where
  "default_clauses =
     \<lparr>n_clients = [], n_exclude_clients = [], n_requires = [], n_excludes = [],
      n_any_of = [], n_not_all_of = []\<rparr>"

definition json_strs :: "string list \<Rightarrow> json" where
  "json_strs ss = JArr (map JStr ss)"

definition body_of :: "narrowing_clauses \<Rightarrow> json" where
  "body_of c =
     JObj
       [(''clients'', json_strs (n_clients c)),
        (''exclude_clients'', json_strs (n_exclude_clients c)),
        (''requires'', json_strs (n_requires c)),
        (''any_of'', JArr (map json_strs (n_any_of c))),
        (''excludes'', json_strs (n_excludes c)),
        (''not_all_of'', JArr (map json_strs (n_not_all_of c)))]"

record narrowing_rung =
  clause :: string
  surviving_client_count :: nat

definition flags_label :: "string list \<Rightarrow> string" where
  "flags_label flags = join '', '' flags"

definition groups_label :: "string list list \<Rightarrow> string" where
  "groups_label groups = join '' & '' (map (\<lambda>group. ''['' @ flags_label group @ '']'') groups)"

definition surviving :: "ext \<Rightarrow> client list \<Rightarrow> fleet_tags \<Rightarrow> json \<Rightarrow> nat" where
  "surviving x clients tags body =
     length (filter (\<lambda>client. job_matches_client x body client tags) clients)"

definition narrow_fleet ::
  "ext \<Rightarrow> narrowing_clauses \<Rightarrow> client list \<Rightarrow> fleet_tags \<Rightarrow> narrowing_rung list" where
  "narrow_fleet x c clients tags =
     (if n_requires c = [] then []
      else
        let excluded = set (n_exclude_clients c);
            admitted_ids = length (filter (\<lambda>client. client_id client \<notin> excluded) clients);
            rung = (\<lambda>label prefix.
              \<lparr>clause = label, surviving_client_count = surviving x clients tags (body_of prefix)\<rparr>);
            p0 = default_clauses\<lparr>n_exclude_clients := n_exclude_clients c, n_requires := n_requires c\<rparr>;
            p1 = (if n_excludes c = [] then p0 else p0\<lparr>n_excludes := n_excludes c\<rparr>);
            p2 = (if n_any_of c = [] then p1 else p1\<lparr>n_any_of := n_any_of c\<rparr>);
            p3 = (if n_not_all_of c = [] then p2 else p2\<lparr>n_not_all_of := n_not_all_of c\<rparr>) in
        (if n_exclude_clients c = [] then []
         else [\<lparr>clause = ''exclude_clients '' @ flags_label (n_exclude_clients c),
                surviving_client_count = admitted_ids\<rparr>])
        @ [rung (''requires '' @ flags_label (n_requires c)) p0]
        @ (if n_excludes c = [] then [] else [rung (''excludes '' @ flags_label (n_excludes c)) p1])
        @ (if n_any_of c = [] then [] else [rung (''any_of '' @ groups_label (n_any_of c)) p2])
        @ (if n_not_all_of c = [] then []
           else [rung (''not_all_of '' @ groups_label (n_not_all_of c)) p3]))"

record roster_standing =
  listed :: nat
  registered :: nat
  approved :: nat
  working :: nat
  eligible :: nat

text \<open>\<open>HashMap\<close> collected from pairs: a later client with the same id replaces an earlier one.\<close>

definition by_id :: "client list \<Rightarrow> client_id \<Rightarrow> client option" where
  "by_id fleet i = find (\<lambda>c. client_id c = i) (rev fleet)"

definition roster_body :: "narrowing_clauses \<Rightarrow> json" where
  "roster_body c =
     body_of (default_clauses\<lparr>n_clients := n_clients c, n_exclude_clients := n_exclude_clients c,
       n_excludes := n_excludes c, n_not_all_of := n_not_all_of c\<rparr>)"

definition roster_registered :: "narrowing_clauses \<Rightarrow> client list \<Rightarrow> client list" where
  "roster_registered c fleet = List.map_filter (by_id fleet) (sorted_list_of_set (set (n_clients c)))"

definition roster_standing_of ::
  "ext \<Rightarrow> narrowing_clauses \<Rightarrow> client list \<Rightarrow> fleet_rights \<Rightarrow> fleet_tags \<Rightarrow> roster_standing" where
  "roster_standing_of x c fleet rights tags =
     (let ids = sorted_list_of_set (set (n_clients c));
          reg = roster_registered c fleet;
          app = filter (\<lambda>client. status client = Approved) reg;
          wrk = filter (\<lambda>client. holds_perform_work rights (client_id client)) app in
      \<lparr>listed = length ids, registered = length reg, approved = length app, working = length wrk,
       eligible = length (filter (\<lambda>client. job_matches_client x (roster_body c) client tags) wrk)\<rparr>)"

text \<open>\<open>StarvedClauses\<close> has the same six lists as \<^typ>\<open>narrowing_clauses\<close>.\<close>

definition describe_clauses :: "narrowing_clauses \<Rightarrow> string" where
  "describe_clauses c =
     (let parts =
        (if n_requires c = [] then [] else [''requiring '' @ flags_label (n_requires c)])
        @ (if n_excludes c = [] then [] else [''excluding flags '' @ flags_label (n_excludes c)])
        @ (if n_any_of c = [] then [] else [''with any-of '' @ groups_label (n_any_of c)])
        @ (if n_not_all_of c = [] then [] else [''with not-all-of '' @ groups_label (n_not_all_of c)])
        @ (if n_clients c = [] then [] else [''pinned to '' @ flags_label (n_clients c)])
        @ (if n_exclude_clients c = [] then []
           else [''excluding clients '' @ flags_label (n_exclude_clients c)]) in
      if parts = [] then ''with no eligibility'' else join '' '' parts)"

section \<open>The matcher on the documented formula\<close>

lemma flag_set_strs [simp]: "flag_set (map JStr ss) = Some (set ss)"
  using collect_opt_map [of ss as_str JStr "\<lambda>s. s"] by (simp add: flag_set_def)

lemma flag_groups_strs:
  "collect_opt (\<lambda>group. Option.bind (as_array group) flag_set) (map json_strs gs) = Some (map set gs)"
  by (rule collect_opt_map) (simp add: json_strs_def)

lemma get_body_of [simp]:
  "get (body_of c) ''clients'' = Some (json_strs (n_clients c))"
  "get (body_of c) ''exclude_clients'' = Some (json_strs (n_exclude_clients c))"
  "get (body_of c) ''requires'' = Some (json_strs (n_requires c))"
  "get (body_of c) ''any_of'' = Some (JArr (map json_strs (n_any_of c)))"
  "get (body_of c) ''excludes'' = Some (json_strs (n_excludes c))"
  "get (body_of c) ''not_all_of'' = Some (JArr (map json_strs (n_not_all_of c)))"
  by (simp_all add: body_of_def)

lemma clauses_parse_body_of [simp]:
  "clauses_parse (body_of c) = Some
     \<lparr>requires = set (n_requires c), excludes = set (n_excludes c),
      exclude_clients = set (n_exclude_clients c), any_of = map set (n_any_of c),
      not_all_of = map set (n_not_all_of c)\<rparr>"
  by (simp add: clauses_parse_def job_requires_def job_excludes_def job_exclude_clients_def
      job_any_of_def job_not_all_of_def flag_groups_def flag_groups_strs)
    (simp add: json_strs_def)

lemma required_flags_body_of: "required_flags (body_of c) = Some {}"
  by (simp add: required_flags_def REQUIRED_FLAGS_def body_of_def)

lemma client_listed_body_of [simp]: "client_listed (body_of c) i \<longleftrightarrow> i \<in> set (n_clients c)"
  by (auto simp: client_listed_def json_strs_def list_ex_iff)

text \<open>The formula in the documentation of \<open>job_matches_client\<close>.\<close>

definition excluded_spec :: "narrowing_clauses \<Rightarrow> client_id \<Rightarrow> string set \<Rightarrow> bool" where
  "excluded_spec c i caps \<longleftrightarrow>
     i \<in> set (n_exclude_clients c)
     \<or> set (n_excludes c) \<inter> caps \<noteq> {}
     \<or> (\<exists>group \<in> set (n_not_all_of c). set group \<subseteq> caps)"

definition eligible_spec :: "narrowing_clauses \<Rightarrow> client_id \<Rightarrow> string set \<Rightarrow> bool" where
  "eligible_spec c i caps \<longleftrightarrow>
     \<not> excluded_spec c i caps
     \<and> (i \<in> set (n_clients c)
        \<or> n_requires c \<noteq> [] \<and> set (n_requires c) \<subseteq> caps
          \<and> (\<forall>group \<in> set (n_any_of c). set group \<inter> caps \<noteq> {}))"

lemma job_matches_body_of:
  "job_matches_client x (body_of c) client tags \<longleftrightarrow>
     eligible_spec c (client_id client) (capabilities_of x tags client)"
  by (simp add: job_matches_client_def admit_def excludes_client_def capabilities_satisfy_def
      eligible_spec_def excluded_spec_def list_ex_iff list_all_iff)

lemma set_effective_roster:
  "set (effective_roster cl body) = {i. client_listed body i \<and> i \<notin> exclude_clients cl}"
  by (cases "Option.bind (get body ''clients'') as_array")
    (auto simp: effective_roster_def client_listed_def set_map_filter list_ex_iff)

lemma admit_not_excluded: "admit cl body i caps \<Longrightarrow> i \<notin> exclude_clients cl"
  by (simp add: admit_def excludes_client_def)

lemma admit_cases:
  assumes "admit cl body i caps"
  obtains (roster) "i \<in> set (effective_roster cl body)"
    | (capabilities) "capabilities_satisfy (requires cl) (any_of cl) caps"
        "excludes cl \<inter> caps = {}" "\<forall>group \<in> set (not_all_of cl). \<not> group \<subseteq> caps"
  using assms by (auto simp: admit_def excludes_client_def list_ex_iff set_effective_roster)

text \<open>A dead capability branch admits no set of flags.\<close>

lemma capability_branch_dead:
  assumes "capability_branch_reason cl = Some r"
    and "capabilities_satisfy (requires cl) (any_of cl) caps"
    and "excludes cl \<inter> caps = {}" "\<forall>group \<in> set (not_all_of cl). \<not> group \<subseteq> caps"
  shows False
  using assms
  by (fastforce simp: capability_branch_reason_def capabilities_satisfy_def list_ex_iff
      list_all_iff split: if_splits)

lemma unmatchable_admits_nobody:
  assumes "unmatchable_reason body = Some r" "clauses_parse body = Some cl"
  shows "\<not> admit cl body i caps"
proof
  assume adm: "admit cl body i caps"
  then have "\<forall>group \<in> set (not_all_of cl). \<not> group \<subseteq> caps"
    by (auto simp: admit_def excludes_client_def list_ex_iff)
  then have "\<not> list_ex (\<lambda>group. group = {}) (not_all_of cl)"
    by (auto simp: list_ex_iff)
  with assms obtain r' where "effective_roster cl body = []" "capability_branch_reason cl = Some r'"
    by (auto simp: unmatchable_reason_def effective_roster_empty_def bind_eq_Some_conv
        split: if_splits)
  then show False
    by (cases rule: admit_cases [OF adm]) (auto dest: capability_branch_dead)
qed

section \<open>Fleet reports agree with the matcher\<close>

lemma filter_length_mono: "(\<And>a. a \<in> set xs \<Longrightarrow> P a \<Longrightarrow> Q a) \<Longrightarrow> length (filter P xs) \<le> length (filter Q xs)"
  by (induction xs) auto

lemma surviving_mono:
  assumes "\<And>i caps. eligible_spec p i caps \<Longrightarrow> eligible_spec q i caps"
  shows "surviving x clients tags (body_of p) \<le> surviving x clients tags (body_of q)"
  unfolding surviving_def using assms by (intro filter_length_mono) (simp add: job_matches_body_of)

definition prefix0 :: "narrowing_clauses \<Rightarrow> narrowing_clauses" where
  "prefix0 c = default_clauses\<lparr>n_exclude_clients := n_exclude_clients c, n_requires := n_requires c\<rparr>"

definition prefix1 :: "narrowing_clauses \<Rightarrow> narrowing_clauses" where
  "prefix1 c = (prefix0 c)\<lparr>n_excludes := n_excludes c\<rparr>"

definition prefix2 :: "narrowing_clauses \<Rightarrow> narrowing_clauses" where
  "prefix2 c = (prefix1 c)\<lparr>n_any_of := n_any_of c\<rparr>"

definition prefix3 :: "narrowing_clauses \<Rightarrow> narrowing_clauses" where
  "prefix3 c = (prefix2 c)\<lparr>n_not_all_of := n_not_all_of c\<rparr>"

lemmas prefix_defs = prefix0_def prefix1_def prefix2_def prefix3_def default_clauses_def

lemma prefix3_eq: "prefix3 c = c\<lparr>n_clients := []\<rparr>"
  by (simp add: prefix_defs)

lemma prefix_empty:
  "n_excludes c = [] \<Longrightarrow> prefix1 c = prefix0 c"
  "n_any_of c = [] \<Longrightarrow> prefix2 c = prefix1 c"
  "n_not_all_of c = [] \<Longrightarrow> prefix3 c = prefix2 c"
  by (simp_all add: prefix_defs)

lemma prefix_narrows:
  "eligible_spec (prefix3 c) i caps \<Longrightarrow> eligible_spec (prefix2 c) i caps"
  "eligible_spec (prefix2 c) i caps \<Longrightarrow> eligible_spec (prefix1 c) i caps"
  "eligible_spec (prefix1 c) i caps \<Longrightarrow> eligible_spec (prefix0 c) i caps"
  "eligible_spec (prefix0 c) i caps \<Longrightarrow> i \<notin> set (n_exclude_clients c)"
  by (auto simp: eligible_spec_def excluded_spec_def prefix_defs)

lemma prefix_ifs:
  "(if n_excludes c = [] then prefix0 c else (prefix0 c)\<lparr>n_excludes := n_excludes c\<rparr>) = prefix1 c"
  "(if n_any_of c = [] then prefix1 c else (prefix1 c)\<lparr>n_any_of := n_any_of c\<rparr>) = prefix2 c"
  "(if n_not_all_of c = [] then prefix2 c else (prefix2 c)\<lparr>n_not_all_of := n_not_all_of c\<rparr>) = prefix3 c"
  by (simp_all add: prefix_defs)

lemma narrow_fleet_counts:
  assumes "n_requires c \<noteq> []"
  shows "map surviving_client_count (narrow_fleet x c clients tags) =
    (if n_exclude_clients c = [] then []
     else [length (filter (\<lambda>client. client_id client \<notin> set (n_exclude_clients c)) clients)])
    @ [surviving x clients tags (body_of (prefix0 c))]
    @ (if n_excludes c = [] then [] else [surviving x clients tags (body_of (prefix1 c))])
    @ (if n_any_of c = [] then [] else [surviving x clients tags (body_of (prefix2 c))])
    @ (if n_not_all_of c = [] then [] else [surviving x clients tags (body_of (prefix3 c))])"
  unfolding narrow_fleet_def Let_def prefix0_def [symmetric] prefix_ifs using assms by simp

lemma last_rung:
  "n_requires c \<noteq> [] \<Longrightarrow>
   last (map surviving_client_count (narrow_fleet x c clients tags)) =
     surviving x clients tags (body_of (prefix3 c))"
  unfolding narrow_fleet_counts by (simp add: prefix_empty)

text \<open>
  The ladder of \<open>narrow_fleet\<close> tells the truth about the scheduler: for a job with a
  non-empty \<open>requires\<close> its counts never increase from rung to rung, none exceeds the fleet,
  and the last one is the number of clients the same clauses match without their roster.
\<close>

theorem narrow_fleet_ladder:
  assumes "n_requires c \<noteq> []"
  shows "narrow_fleet x c clients tags \<noteq> []
    \<and> sorted_wrt (\<ge>) (map surviving_client_count (narrow_fleet x c clients tags))
    \<and> (\<forall>rung \<in> set (narrow_fleet x c clients tags). surviving_client_count rung \<le> length clients)
    \<and> surviving_client_count (last (narrow_fleet x c clients tags)) =
        length (filter (\<lambda>client. job_matches_client x (body_of (c\<lparr>n_clients := []\<rparr>)) client tags) clients)"
proof -
  let ?counts = "map surviving_client_count (narrow_fleet x c clients tags)"
  have ne: "narrow_fleet x c clients tags \<noteq> []"
    using narrow_fleet_counts [OF assms, of x clients tags] by auto
  have mono: "surviving x clients tags (body_of (prefix3 c)) \<le> surviving x clients tags (body_of (prefix2 c))"
    "surviving x clients tags (body_of (prefix2 c)) \<le> surviving x clients tags (body_of (prefix1 c))"
    "surviving x clients tags (body_of (prefix1 c)) \<le> surviving x clients tags (body_of (prefix0 c))"
    by (rule surviving_mono, erule prefix_narrows)+
  have head: "surviving x clients tags (body_of (prefix0 c))
      \<le> length (filter (\<lambda>client. client_id client \<notin> set (n_exclude_clients c)) clients)"
    unfolding surviving_def
    by (rule filter_length_mono) (simp add: job_matches_body_of prefix_narrows(4))
  have "sorted_wrt (\<ge>) ?counts"
    unfolding narrow_fleet_counts [OF assms] using mono head
    by (simp add: prefix_empty)
  moreover have "\<forall>n \<in> set ?counts. n \<le> length clients"
    unfolding narrow_fleet_counts [OF assms] by (auto simp: surviving_def split: if_splits)
  moreover have "surviving_client_count (last (narrow_fleet x c clients tags)) = last ?counts"
    using ne by (simp add: last_map)
  ultimately show ?thesis
    using ne by (simp add: last_rung [OF assms] prefix3_eq surviving_def)
qed

definition sample_profile :: device_profile where
  "sample_profile =
     \<lparr>device_name = None, device_form_factor = None, device_os_name = None,
      device_os_version = None, device_cpu_arch = None, device_os_family = None,
      device_chip_model = None, device_ram_bytes = None, device_gpu_model = None,
      device_gpu_vram_bytes = None, device_npu_model = None, device_npu_vram_bytes = None\<rparr>"

definition sample_client :: "client_id \<Rightarrow> string set \<Rightarrow> client" where
  "sample_client i flags =
     \<lparr>client_id = i, public_key = [], organization = ''o'', client_details = ''d'',
      contact_email = ''e'', status = Approved, registered_at = 0,
      device_profile = sample_profile, capabilities = flags\<rparr>"

definition sample_clauses :: narrowing_clauses where
  "sample_clauses =
     default_clauses\<lparr>n_requires := [''a''], n_excludes := [''b''], n_any_of := [[''c'', ''d'']]\<rparr>"

lemma sample_capabilities [simp]:
  "client_id (sample_client i flags) = i" "status (sample_client i flags) = Approved"
  "effective_capabilities x (sample_client i flags) = flags"
  "capabilities_of x (\<lambda>_. None) (sample_client i flags) = {f \<in> flags. \<not> is_tag_capability f}"
  by (simp_all add: sample_client_def sample_profile_def capabilities_of_def
      effective_capabilities_def normalized_flags_def string_flag_def count_flag_def)

theorem narrow_fleet_ladder_witness:
  "map surviving_client_count
     (narrow_fleet sample_ext sample_clauses [sample_client ''x'' {''a''}] (\<lambda>_. None)) = [1, 1, 0]
   \<and> surviving_client_count
       (last (narrow_fleet sample_ext sample_clauses [sample_client ''x'' {''a''}] (\<lambda>_. None))) =
      length (filter (\<lambda>client. job_matches_client sample_ext (body_of (sample_clauses\<lparr>n_clients := []\<rparr>))
        client (\<lambda>_. None)) [sample_client ''x'' {''a''}])"
proof -
  have "n_requires sample_clauses \<noteq> []"
    by (simp add: sample_clauses_def)
  from narrow_fleet_ladder [OF this, of sample_ext "[sample_client ''x'' {''a''}]" "\<lambda>_. None"] this
  show ?thesis
    by (simp add: narrow_fleet_counts surviving_def job_matches_body_of eligible_spec_def
        excluded_spec_def prefix_defs sample_clauses_def is_tag_capability_def)
qed

text \<open>
  C29: The matcher computes the documented formula. On a body made of the six eligibility
  clauses a client matches exactly when it is not excluded (by id, by an excluded flag, or by
  holding all of a \<open>not_all_of\<close> group) and is listed or meets a non-empty \<open>requires\<close> and
  every \<open>any_of\<close> group, where its flags are its effective capabilities without the \<open>tag:\<close>
  flags it reported itself, plus the tags an operator assigned.
\<close>

theorem job_matches_client_formula:
  "job_matches_client x (body_of c) client tags \<longleftrightarrow>
     (let caps = {f \<in> effective_capabilities x client. \<not> (\<exists>t. f = tag_flag t)}
                 \<union> {tag_flag t | t. \<exists>ts. tags (client_id client) = Some ts \<and> t \<in> ts} in
      \<not> (client_id client \<in> set (n_exclude_clients c)
         \<or> set (n_excludes c) \<inter> caps \<noteq> {}
         \<or> (\<exists>group \<in> set (n_not_all_of c). set group \<subseteq> caps))
      \<and> (client_id client \<in> set (n_clients c)
         \<or> n_requires c \<noteq> [] \<and> set (n_requires c) \<subseteq> caps
           \<and> (\<forall>group \<in> set (n_any_of c). set group \<inter> caps \<noteq> {})))"
proof -
  have "{f \<in> effective_capabilities x client. \<not> (\<exists>t. f = tag_flag t)}
      \<union> {tag_flag t | t. \<exists>ts. tags (client_id client) = Some ts \<and> t \<in> ts}
      = capabilities_of x tags client"
    by (auto simp: capabilities_of_def is_tag_capability_iff split: option.splits)
  then show ?thesis
    by (simp add: Let_def job_matches_body_of eligible_spec_def excluded_spec_def)
qed

theorem job_matches_client_formula_witness:
  "job_matches_client sample_ext (body_of sample_clauses) (sample_client ''x'' {''a'', ''d''}) (\<lambda>_. None)"
  unfolding job_matches_client_formula
  by (simp add: sample_clauses_def default_clauses_def tag_flag_def TAG_NAMESPACE_def)

text \<open>
  C30: Retiring a job as unmatchable never loses a match: a body that is malformed, or for
  which \<open>unmatchable_reason\<close> gives a reason, matches no client whatsoever, with no tags or any.
\<close>

theorem retired_bodies_match_nobody:
  assumes "capability_clauses_malformed body \<or> (\<exists>reason. unmatchable_reason body = Some reason)"
  shows "\<not> job_matches_client x body client tags"
  using assms unmatchable_admits_nobody
  by (cases "clauses_parse body")
    (auto simp: job_matches_client_def capability_clauses_malformed_def)

theorem retired_bodies_match_nobody_witness:
  "unmatchable_reason (body_of (sample_clauses\<lparr>n_excludes := [''c'', ''d'']\<rparr>)) \<noteq> None
   \<and> \<not> job_matches_client sample_ext (body_of (sample_clauses\<lparr>n_excludes := [''c'', ''d'']\<rparr>))
        (sample_client ''x'' {''a'', ''d''}) (\<lambda>_. None)"
proof -
  have *: "unmatchable_reason (body_of (sample_clauses\<lparr>n_excludes := [''c'', ''d'']\<rparr>)) \<noteq> None"
    by (simp add: unmatchable_reason_def effective_roster_empty_def effective_roster_def
        capability_branch_reason_def sample_clauses_def default_clauses_def json_strs_def
        List.map_filter_simps)
  with retired_bodies_match_nobody [of "body_of (sample_clauses\<lparr>n_excludes := [''c'', ''d'']\<rparr>)"]
  show ?thesis
    by blast
qed

text \<open>
  C31: Escalating a \<open>clients\<close>-only job once its roster is exhausted is sound: when
  \<open>clients_only_roster\<close> gives a roster, every client the job ever matches is on it, and it
  names no excluded client.
\<close>

theorem clients_only_roster_closed:
  assumes "clients_only_roster body = Some roster"
  shows "roster \<noteq> [] \<and> (\<forall>i \<in> set roster. client_listed body i)
    \<and> (job_matches_client x body client tags \<longrightarrow> client_id client \<in> set roster)"
proof -
  from assms obtain cl where cl: "clauses_parse body = Some cl" "requires cl = {}" "roster \<noteq> []"
    "roster = effective_roster cl body"
    by (auto simp: clients_only_roster_def bind_eq_Some_conv Let_def split: if_splits)
  then show ?thesis
    by (auto simp: job_matches_client_def set_effective_roster capabilities_satisfy_def
        elim!: admit_cases)
qed

theorem clients_only_roster_closed_witness:
  "let body = body_of (default_clauses\<lparr>n_clients := [''x'', ''y''], n_exclude_clients := [''x'']\<rparr>) in
   clients_only_roster body = Some [''y'']
   \<and> \<not> job_matches_client sample_ext body (sample_client ''z'' {''a''}) (\<lambda>_. None)"
proof -
  let ?body = "body_of (default_clauses\<lparr>n_clients := [''x'', ''y''], n_exclude_clients := [''x'']\<rparr>)"
  have "clients_only_roster ?body = Some [''y'']"
    by (simp add: clients_only_roster_def effective_roster_def default_clauses_def json_strs_def
        List.map_filter_simps)
  with clients_only_roster_closed [OF this, of sample_ext "sample_client ''z'' {''a''}" "\<lambda>_. None"]
  show ?thesis
    by (auto simp: Let_def)
qed

section \<open>Rosters, builds and finished runs\<close>

lemma by_id_Some: "by_id fleet i = Some c \<Longrightarrow> c \<in> set fleet \<and> client_id c = i"
  unfolding by_id_def by (drule find_Some_in) simp

lemma by_id_registered:
  assumes "distinct (map client_id fleet)" "c \<in> set fleet"
  shows "by_id fleet (client_id c) = Some c"
proof -
  have "find (\<lambda>d. client_id d = client_id c) (rev fleet) \<noteq> None"
    using assms(2) by (auto simp: find_None_iff)
  then obtain d where "by_id fleet (client_id c) = Some d"
    by (auto simp: by_id_def)
  then show ?thesis
    using assms by_id_Some [of fleet "client_id c" d] by (auto simp: distinct_map inj_on_def)
qed

lemma set_roster_registered:
  assumes "distinct (map client_id fleet)"
  shows "set (roster_registered c fleet) = {d \<in> set fleet. client_id d \<in> set (n_clients c)}"
  using by_id_registered [OF assms]
  by (auto simp: roster_registered_def set_map_filter dest: by_id_Some)

lemma distinct_roster_registered: "distinct (roster_registered c fleet)"
proof -
  have "distinct ids \<Longrightarrow> distinct (List.map_filter (by_id fleet) ids)" for ids
    by (induction ids)
      (auto simp: List.map_filter_simps set_map_filter dest: by_id_Some split: option.splits)
  then show ?thesis
    by (simp add: roster_registered_def)
qed

lemma roster_body_eligible:
  "job_matches_client x (roster_body c) client tags \<Longrightarrow> client_id client \<in> set (n_clients c)"
  by (simp add: roster_body_def job_matches_body_of eligible_spec_def default_clauses_def)

text \<open>
  \<open>roster_standing\<close> counts what it names. On a fleet with distinct ids its five numbers
  never increase from \<open>listed\<close> to \<open>eligible\<close>, \<open>registered\<close> counts the fleet's clients that are
  on the roster, and \<open>eligible\<close> counts exactly the clients the matcher may offer work to
  (approved, holding \<open>perform_work\<close>) that match the roster and its exclusions.
\<close>

theorem roster_standing_counts:
  assumes "distinct (map client_id fleet)"
  shows "let r = roster_standing_of x c fleet rights tags in
    eligible r \<le> working r \<and> working r \<le> approved r \<and> approved r \<le> registered r
    \<and> registered r \<le> listed r
    \<and> listed r = card (set (n_clients c))
    \<and> registered r = card {d \<in> set fleet. client_id d \<in> set (n_clients c)}
    \<and> eligible r = card {d \<in> set fleet. admits rights d \<and> job_matches_client x (roster_body c) d tags}"
proof -
  let ?reg = "roster_registered c fleet"
  let ?app = "filter (\<lambda>d. status d = Approved) ?reg"
  let ?wrk = "filter (\<lambda>d. holds_perform_work rights (client_id d)) ?app"
  let ?elg = "filter (\<lambda>d. job_matches_client x (roster_body c) d tags) ?wrk"
  have r: "roster_standing_of x c fleet rights tags =
      \<lparr>listed = card (set (n_clients c)), registered = length ?reg, approved = length ?app,
       working = length ?wrk, eligible = length ?elg\<rparr>"
    by (simp add: roster_standing_of_def Let_def)
  have reg: "length ?reg \<le> card (set (n_clients c))"
    using length_map_filter_le [of "by_id fleet" "sorted_list_of_set (set (n_clients c))"]
    by (simp add: roster_registered_def)
  have reg_card: "length ?reg = card {d \<in> set fleet. client_id d \<in> set (n_clients c)}"
    using distinct_card [OF distinct_roster_registered, of c fleet]
    by (simp add: set_roster_registered [OF assms])
  have set_elg: "set ?elg = {d \<in> set fleet. admits rights d \<and> job_matches_client x (roster_body c) d tags}"
    using roster_body_eligible by (auto simp: set_roster_registered [OF assms] admits_def)
  have "distinct ?elg"
    by (intro distinct_filter distinct_roster_registered)
  then have elg: "length ?elg = card {d \<in> set fleet. admits rights d \<and> job_matches_client x (roster_body c) d tags}"
    by (simp only: distinct_card [symmetric] set_elg)
  show ?thesis
    unfolding r Let_def roster_standing.simps
    by (intro conjI length_filter_le reg reg_card elg refl)
qed

theorem roster_standing_counts_witness:
  "let fleet = [sample_client ''x'' {}, sample_client ''y'' {}];
       c = default_clauses\<lparr>n_clients := [''y'', ''z'']\<rparr>;
       r = roster_standing_of sample_ext c fleet (\<lambda>_. Some [Known PerformWork]) (\<lambda>_. None) in
   distinct (map client_id fleet)
   \<and> registered r = card {d \<in> set fleet. client_id d \<in> set (n_clients c)} \<and> registered r \<le> listed r"
proof -
  have "distinct (map client_id [sample_client ''x'' {}, sample_client ''y'' {}])"
    by simp
  from roster_standing_counts [OF this, of sample_ext "default_clauses\<lparr>n_clients := [''y'', ''z'']\<rparr>"
      "\<lambda>_. Some [Known PerformWork]" "\<lambda>_. None"] this
  show ?thesis
    unfolding Let_def by blast
qed

text \<open>
  What it means for flags a run held to answer a job's measured clauses: the positive clauses
  hold, and no negative one applies.
\<close>

definition measured_answered :: "measured \<Rightarrow> string set \<Rightarrow> bool" where
  "measured_answered m caps \<longleftrightarrow>
     met_by m caps \<and> m_excludes m \<inter> caps = {} \<and> (\<forall>group \<in> m_not_all_of m. \<not> group \<subseteq> caps)"

lemma admitted_measured:
  assumes "capabilities_satisfy (requires cl) (any_of cl) caps"
    "excludes cl \<inter> caps = {}" "\<forall>group \<in> set (not_all_of cl). \<not> group \<subseteq> caps"
  shows "measured_answered (measured_of cl required) caps"
  using assms
  by (auto simp: measured_answered_def measured_of_def met_by_def measured_groups_def
      capabilities_satisfy_def list_all_iff)

lemma met_by_mono: "met_by m a \<Longrightarrow> a \<subseteq> b \<Longrightarrow> met_by m b"
  unfolding met_by_def by blast



lemma finite_effective_capabilities [simp]:
  "finite (capabilities c) \<Longrightarrow> finite (effective_capabilities x c)"
  by (simp add: effective_capabilities_def)

definition tags_finite :: "fleet_tags \<Rightarrow> bool" where
  "tags_finite tags \<longleftrightarrow> (\<forall>c ts. tags c = Some ts \<longrightarrow> finite ts)"

lemma finite_capabilities_of:
  "finite (capabilities c) \<Longrightarrow> tags_finite tags \<Longrightarrow> finite (capabilities_of x tags c)"
  by (auto simp: capabilities_of_def tags_finite_def split: option.splits)

lemma version_flag_order:
  "client_version_of f = Some v \<Longrightarrow> client_version_of g = Some w \<Longrightarrow> f < g \<longleftrightarrow> v < w"
  by (simp add: client_version_of_Some_iff CLIENT_VERSION_NAMESPACE_def)

lemma versions_sorted:
  assumes "sorted_wrt (<) fs"
  shows "sorted_wrt (<) (List.map_filter client_version_of fs)"
  using assms
proof (induction fs)
  case (Cons f fs)
  then show ?case
    by (auto simp: List.map_filter_simps set_map_filter version_flag_order split: option.splits)
qed (simp add: List.map_filter_simps)

text \<open>
  \<open>admitted_client_versions\<close> lists, in strictly ascending order, exactly the non-empty
  builds the client reports for which the job admits the client when that build is the only
  one it reports.
\<close>

theorem admitted_client_versions_exact:
  assumes "finite (capabilities client)" "tags_finite tags"
  shows "sorted_wrt (<) (admitted_client_versions x body client tags)
    \<and> (v \<in> set (admitted_client_versions x body client tags) \<longleftrightarrow>
         v \<noteq> [] \<and> CLIENT_VERSION_NAMESPACE @ '':'' @ v \<in> capabilities_of x tags client
         \<and> (\<exists>cl. clauses_parse body = Some cl
              \<and> admit cl body (client_id client)
                  (insert (CLIENT_VERSION_NAMESPACE @ '':'' @ v)
                    {f \<in> capabilities_of x tags client. client_version_of f = None})))"
proof (cases "clauses_parse body")
  case (Some cl)
  let ?caps = "capabilities_of x tags client"
  let ?flags = "filter (\<lambda>f. admit cl body (client_id client)
      (insert f {f \<in> ?caps. client_version_of f = None}))
      (sorted_list_of_set {f \<in> ?caps. client_version_of f \<noteq> None})"
  have eq: "admitted_client_versions x body client tags =
      filter (\<lambda>v. v \<noteq> []) (List.map_filter client_version_of ?flags)"
    by (simp add: admitted_client_versions_def Some Let_def)
  have "sorted_wrt (<) (admitted_client_versions x body client tags)"
    unfolding eq
    by (intro sorted_wrt_filter versions_sorted sorted_list_of_set.strict_sorted_key_list_of_set)
  moreover have "finite {f \<in> ?caps. client_version_of f \<noteq> None}"
    using finite_capabilities_of [OF assms] by simp
  ultimately show ?thesis
    unfolding eq by (auto simp: set_map_filter client_version_of_Some_iff Some)
qed (simp add: admitted_client_versions_def)

theorem admitted_client_versions_exact_witness:
  "''2'' \<in> set (admitted_client_versions sample_ext
      (body_of (default_clauses\<lparr>n_clients := [''x''], n_excludes := [''client_version:1'']\<rparr>))
      (sample_client ''x'' {''client_version:1'', ''client_version:2''}) (\<lambda>_. None))"
proof -
  let ?c = "sample_client ''x'' {''client_version:1'', ''client_version:2''}"
  have "finite (capabilities ?c)" "tags_finite (\<lambda>_. None)"
    by (simp_all add: sample_client_def tags_finite_def)
  from admitted_client_versions_exact [OF this, of sample_ext
      "body_of (default_clauses\<lparr>n_clients := [''x''], n_excludes := [''client_version:1'']\<rparr>)" "''2''"]
  show ?thesis
    by (simp add: default_clauses_def CLIENT_VERSION_NAMESPACE_def admit_def excludes_client_def
        is_tag_capability_def TAG_NAMESPACE_def client_version_of_def)
qed

end
