(* ===== verification/Device_Api.thy ===== *)
theory Device_Api
  imports Resolution Vault Matching "HOL-Library.Product_Lexorder"
begin

text \<open>
  The queue as a device drives it: \<open>claim\<close>, \<open>heartbeat\<close> and \<open>reclaim\<close> of
  \<open>pipette-httpapi/src/client/plans.rs\<close>, each the whole handler after the extractor that
  authenticates a working client. Audit and log lines are left out.

  \<open>app\<close> is what the handlers read besides the queue: the two settings, the organization store,
  the tags of a client, the random tie-breaks (\<open>None\<close> is a failed draw) and which of several
  keys a hash map yields first.
\<close>

section \<open>State and answers\<close>

record app =
  a_ext :: ext
  plan_lease_duration_secs :: nat
  plan_lost_lease_limit :: nat
  a_orgs :: orgs
  a_client_tags :: "client_id \<Rightarrow> (err, tag list) result"
  a_tiebreak :: "nat \<Rightarrow> nat option"
  a_first :: "job_id list \<Rightarrow> job_id"

definition lease_expiry_from :: "app \<Rightarrow> time \<Rightarrow> time" where
  "lease_expiry_from a now = now + int (plan_lease_duration_secs a) * second"

definition client_tags :: "app \<Rightarrow> client_id \<Rightarrow> (err, fleet_tags) result" where
  "client_tags a c =
     res_bind (a_client_tags a c) (\<lambda>tags. Inr (fleet_tags_new (map (Pair c) tags)))"

record claim_fields =
  cf_time_window :: string
  cf_expires_at :: "string option"
  cf_client_versions :: "string list"
  cf_spec :: "json option"

datatype claim_answer =
    AnswerClaimed string string claim_fields
  | AnswerUndecodable "json option" "json option" claim_fields

datatype response = Status nat | ClaimJson claim_answer

abbreviation "NO_CONTENT \<equiv> Status 204"
abbreviation "HTTP_OK \<equiv> Status 200"
abbreviation "NOT_FOUND \<equiv> Status 404"
abbreviation "CONFLICT \<equiv> Status 409"

text \<open>\<open>map_err(AppError::internal)\<close>.\<close>

abbreviation internal :: "'a io \<Rightarrow> 'a io" where
  "internal m \<equiv> io_map_err (E_app Internal) m"

definition forbid :: "string \<Rightarrow> 'a io" where
  "forbid msg = io_raise (E_app (Forbidden msg))"

definition VAULT_OUT_OF_REACH :: string where
  "VAULT_OUT_OF_REACH = ''the job names a vault resource this client may not fetch''"

definition iso8601_duration :: "nat \<Rightarrow> string" where
  "iso8601_duration secs =
     (if secs mod 60 = 0 then ''PT'' @ nat_str (secs div 60) @ ''M'' else ''PT'' @ nat_str secs @ ''S'')"

definition claim_response :: "ext \<Rightarrow> json \<Rightarrow> expires_at \<Rightarrow> nat \<Rightarrow> string list \<Rightarrow> claim_answer" where
  "claim_response x body e secs versions =
     (let spec = non_null (get body ''spec'');
          benchmark = Option.bind (Option.bind spec (\<lambda>s. get s ''benchmark''))
            (\<lambda>b. if is_string b then Some b else None);
          rest = \<lparr>cf_time_window = iso8601_duration secs,
            cf_expires_at = (case e of At _ \<Rightarrow> Some (show_expires_at x e) | Never \<Rightarrow> None),
            cf_client_versions = versions, cf_spec = spec\<rparr> in
      case (get body ''job_id'', benchmark) of
        (Some (JStr job_id), Some (JStr benchmark_id)) \<Rightarrow> AnswerClaimed job_id benchmark_id rest
      | (job_id, benchmark_id) \<Rightarrow> AnswerUndecodable job_id benchmark_id rest)"

section \<open>Suspension and reversal\<close>

definition suspend_if_holding_another_lease ::
  "app \<Rightarrow> client_id \<Rightarrow> job_id \<Rightarrow> time \<Rightarrow> job_id option io" where
  "suspend_if_holding_another_lease a c j now =
     io_bind (internal (list_leased_for_client c)) (\<lambda>keys.
       case find (\<lambda>l. l_job_id l \<noteq> j \<and> now < l_lease_expiry l)
           (List.map_filter (ok \<circ> parse_leased_key (a_ext a)) keys) of
         None \<Rightarrow> io_ret None
       | Some other \<Rightarrow>
           io_bind (internal (write_suspension c now (l_job_id other))) (\<lambda>_.
             io_ret (Some (l_job_id other))))"

datatype reverted = PendingReindex | SecondLease job_id

definition revert_claim_if_void ::
  "app \<Rightarrow> client_id \<Rightarrow> job_id \<Rightarrow> expires_at \<Rightarrow> time \<Rightarrow> time \<Rightarrow> reverted option io" where
  "revert_claim_if_void a c j e t now =
     io_bind (internal (has_pending_reindex c)) (\<lambda>flagged.
     io_bind
       (if flagged then io_ret (Some PendingReindex)
        else io_bind (suspend_if_holding_another_lease a c j now) (\<lambda>other.
          io_ret (map_option SecondLease other)))
       (\<lambda>reason.
          case reason of
            None \<Rightarrow> io_ret None
          | Some r \<Rightarrow>
              io_bind (internal (resolve_or_recycle_lease (a_ext a) j e c t)) (\<lambda>_. io_ret (Some r))))"

definition put_back_out_of_vault_reach ::
  "app \<Rightarrow> client_id \<Rightarrow> job_id \<Rightarrow> expires_at \<Rightarrow> time \<Rightarrow> time option \<Rightarrow> unit io" where
  "put_back_out_of_vault_reach a c j e t at =
     io_bind
       (case at of
          None \<Rightarrow> io_ret ()
        | Some now \<Rightarrow>
            internal (write_denied (a_ext a) j c (denial_record_new now VAULT_OUT_OF_REACH None None)))
       (\<lambda>_. io_bind (internal (resolve_or_recycle_lease (a_ext a) j e c t)) (\<lambda>_. io_ret ()))"

definition revert_claim_if_out_of_vault_reach ::
  "app \<Rightarrow> client_id \<Rightarrow> job_id \<Rightarrow> json \<Rightarrow> expires_at \<Rightarrow> time \<Rightarrow> time \<Rightarrow> bool io" where
  "revert_claim_if_out_of_vault_reach a c j body e t now =
     (case client_may_fetch_job (a_orgs a) c body of
        Inr True \<Rightarrow> io_ret False
      | Inr False \<Rightarrow>
          io_bind (put_back_out_of_vault_reach a c j e t (Some now)) (\<lambda>_. io_ret True)
      | Inl _ \<Rightarrow> io_bind (put_back_out_of_vault_reach a c j e t None) (\<lambda>_. io_ret True))"

definition refuse_renewal_out_of_vault_reach :: "app \<Rightarrow> client_id \<Rightarrow> job_id \<Rightarrow> time \<Rightarrow> unit io" where
  "refuse_renewal_out_of_vault_reach a c j now =
     io_bind (internal (own_leased_body (a_ext a) c j)) (\<lambda>leased.
       case leased of
         None \<Rightarrow> io_ret ()
       | Some (e, t, body) \<Rightarrow>
           (case client_may_fetch_job (a_orgs a) c body of
              Inl err \<Rightarrow> io_raise (E_app err)
            | Inr True \<Rightarrow> io_ret ()
            | Inr False \<Rightarrow>
                io_bind (put_back_out_of_vault_reach a c j e t (Some now)) (\<lambda>_. forbid VAULT_OUT_OF_REACH)))"

section \<open>Claim\<close>

definition claim_at_current_key ::
  "ext \<Rightarrow> client_id \<Rightarrow> job_id \<Rightarrow> expires_at \<Rightarrow> time \<Rightarrow> time \<Rightarrow> (expires_at \<times> json) option io" where
  "claim_at_current_key x c j marker_expires_at lease_expiry now =
     io_bind (claim_job x j marker_expires_at c lease_expiry) (\<lambda>r.
       case r of
         Claimed body \<Rightarrow> io_ret (Some (marker_expires_at, body))
       | ClaimGone \<Rightarrow>
           io_bind (avail_key_for_job j) (\<lambda>name.
             case Option.bind name (\<lambda>n. map_option snd (ok (parse_avail_filename x n))) of
               None \<Rightarrow> io_ret None
             | Some current \<Rightarrow>
                 if current = marker_expires_at \<or> is_expired current now then io_ret None
                 else io_bind (claim_job x j current c lease_expiry) (\<lambda>r.
                   io_ret (case r of Claimed body \<Rightarrow> Some (current, body) | ClaimGone \<Rightarrow> None))))"

text \<open>
  The live leases of a listing: the jobs other clients hold, and the client's own, one per job
  (the later of two keys of one renewal), in the order of the listing.
\<close>

type_synonym own_live = "(job_id \<times> expires_at \<times> time) list"

fun note_lease :: "client_id \<Rightarrow> time \<Rightarrow> lease \<Rightarrow> job_id set \<times> own_live \<Rightarrow> job_id set \<times> own_live" where
  "note_lease c now l (taken, own) =
     (if l_lease_expiry l \<le> now then (taken, own)
      else if l_client_id l = c then
        (taken,
         case map_of own (l_job_id l) of
           None \<Rightarrow> own @ [(l_job_id l, l_expires_at l, l_lease_expiry l)]
         | Some (_, t) \<Rightarrow>
             if t < l_lease_expiry l
             then AList.update (l_job_id l) (l_expires_at l, l_lease_expiry l) own else own)
      else (insert (l_job_id l) taken, own))"

definition live_leases :: "ext \<Rightarrow> client_id \<Rightarrow> time \<Rightarrow> string list \<Rightarrow> job_id set \<times> own_live" where
  "live_leases x c now keys =
     fold (note_lease c now) (List.map_filter (ok \<circ> parse_leased_key x) keys) ({}, [])"

text \<open>A re-poll of a held job: \<open>None\<close> when the lease has left the key the listing named.\<close>

definition hand_back ::
  "app \<Rightarrow> client \<Rightarrow> time \<Rightarrow> job_id \<Rightarrow> expires_at \<Rightarrow> time \<Rightarrow> response option io" where
  "hand_back a client now j e t =
     (let c = client_id client in
      io_bind (internal (get_leased (a_ext a) j e c t)) (\<lambda>body.
        case body of
          None \<Rightarrow> io_ret None
        | Some body \<Rightarrow>
            io_bind (internal (has_pending_reindex c)) (\<lambda>flagged.
              if flagged then io_ret (Some NO_CONTENT)
              else io_bind (revert_claim_if_out_of_vault_reach a c j body e t now) (\<lambda>gone.
                if gone then io_ret (Some NO_CONTENT)
                else
                  io_bind
                    (if plan_lost_lease_limit a > 0 then
                       io_bind (internal (write_lost_lease (a_ext a) j c t)) (\<lambda>_.
                       io_bind (internal (list_lost_leases (a_ext a) j)) (\<lambda>losses.
                         io_ret (plan_lost_lease_limit a \<le> length losses)))
                     else io_ret False)
                    (\<lambda>withheld.
                       if withheld then io_ret (Some NO_CONTENT)
                       else io_bind (internal (io_lift (client_tags a c))) (\<lambda>tags.
                         io_ret (Some (ClaimJson (claim_response (a_ext a) body e
                           (nat ((t - now) div second))
                           (admitted_client_versions (a_ext a) body client tags))))))))))"

fun draw_tiebreaks ::
  "(nat \<Rightarrow> nat option) \<Rightarrow> nat \<Rightarrow> (job_id \<times> expires_at) list \<Rightarrow> (job_id \<times> expires_at \<times> nat) list option" where
  "draw_tiebreaks rng i [] = Some []"
| "draw_tiebreaks rng i ((j, e) # cs) =
     Option.bind (rng i) (\<lambda>t. map_option ((#) (j, e, t)) (draw_tiebreaks rng (Suc i) cs))"

definition rank_candidates ::
  "app \<Rightarrow> job_id set \<Rightarrow> time \<Rightarrow> (job_id \<times> expires_at) list \<Rightarrow> (job_id \<times> expires_at \<times> nat) list option" where
  "rank_candidates a taken now candidates =
     map_option (sort_key snd)
       (draw_tiebreaks (a_tiebreak a) 0 (filter (\<lambda>(j, e). j \<notin> taken \<and> \<not> is_expired e now) candidates))"

fun try_candidates ::
  "app \<Rightarrow> client \<Rightarrow> fleet_tags \<Rightarrow> time \<Rightarrow> time \<Rightarrow> (job_id \<times> expires_at \<times> nat) list \<Rightarrow> response io" where
  "try_candidates a client tags now t [] = io_ret NO_CONTENT"
| "try_candidates a client tags now t ((j, e, _) # ranked) =
     (let c = client_id client; next = try_candidates a client tags now t ranked in
      io_bind (internal (is_denied j c)) (\<lambda>denied.
        if denied then next
        else io_bind (internal (claim_at_current_key (a_ext a) c j e t now)) (\<lambda>won.
          case won of
            None \<Rightarrow> next
          | Some (granted, body) \<Rightarrow>
              io_bind (revert_claim_if_void a c j granted t now) (\<lambda>void.
                case void of
                  Some _ \<Rightarrow> io_ret NO_CONTENT
                | None \<Rightarrow>
                    io_bind (revert_claim_if_out_of_vault_reach a c j body granted t now) (\<lambda>gone.
                      if gone then next
                      else io_ret (ClaimJson (claim_response (a_ext a) body granted
                        (plan_lease_duration_secs a)
                        (admitted_client_versions (a_ext a) body client tags))))))))"

definition claim_new :: "app \<Rightarrow> client \<Rightarrow> time \<Rightarrow> job_id set \<Rightarrow> response io" where
  "claim_new a client now taken =
     io_bind (internal (list_eligible_for_client (a_ext a) (client_id client))) (\<lambda>candidates.
       if candidates = [] then io_ret NO_CONTENT
       else io_bind (internal (io_lift (client_tags a (client_id client)))) (\<lambda>tags.
         case rank_candidates a taken now candidates of
           None \<Rightarrow> io_raise (E_app Internal)
         | Some ranked \<Rightarrow> try_candidates a client tags now (lease_expiry_from a now) ranked))"

definition claim :: "app \<Rightarrow> client \<Rightarrow> response io" where
  "claim a client =
     (let c = client_id client in
      io_bind utc_now (\<lambda>now.
      io_bind (internal (read_suspension c)) (\<lambda>suspended.
      if suspended \<noteq> None then io_ret NO_CONTENT else
      io_bind (internal (has_pending_reindex c)) (\<lambda>flagged.
      if flagged then io_ret NO_CONTENT else
      io_bind (internal list_leased) (\<lambda>leased.
        let (taken, own) = live_leases (a_ext a) c now leased in
        case own of
          [] \<Rightarrow> claim_new a client now taken
        | [(j, e, t)] \<Rightarrow>
            io_bind (hand_back a client now j e t) (\<lambda>r.
              case r of Some resp \<Rightarrow> io_ret resp | None \<Rightarrow> claim_new a client now taken)
        | _ \<Rightarrow>
            io_bind (internal (write_suspension c now (a_first a (map fst own)))) (\<lambda>_.
              io_ret NO_CONTENT))))))"

section \<open>Heartbeat and reclaim\<close>

definition heartbeat :: "app \<Rightarrow> client \<Rightarrow> job_id \<Rightarrow> response io" where
  "heartbeat a client j =
     (let c = client_id client in
      io_bind utc_now (\<lambda>now.
      io_bind (internal (read_suspension c)) (\<lambda>suspended.
      if suspended \<noteq> None then forbid ''client is suspended'' else
      io_bind (internal (has_pending_reindex c)) (\<lambda>flagged.
      if flagged then io_ret NOT_FOUND else
      io_bind (refuse_renewal_out_of_vault_reach a c j now) (\<lambda>_.
      io_bind (internal (renew_lease (a_ext a) j c (lease_expiry_from a now))) (\<lambda>r.
        case r of
          Renewed _ \<Rightarrow>
            io_bind (suspend_if_holding_another_lease a c j now) (\<lambda>other.
              if other \<noteq> None then forbid ''client is suspended'' else io_ret HTTP_OK)
        | RenewNotFound \<Rightarrow> io_ret NOT_FOUND
        | WrongClient \<Rightarrow> io_ret CONFLICT))))))"

definition reclaim :: "app \<Rightarrow> client \<Rightarrow> job_id \<Rightarrow> response io" where
  "reclaim a client j =
     (let c = client_id client in
      io_bind utc_now (\<lambda>now.
      io_bind (internal (read_suspension c)) (\<lambda>suspended.
      if suspended \<noteq> None then forbid ''client is suspended'' else
      let t = lease_expiry_from a now in
      io_bind (internal (has_pending_reindex c)) (\<lambda>flagged.
      if flagged then io_ret NOT_FOUND else
      io_bind (refuse_renewal_out_of_vault_reach a c j now) (\<lambda>_.
      io_bind (internal (renew_lease (a_ext a) j c t)) (\<lambda>r.
        case r of
          Renewed _ \<Rightarrow>
            io_bind (suspend_if_holding_another_lease a c j now) (\<lambda>other.
              if other \<noteq> None then forbid ''client is suspended'' else io_ret HTTP_OK)
        | WrongClient \<Rightarrow> io_ret CONFLICT
        | RenewNotFound \<Rightarrow>
            io_bind (internal (list_eligible_for_client (a_ext a) c)) (\<lambda>eligible.
              case find (\<lambda>(candidate, _). candidate = j) eligible of
                None \<Rightarrow> io_ret NOT_FOUND
              | Some (_, e) \<Rightarrow>
                  if is_expired e now then io_ret NOT_FOUND
                  else io_bind (internal (is_denied j c)) (\<lambda>denied.
                    if denied then io_ret NOT_FOUND
                    else io_bind (internal (claim_job (a_ext a) j e c t)) (\<lambda>r.
                      case r of
                        ClaimGone \<Rightarrow> io_ret NOT_FOUND
                      | Claimed body \<Rightarrow>
                          io_bind (revert_claim_if_void a c j e t now) (\<lambda>void.
                            if void \<noteq> None then io_ret NOT_FOUND
                            else io_bind (revert_claim_if_out_of_vault_reach a c j body e t now) (\<lambda>gone.
                              if gone then forbid VAULT_OUT_OF_REACH else io_ret HTTP_OK)))))))))))"

section \<open>Under any interference\<close>

context lease_guarantee
begin

lemma safe_forbid: "safe (forbid msg)"
  unfolding forbid_def by (rule safe_raise)

lemmas safe_api = safe_intros safe_todo_reads safe_todo_writes safe_forbid safe_has_record safe_own_lease

lemma safe_suspend_if: "safe (suspend_if_holding_another_lease a c j now)"
  unfolding suspend_if_holding_another_lease_def by (intro safe_api)

lemma safe_revert_void:
  "valid_job_id j \<Longrightarrow> dev c \<Longrightarrow> safe (revert_claim_if_void a c j e t now)"
  unfolding revert_claim_if_void_def by (intro safe_api safe_suspend_if own_resolve)

lemma safe_put_back:
  "valid_job_id j \<Longrightarrow> dev c \<Longrightarrow> safe (put_back_out_of_vault_reach a c j e t at)"
  unfolding put_back_out_of_vault_reach_def by (intro safe_api own_resolve)

lemma safe_revert_reach:
  "valid_job_id j \<Longrightarrow> dev c \<Longrightarrow> safe (revert_claim_if_out_of_vault_reach a c j body e t now)"
  unfolding revert_claim_if_out_of_vault_reach_def
  by (auto intro!: safe_api safe_put_back split: sum.split bool.split)

lemma safe_refuse_renewal:
  assumes "valid_job_id j" "dev c"
  shows "safe (refuse_renewal_out_of_vault_reach a c j now)"
  unfolding refuse_renewal_out_of_vault_reach_def
  using knows_safe [OF knows_own_leased_body [OF assms(1) dev_valid [OF assms(2)]]] assms
  by (auto intro!: safe_api safe_put_back split: sum.split bool.split option.split)

lemma safe_claim_at_current_key:
  "valid_job_id j \<Longrightarrow> dev c \<Longrightarrow> safe (claim_at_current_key x c j e t now)"
  unfolding claim_at_current_key_def
  by (auto intro!: safe_api own_claim split: claim_result.split option.split)

lemma safe_hand_back:
  "valid_job_id j \<Longrightarrow> dev (client_id client) \<Longrightarrow> safe (hand_back a client now j e t)"
  unfolding hand_back_def Let_def
  by (intro safe_api safe_revert_reach)

lemma safe_try_candidates:
  "dev (client_id client) \<Longrightarrow> \<forall>j e t. (j, e, t) \<in> set ranked \<longrightarrow> valid_job_id j \<Longrightarrow>
   safe (try_candidates a client tags now t ranked)"
proof (induction a client tags now t ranked rule: try_candidates.induct)
  case (2 a client tags now t j e tb ranked)
  then have v: "valid_job_id j" "dev (client_id client)"
    by auto
  have "safe (try_candidates a client tags now t ranked)"
    using 2 by auto
  with v show ?case
    by (simp add: Let_def)
      (intro safe_api safe_claim_at_current_key safe_revert_void safe_revert_reach)
qed (simp add: safe_ret)

lemma draw_tiebreaks_jobs:
  "draw_tiebreaks rng i cs = Some ds \<Longrightarrow> map (\<lambda>(j, e, _). (j, e)) ds = cs"
  by (induction rng i cs arbitrary: ds rule: draw_tiebreaks.induct) (auto simp: bind_eq_Some_conv)

lemma rank_candidates_jobs:
  "rank_candidates a taken now cs = Some ranked \<Longrightarrow> (j, e, t) \<in> set ranked \<Longrightarrow> (j, e) \<in> set cs"
proof -
  assume "rank_candidates a taken now cs = Some ranked" "(j, e, t) \<in> set ranked"
  then obtain ds where d: "draw_tiebreaks (a_tiebreak a) 0
      (filter (\<lambda>(j, e). j \<notin> taken \<and> \<not> is_expired e now) cs) = Some ds" "(j, e, t) \<in> set ds"
    by (auto simp: rank_candidates_def)
  then have "(j, e) \<in> set (map (\<lambda>(j, e, _). (j, e)) ds)"
    by force
  then show ?thesis
    unfolding draw_tiebreaks_jobs [OF d(1)] by simp
qed

lemma safe_claim_new:
  assumes "dev (client_id client)"
  shows "safe (claim_new a client now taken)"
proof -
  have "safe (if cs = [] then io_ret NO_CONTENT
      else io_bind (internal (io_lift (client_tags a (client_id client)))) (\<lambda>tags.
        case rank_candidates a taken now cs of None \<Rightarrow> io_raise (E_app Internal)
        | Some ranked \<Rightarrow> try_candidates a client tags now (lease_expiry_from a now) ranked))"
    if "\<forall>j e. (j, e) \<in> set cs \<longrightarrow> valid_job_id j" for cs
    using that assms
    by (intro safe_api safe_try_candidates) (auto dest: rank_candidates_jobs)
  then show ?thesis
    unfolding claim_new_def by (intro knows_bind_safe [OF knows_map_err [OF knows_eligible]])
qed

lemma note_lease_own:
  "fst ` set (snd (note_lease c now l st)) \<subseteq> insert (l_job_id l) (fst ` set (snd st))"
  by (cases st) (auto simp: dom_update split: option.split)

lemma fold_note_own:
  "fst ` set (snd (fold (note_lease c now) ls st)) \<subseteq> l_job_id ` set ls \<union> fst ` set (snd st)"
proof (induction ls arbitrary: st)
  case (Cons l ls)
  have "fst ` set (snd (fold (note_lease c now) ls (note_lease c now l st)))
      \<subseteq> l_job_id ` set ls \<union> fst ` set (snd (note_lease c now l st))"
    by (rule Cons.IH)
  with note_lease_own [of c now l st] show ?case
    unfolding fold.simps list.set image_insert comp_def by blast
qed simp

lemma live_leases_valid:
  assumes "live_leases x c now keys = (taken, own)" "(j, e, t) \<in> set own"
  shows "valid_job_id j"
proof -
  have "j \<in> fst ` set own"
    using assms(2) by force
  then have "j \<in> l_job_id ` set (List.map_filter (ok \<circ> parse_leased_key x) keys)"
    using fold_note_own [of c now "List.map_filter (ok \<circ> parse_leased_key x) keys" "({}, [])"] assms(1)
    by (auto simp: live_leases_def)
  then show ?thesis
    by (auto simp: set_map_filter dest: parse_lease_valid)
qed

lemma safe_own_cases:
  "own = [] \<Longrightarrow> safe m \<Longrightarrow> safe (case own of [] \<Rightarrow> m | [(j, e, t)] \<Rightarrow> f j e t | _ \<Rightarrow> n)"
  "own = [(j, e, t)] \<Longrightarrow> safe (f j e t) \<Longrightarrow> safe (case own of [] \<Rightarrow> m | [(j, e, t)] \<Rightarrow> f j e t | _ \<Rightarrow> n)"
  "own = p # q # r \<Longrightarrow> safe n \<Longrightarrow> safe (case own of [] \<Rightarrow> m | [(j, e, t)] \<Rightarrow> f j e t | _ \<Rightarrow> n)"
  by (simp_all split: prod.split)

lemma safe_claim:
  assumes "dev (client_id client)"
  shows "safe (claim a client)"
proof -
  let ?c = "client_id client"
  have branch: "safe (case own of [] \<Rightarrow> claim_new a client now taken
      | [(j, e, t)] \<Rightarrow> io_bind (hand_back a client now j e t) (\<lambda>r.
          case r of Some resp \<Rightarrow> io_ret resp | None \<Rightarrow> claim_new a client now taken)
      | _ \<Rightarrow> io_bind (internal (write_suspension ?c now (a_first a (map fst own)))) (\<lambda>_. io_ret NO_CONTENT))"
    if l: "live_leases (a_ext a) ?c now leased = (taken, own)" for now leased taken own
  proof -
    consider "own = []" | j e t where "own = [(j, e, t)]" | p q r where "own = p # q # r"
      by (metis neq_Nil_conv prod_cases3)
    then show ?thesis
    proof cases
      case 1
      then show ?thesis
        by (rule safe_own_cases) (rule safe_claim_new [OF assms])
    next
      case (2 j e t)
      then have "valid_job_id j"
        using live_leases_valid [OF l] by simp
      then show ?thesis
        by (intro safe_own_cases(2) [OF 2] safe_api safe_claim_new safe_hand_back assms)
    next
      case 3
      then show ?thesis
        by (rule safe_own_cases) (intro safe_api)
    qed
  qed
  show ?thesis
    unfolding claim_def Let_def by (intro safe_api) (erule branch)
qed

lemma safe_results:
  "(\<And>e. safe (f e)) \<Longrightarrow> safe m \<Longrightarrow> safe n \<Longrightarrow>
   safe (case r of Renewed e \<Rightarrow> f e | WrongClient \<Rightarrow> m | RenewNotFound \<Rightarrow> n)"
  "(\<And>b. safe (g b)) \<Longrightarrow> safe m \<Longrightarrow> safe (case q of Claimed b \<Rightarrow> g b | ClaimGone \<Rightarrow> m)"
  by (cases r; simp) (cases q; simp)

lemma safe_heartbeat:
  assumes "valid_job_id j" "dev (client_id client)"
  shows "safe (heartbeat a client j)"
  unfolding heartbeat_def Let_def
  by (intro safe_api safe_results safe_refuse_renewal own_renew safe_suspend_if assms)

lemma safe_reclaim:
  assumes "valid_job_id j" "dev (client_id client)"
  shows "safe (reclaim a client j)"
  unfolding reclaim_def Let_def
  by (intro safe_api safe_results safe_refuse_renewal own_renew safe_suspend_if own_claim
      safe_revert_void safe_revert_reach assms)

end

end
