(* ===== verification/Submit_Api.thy ===== *)
theory Submit_Api
  imports Device_Api
begin

text \<open>
  A device's results: \<open>pipette-httpapi/src/client/benchmarks/submissions.rs\<close> from the point
  where the body has been validated (\<open>submission\<close> is what validation returns), with the record
  writers of \<open>pipette-pipeline/src/submission.rs\<close>, and the relinquishing of a client's leases
  when its profile changes. The two halves of a \<open>tokio::join!\<close> are run one after the other.

  Writing a result replaces a record of the same job, so these operations guarantee the
  relations of the interface \<open>submit_guarantee\<close>, which extends that of the queue by such a
  replacement for some jobs: for \<open>intact\<close>, all but the job whose record is watched.
\<close>

section \<open>Submissions\<close>

record submission =
  sb_job_id :: job_id
  sb_client_id :: client_id
  sb_success :: bool
  sb_retriable :: bool
  sb_failure_reason :: string
  sb_client_version :: "string option"
  sb_runtime_version :: "string option"
  sb_submitted_at :: time
  sb_output :: runtime_output
  sb_requested :: requested_flags
  sb_fields :: "(string \<times> json) list"

definition output_fields :: "runtime_output \<Rightarrow> (string \<times> json) list" where
  "output_fields out =
     (case runtime_stdout out of None \<Rightarrow> [] | Some s \<Rightarrow> [(''runtime_stdout'', JStr s)])
     @ (case runtime_stderr out of None \<Rightarrow> [] | Some s \<Rightarrow> [(''runtime_stderr'', JStr s)])"

text \<open>The submission as it is serialized: its fields, the requested flags and the captured output.\<close>

definition submission_json :: "submission \<Rightarrow> json" where
  "submission_json s = JObj (sb_fields s @
     [(''requested_model_flags'', opt_json (rf_model (sb_requested s))),
      (''requested_runtime_flags'', opt_json (rf_runtime (sb_requested s))),
      (''requested_benchmark_flags'', opt_json (rf_benchmark (sb_requested s)))] @ output_fields (sb_output s))"

fun output_stream :: "json option \<Rightarrow> (err, string option) result" where
  "output_stream None = Inr None"
| "output_stream (Some JNull) = Inr None"
| "output_stream (Some (JStr s)) = Inr (Some s)"
| "output_stream (Some _) = Inl E_bail"

definition RUNTIME_OUTPUT_KEYS :: "string list" where
  "RUNTIME_OUTPUT_KEYS = [''runtime_stdout'', ''runtime_stderr'']"

definition move_runtime_output :: "ext \<Rightarrow> job_id \<Rightarrow> client_id \<Rightarrow> json \<Rightarrow> json io" where
  "move_runtime_output x j c body =
     (case body of
        JObj kvs \<Rightarrow>
          io_bind (io_lift (output_stream (map_of kvs ''runtime_stdout''))) (\<lambda>out.
          io_bind (io_lift (output_stream (map_of kvs ''runtime_stderr''))) (\<lambda>err.
          io_bind (write_runtime_output x j c \<lparr>runtime_stdout = out, runtime_stderr = err\<rparr>) (\<lambda>_.
            io_ret (JObj (filter (\<lambda>(k, _). k \<notin> set RUNTIME_OUTPUT_KEYS) kvs)))))
      | _ \<Rightarrow> io_ret body)"

definition write_submission_record :: "ext \<Rightarrow> submission \<Rightarrow> json \<Rightarrow> bool \<Rightarrow> unit io" where
  "write_submission_record x s body held =
     (if held then write_unverified x (sb_client_id s) (sb_job_id s) body
      else io_bind (move_runtime_output x (sb_job_id s) (sb_client_id s) body) (\<lambda>body.
        write_incoming x (sb_job_id s) body))"

definition record_submission :: "ext \<Rightarrow> submission \<Rightarrow> bool \<Rightarrow> unit io" where
  "record_submission x s held = internal (write_submission_record x s (submission_json s) held)"

section \<open>Binding a submission to its claim\<close>

record submitter =
  su_client_id :: client_id
  su_held :: bool
  su_rights :: "client_permission_set option"

definition authorize :: "submitter \<Rightarrow> bool \<Rightarrow> unit io" where
  "authorize su client_supplied_job_id =
     (let needed = (if client_supplied_job_id then PerformWork else SubmitResults) in
      if su_held su \<or> effective_holds (su_rights su) needed then io_ret ()
      else forbid (''client lacks the '' @ permission_name needed @ '' permission''))"

definition requested_flags_from_body :: "ext \<Rightarrow> json option \<Rightarrow> requested_flags" where
  "requested_flags_from_body x body =
     (case Option.bind body (\<lambda>b. get b ''spec'') of
        Some spec \<Rightarrow> requested_flags_from_spec x spec
      | None \<Rightarrow> \<lparr>rf_model = None, rf_runtime = None, rf_benchmark = None\<rparr>)"

definition NO_ACTIVE_CLAIM :: string where
  "NO_ACTIVE_CLAIM = ''no active claim; reclaim before submitting''"

definition verify_claim :: "ext \<Rightarrow> job_id \<Rightarrow> client_id \<Rightarrow> time \<Rightarrow> expires_at io" where
  "verify_claim x j c new_expiry =
     io_bind (internal (has_pending_reindex c)) (\<lambda>flagged.
       if flagged then io_raise (E_app (NotFoundError ''no active claim; client re-evaluation pending''))
       else io_bind (internal (renew_lease x j c new_expiry)) (\<lambda>r.
         case r of
           Renewed e \<Rightarrow> io_ret e
         | WrongClient \<Rightarrow> io_raise (E_app (Conflict ''the job is leased to another client''))
         | RenewNotFound \<Rightarrow> io_raise (E_app (NotFoundError NO_ACTIVE_CLAIM))))"

definition require_fetchable_vault :: "app \<Rightarrow> json \<Rightarrow> client_id \<Rightarrow> unit io" where
  "require_fetchable_vault a body c =
     (case client_may_fetch_job (a_orgs a) c body of
        Inl e \<Rightarrow> io_raise (E_app e)
      | Inr True \<Rightarrow> io_ret ()
      | Inr False \<Rightarrow>
          forbid ''the job names a vault resource this client may not fetch; only a failure may be reported'')"

definition bind_claim :: "app \<Rightarrow> bool \<Rightarrow> job_id \<Rightarrow> client_id \<Rightarrow> requested_flags io" where
  "bind_claim a success j c =
     io_bind (attempt (own_leased_body (a_ext a) c j)) (\<lambda>leased.
     io_bind
       (case leased of
          Inr l \<Rightarrow> io_ret (map_option (snd \<circ> snd) l)
        | Inl _ \<Rightarrow> if success then io_raise (E_app Internal) else io_ret None) (\<lambda>body.
     io_bind
       (case body of
          Some b \<Rightarrow> if success then require_fetchable_vault a b c else io_ret ()
        | None \<Rightarrow> io_ret ()) (\<lambda>_.
     io_bind utc_now (\<lambda>now.
     io_bind (verify_claim (a_ext a) j c (lease_expiry_from a now)) (\<lambda>_.
       if success \<and> body = None then io_raise (E_app (NotFoundError NO_ACTIVE_CLAIM))
       else io_ret (requested_flags_from_body (a_ext a) body))))))"

section \<open>After the result\<close>

definition teardown_completed_job :: "ext \<Rightarrow> job_id \<Rightarrow> client_id \<Rightarrow> unit io" where
  "teardown_completed_job x j c =
     io_bind (attempt (own_lease x c j)) (\<lambda>lease.
     io_bind
       (case lease of
          Inr (Some (e, t)) \<Rightarrow> io_bind (attempt (delete_lease x j e c t)) (\<lambda>_. io_ret ())
        | _ \<Rightarrow> io_ret ()) (\<lambda>_.
     io_bind (attempt (delete_avail_by_job j)) (\<lambda>_. io_ret ())))"

definition retriable_failure :: "submission \<Rightarrow> bool \<Rightarrow> bool \<Rightarrow> bool" where
  "retriable_failure s held client_supplied_job_id \<longleftrightarrow>
     \<not> held \<and> client_supplied_job_id \<and> \<not> sb_success s \<and> sb_retriable s"

definition handle_retriable_failure :: "ext \<Rightarrow> submission \<Rightarrow> client_id \<Rightarrow> job_id \<Rightarrow> unit io" where
  "handle_retriable_failure x s c j =
     io_bind (internal (write_runtime_output x j c (sb_output s))) (\<lambda>_.
     io_bind (attempt (write_denied x j c (denial_record_new (sb_submitted_at s) (sb_failure_reason s)
         (sb_client_version s) (sb_runtime_version s)))) (\<lambda>denied.
     io_bind (attempt (own_lease x c j)) (\<lambda>leased.
     io_bind (internal (io_lift denied)) (\<lambda>_.
     io_bind (internal (io_lift leased)) (\<lambda>lease.
       case lease of
         None \<Rightarrow> io_ret ()
       | Some (e, t) \<Rightarrow>
           io_bind (internal (get_leased x j e c t)) (\<lambda>_.
           io_bind (internal (recycle_lease x j e c t)) (\<lambda>_. io_ret ())))))))"

text \<open>The tail of the handler: the record, then the teardown of a claimed job.\<close>

definition accept_submission :: "ext \<Rightarrow> submitter \<Rightarrow> bool \<Rightarrow> submission \<Rightarrow> job_id io" where
  "accept_submission x su bound s =
     io_bind (record_submission x s (su_held su)) (\<lambda>_.
     io_bind (if bound then teardown_completed_job x (sb_job_id s) (su_client_id su) else io_ret ()) (\<lambda>_.
       io_ret (sb_job_id s)))"

definition submit_benchmark :: "app \<Rightarrow> submitter \<Rightarrow> submission \<Rightarrow> bool \<Rightarrow> job_id io" where
  "submit_benchmark a su s client_supplied_job_id =
     (let x = a_ext a; c = su_client_id su; held = su_held su; j = sb_job_id s;
          bound = \<not> held \<and> client_supplied_job_id in
      io_bind (authorize su client_supplied_job_id) (\<lambda>_.
      io_bind (if bound then io_bind (bind_claim a (sb_success s) j c) (\<lambda>flags. io_ret (Some flags))
               else io_ret None) (\<lambda>flags.
      if retriable_failure s held client_supplied_job_id
      then io_bind (handle_retriable_failure x s c j) (\<lambda>_. io_ret j)
      else accept_submission x su bound (case flags of None \<Rightarrow> s | Some f \<Rightarrow> s\<lparr>sb_requested := f\<rparr>))))"

text \<open>An item of a batch: the same steps, its error an entry of the answer.\<close>

datatype batch_item = Accepted nat job_id | Rejected nat err

definition process_batch_item ::
  "app \<Rightarrow> submitter \<Rightarrow> nat \<Rightarrow> (err, submission \<times> bool) result \<Rightarrow> batch_item io" where
  "process_batch_item a su index prepared =
     io_bind (attempt (io_bind (io_lift prepared) (\<lambda>(s, supplied). submit_benchmark a su s supplied))) (\<lambda>r.
       io_ret (case r of Inr j \<Rightarrow> Accepted index j | Inl e \<Rightarrow> Rejected index e))"

section \<open>Relinquishing the leases of a client\<close>

definition delete_recycled_entry_if_recorded :: "job_id \<Rightarrow> bool io" where
  "delete_recycled_entry_if_recorded j =
     io_bind (internal (find_job j)) (\<lambda>rec.
       if rec = None then io_ret False
       else io_bind (internal (delete_avail_by_job j)) (\<lambda>_. io_ret True))"

definition RELINQUISH_PASSES :: nat where "RELINQUISH_PASSES = 2"

fun relinquish_passes :: "ext \<Rightarrow> client_id \<Rightarrow> nat \<Rightarrow> unit io" where
  "relinquish_passes x c left =
     io_bind (internal (list_leased_for_client c)) (\<lambda>keys.
       let leases = List.map_filter (ok \<circ> parse_leased_key x) keys in
       if leases = [] then io_ret ()
       else case left of
         0 \<Rightarrow> io_raise (E_app Internal)
       | Suc left \<Rightarrow>
           io_bind (io_for leases (\<lambda>l.
               io_bind (internal (resolve_or_recycle_lease x (l_job_id l) (l_expires_at l)
                   (l_client_id l) (l_lease_expiry l))) (\<lambda>r.
                 if r = L_Recycled
                 then io_bind (delete_recycled_entry_if_recorded (l_job_id l)) (\<lambda>_. io_ret ())
                 else io_ret ()))) (\<lambda>_.
             relinquish_passes x c left))"

declare relinquish_passes.simps [simp del]

definition relinquish_client_leases :: "ext \<Rightarrow> client_id \<Rightarrow> unit io" where
  "relinquish_client_leases x c = relinquish_passes x c RELINQUISH_PASSES"

section \<open>Under any interference\<close>

context lease_guarantee
begin

lemma safe_verify_claim: "valid_job_id j \<Longrightarrow> dev c \<Longrightarrow> safe (verify_claim x j c t)"
  unfolding verify_claim_def by (intro safe_api safe_results own_renew)

lemma safe_authorize: "safe (authorize su b)"
  unfolding authorize_def Let_def by (intro safe_api)

lemma safe_bind_claim:
  assumes "valid_job_id j" "dev c"
  shows "safe (bind_claim a success j c)"
proof -
  have "safe (require_fetchable_vault a b c)" for b
    unfolding require_fetchable_vault_def by (auto intro!: safe_api split: sum.split bool.split)
  then show ?thesis
    unfolding bind_claim_def
    by (intro safe_api safe_verify_claim knows_safe [OF knows_own_leased_body] dev_valid assms)
qed

lemma safe_handle_retriable:
  "valid_job_id j \<Longrightarrow> dev c \<Longrightarrow> safe (handle_retriable_failure x s c j)"
  unfolding handle_retriable_failure_def
  by (intro safe_api safe_submission_writes own_recycle)

end

context queue_guarantee
begin

lemma rg_teardown:
  assumes "valid_job_id j" "valid_client_id c"
  shows "rg Inv R A (recorded j) (teardown_completed_job x j c) anyres"
proof -
  have "rg Inv R A (recorded j) (case lease of Inr (Some (e, t)) \<Rightarrow>
      io_bind (attempt (delete_lease x j e c t)) (\<lambda>_. io_ret ()) | _ \<Rightarrow> io_ret ()) anyres"
    for lease :: "(err, (expires_at \<times> time) option) result"
    using assms
    by (auto intro!: rg_then rg_attempt_any rg_delete_finished safe_ret rg_ret split: sum.split option.split)
  then show ?thesis
    unfolding teardown_completed_job_def
    by (rule rg_bind_keep [OF stable_recorded safe_attempt [OF safe_own_lease] rg_seq_keep [OF stable_recorded]])
      (intro rg_then rg_attempt_any rg_delete_avail_by_job safe_ret assms)
qed

text \<open>A record that \<open>find_job\<close> returns is there.\<close>

lemma rg_read_staged:
  assumes "record_job p = Some j"
  shows "rg Inv R A anyfs (read_body p) (\<lambda>r s. r \<noteq> None \<longrightarrow> scored j (record_rank p) s)"
proof -
  have "rg Inv R A anyfs (read_file p) (\<lambda>_. scored j (record_rank p))"
    unfolding read_file_def using assms
    by (intro rg_sys [OF stable_any])
      (auto simp: R_refl present_def intro!: scoredI [of _ p] split: option.splits)
  then have "rg Inv R A anyfs (vanished_is_absent (read_file p)) (\<lambda>r s. r \<noteq> None \<longrightarrow> scored j (record_rank p) s)"
    unfolding vanished_is_absent_def
    by (intro rg_bind [OF rg_attempt]) (auto intro!: rg_ret rg_raise split: sum.split)
  then show ?thesis
    unfolding read_body_def
    by (rule rg_bind)
      (auto intro!: rg_ret rg_bind [where Q = "\<lambda>_ s. scored j (record_rank p) s"] rg_lift split: option.split)
qed

lemma rg_read_record:
  "record_job p = Some j \<Longrightarrow> rg Inv R A anyfs (read_body p) (\<lambda>r s. r \<noteq> None \<longrightarrow> recorded j s)"
  by (rule rg_conseq [OF rg_read_staged]) (auto simp: scored_iff recorded_iff)

lemma rg_find_job: "rg Inv R A anyfs (find_job j) (\<lambda>r s. r \<noteq> None \<longrightarrow> recorded j s)"
proof -
  let ?Q = "\<lambda>r s. r \<noteq> None \<longrightarrow> recorded j s"
  have rd: "rg Inv R A anyfs (read_body (submission_path d j)) ?Q" if "d \<in> {D_incoming, D_to_do, D_parked, D_to_finalize}" for d
    using that by (intro rg_read_record) simp
  have queue: "rg Inv R A anyfs (read_queue st j) ?Q" if "st \<noteq> Failures" for st
    unfolding read_queue_def using that by (intro rd) (cases st; simp)
  have pick: "rg Inv R A (?Q r) (case r of Some a \<Rightarrow> f a | None \<Rightarrow> m) ?Q"
    if "\<And>a. rg Inv R A (recorded j) (f a) ?Q" "rg Inv R A anyfs m ?Q"
    for r :: "'z option" and f and m :: "'y option io"
    using that by (cases r) (auto elim: rg_conseq)
  have ret: "rg Inv R A (recorded j) (io_ret (Some a)) ?Q" for a :: 'z
    by (rule rg_ret) simp
  have score: "rg Inv R A anyfs (find_in_score_queue j) ?Q"
    unfolding find_in_score_queue_def
    by (intro rg_bind [OF queue] rg_bind [OF pick [OF ret queue]] pick ret rg_bind [OF queue])
      (simp_all, auto intro!: rg_ret rg_raise split: option.split)
  have "rg Inv R A anyfs (get_submission j) ?Q"
    unfolding get_submission_def
    by (intro rg_bind [OF rd] pick ret rg_bind [OF rg_read_record [OF record_job_submission(2)]])
      (auto intro!: rg_ret)
  then show ?thesis
    unfolding find_job_def by (rule rg_bind [OF _ pick [OF ret score]])
qed

lemma safe_delete_recycled:
  assumes "valid_job_id j"
  shows "safe (delete_recycled_entry_if_recorded j)"
  unfolding delete_recycled_entry_if_recorded_def safe_def
  using assms
  by (intro rg_bind [OF rg_map_err [OF rg_find_job]])
    (auto intro!: rg_ret rg_then rg_map_err rg_delete_avail_by_job safe_ret elim: rg_conseq)

lemma safe_relinquish: "valid_client_id c \<Longrightarrow> safe (relinquish_client_leases x c)"
proof -
  have "safe (relinquish_passes x c n)" for n
  proof (induction n)
    case 0
    then show ?case
      by (subst relinquish_passes.simps) (auto simp: Let_def intro!: safe_api)
  next
    case (Suc n)
    have "safe (io_for ls (\<lambda>l. io_bind (internal (resolve_or_recycle_lease x (l_job_id l) (l_expires_at l)
         (l_client_id l) (l_lease_expiry l))) (\<lambda>r. if r = L_Recycled
            then io_bind (delete_recycled_entry_if_recorded (l_job_id l)) (\<lambda>_. io_ret ()) else io_ret ())))"
      if "ls = List.map_filter (ok \<circ> parse_leased_key x) keys" for ls keys
      using that
      by (intro safe_api safe_resolve_or_recycle safe_delete_recycled)
        (auto simp: set_map_filter dest: parse_lease_valid)
    with Suc show ?case
      by (subst relinquish_passes.simps) (auto simp: Let_def intro!: safe_bind safe_map_err safe_todo_reads safe_ret)
  qed
  then show ?thesis
    by (simp add: relinquish_client_leases_def)
qed

end

section \<open>Writing a result\<close>

text \<open>A relation that also admits a record of the jobs in \<open>mayrec\<close> being replaced.\<close>

locale submit_guarantee = queue_guarantee +
  fixes mayrec :: "job_id \<Rightarrow> bool"
  assumes R_replace: "Inv s \<Longrightarrow> mayrec j \<Longrightarrow> record_job q = Some j \<Longrightarrow> queue_job p = None \<Longrightarrow> record_job p = None \<Longrightarrow> R s (mv p q s)"
begin

lemma rg_replace_record:
  assumes "record_job dest = Some j" "mayrec j"
  shows "rg Inv R A anyfs (replace_atomically x d dest c) (\<lambda>_. scored j (record_rank dest))"
proof -
  have mv: "rg Inv R A anyfs (rename_file (tmp_sibling d u) dest) (\<lambda>_. scored j (record_rank dest))" for u
    unfolding rename_file_def using assms
    by (intro rg_sys [OF stable_any])
      (auto simp: R_refl present_mv intro: R_replace scoredI [of _ dest] split: if_splits)
  have "rg Inv R A anyfs (attempt (io_bind (write_file (tmp_sibling d u) c) (\<lambda>_. rename_file (tmp_sibling d u) dest)))
      (\<lambda>r s. \<forall>a. r = Inr a \<longrightarrow> scored j (record_rank dest) s)" for u
    by (intro rg_attempt rg_bind [OF safe_write_other [unfolded safe_def] mv]) simp_all
  then show ?thesis
    unfolding replace_atomically_def Let_def
    by (intro rg_bind [OF rg_uuid] rg_bind)
      (auto intro!: rg_ret rg_bind [where Q = anyres] rg_raise safe_pre [OF safe_attempt [OF safe_remove_other]]
        split: sum.split)
qed

lemma rg_write_incoming: "mayrec j \<Longrightarrow> rg Inv R A anyfs (write_incoming x j v) (\<lambda>_. recorded j)"
  unfolding write_incoming_def
  by (rule rg_conseq [OF rg_replace_record [of _ j]]) (auto simp: recorded_iff scored_iff)

lemma safe_move_output: "safe (move_runtime_output x j c body)"
  unfolding move_runtime_output_def
  by (auto intro!: safe_api safe_submission_writes split: json.split)

lemma rg_record_submission:
  assumes "mayrec (sb_job_id s)"
  shows "rg Inv R A anyfs (record_submission x s held) (\<lambda>_ t. \<not> held \<longrightarrow> recorded (sb_job_id s) t)"
proof (cases held)
  case True
  then show ?thesis
    unfolding record_submission_def write_submission_record_def
    using safe_map_err [OF safe_submission_writes(1)] by (simp add: safe_def)
next
  case False
  then show ?thesis
    unfolding record_submission_def write_submission_record_def
    by (simp, intro rg_map_err rg_bind [OF safe_move_output [unfolded safe_def] rg_write_incoming] assms)
qed

lemma safe_accept:
  assumes "valid_job_id (sb_job_id s)" "valid_client_id (su_client_id su)" "bound \<longrightarrow> \<not> su_held su"
    "mayrec (sb_job_id s)"
  shows "safe (accept_submission x su bound s)"
proof -
  have "rg Inv R A (\<lambda>t. \<not> su_held su \<longrightarrow> recorded (sb_job_id s) t)
      (io_bind (if bound then teardown_completed_job x (sb_job_id s) (su_client_id su) else io_ret ())
        (\<lambda>_. io_ret (sb_job_id s))) anyres"
    using rg_teardown [OF assms(1,2)] assms(3) by (auto intro!: rg_then safe_ret rg_ret elim: rg_conseq)
  then show ?thesis
    unfolding accept_submission_def safe_def by (rule rg_bind [OF rg_record_submission [OF assms(4)]])
qed

lemma safe_submit:
  assumes "valid_job_id (sb_job_id s)" "valid_client_id (su_client_id su)" "mayrec (sb_job_id s)"
  shows "safe (submit_benchmark a su s supplied)"
  unfolding submit_benchmark_def Let_def
  by (intro safe_api safe_authorize safe_bind_claim safe_handle_retriable safe_accept assms)
    (auto simp: assms split: option.split)

lemma safe_batch_item:
  "(\<And>s b. prepared = Inr (s, b) \<Longrightarrow> valid_job_id (sb_job_id s) \<and> mayrec (sb_job_id s)) \<Longrightarrow> valid_client_id (su_client_id su) \<Longrightarrow>
   safe (process_batch_item a su i prepared)"
  unfolding process_batch_item_def
  by (intro safe_bind safe_attempt knows_bind_safe [OF knows_lift [where Q = "\<lambda>p. prepared = Inr p"]] safe_ret)
    (auto intro: safe_submit)

end

interpretation sole: submit_guarantee "sole_entry j" "sole_rel j" "unrestored j" "\<lambda>_ _. True" "\<lambda>_. True" for j
proof unfold_locales
  fix s q i p
  assume "sole_entry j s" "record_job q = Some i" "queue_job p = None" "record_job p = None"
  then show "sole_rel j s (mv p q s)"
    by (simp add: sole_rel_def record_not_queue sole_mv advance_other)
qed

interpretation kept: submit_guarantee "kept_inv j b" "kept_rel j b" "kept_act j b" "\<lambda>i v. i = j \<longrightarrow> v = b"
  "\<lambda>_. True" for j b
proof unfold_locales
  fix s q i p
  assume "kept_inv j b s" "record_job q = Some i" "queue_job p = None" "record_job p = None"
  then show "kept_rel j b s (mv p q s)"
    by (simp add: kept_rel_def kept_inv_def record_not_queue sole_mv hold_mv advance_other in_system_mv)
qed

interpretation filed: submit_guarantee "\<lambda>_. True" filed_rel "\<lambda>_. True" "\<lambda>_ _. True" "\<lambda>_. True"
  by unfold_locales (simp add: filed_rel_def advance_other)

interpretation intact: submit_guarantee "\<lambda>_. True" "intact_rel r" "intact_act r" "\<lambda>_ _. True"
  "\<lambda>i. record_job r \<noteq> Some i" for r
  by unfold_locales (auto simp: intact_rel_def advance_other intro!: lookup_mv_other)

end
