(* ===== verification/Frame.thy ===== *)
theory Frame
  imports Conservation Resolution
begin

text \<open>
  What a computation leaves alone: one queue entry, whatever else it does to the queue.

  The locale \<open>frame\<close> extends the marker interface by a watched entry \<open>p0\<close>: the relation admits
  every step on the queue that does not start from \<open>p0\<close>. \<open>free p q\<close> says which moves may end
  there. Two guarantees provide it: \<open>spared\<close>, for any entry and moves that end elsewhere; and
  \<open>owned\<close>, for the sole entry of its job, where a move of that job from elsewhere moves nothing.
\<close>

fun entry_path :: "ext \<Rightarrow> queue_entry \<Rightarrow> path" where
  "entry_path x (Q_Avail a) = avail_path x (ak_job_id a) (ak_expires_at a)"
| "entry_path x (Q_Lease l) = leased_path x (l_job_id l) (l_expires_at l) (l_client_id l) (l_lease_expiry l)"

locale frame = marker_guarantee +
  fixes p0 :: path
    and free :: "path \<Rightarrow> path \<Rightarrow> bool"
  assumes F_move: "Inv s \<Longrightarrow> queue_job p = Some i \<Longrightarrow> queue_job q = Some i \<Longrightarrow> p \<noteq> p0 \<Longrightarrow> free p q \<Longrightarrow> R s (mv p q s)"
    and F_del: "Inv s \<Longrightarrow> p \<noteq> p0 \<Longrightarrow> R s (del p s)"
    and F_record: "Inv s \<Longrightarrow> record_job q \<noteq> None \<Longrightarrow> R s (put_file q f s)"
    and F_land: "Inv s \<Longrightarrow> queue_job p = None \<Longrightarrow> record_job q \<noteq> None \<Longrightarrow> R s (mv p q s)"
begin

lemma frame_move:
  "queue_job p = Some i \<Longrightarrow> queue_job q = Some i \<Longrightarrow> p \<noteq> p0 \<Longrightarrow> free p q \<Longrightarrow> safe (rename_file p q)"
  unfolding rename_file_def by (rule safe_sys) (auto simp: R_refl F_move split: if_splits)

lemma frame_remove: "p \<noteq> p0 \<Longrightarrow> safe (remove_file p)"
  unfolding remove_file_def by (rule safe_sys) (auto simp: R_refl F_del split: if_splits)

lemma frame_remove_idempotent: "p \<noteq> p0 \<Longrightarrow> safe (remove_file_idempotent p)"
  unfolding remove_file_idempotent_def by (intro safe_intros frame_remove)

lemma frame_deletes:
  "avail_path x j e \<noteq> p0 \<Longrightarrow> safe (delete_avail x j e)"
  "leased_path x j e c t \<noteq> p0 \<Longrightarrow> safe (delete_lease x j e c t)"
  unfolding delete_avail_def delete_lease_def by (simp_all add: frame_remove_idempotent)

lemma frame_delete_avail_by_job:
  "(\<And>n. (D_avail, j @ ''/'' @ n) \<noteq> p0) \<Longrightarrow> safe (delete_avail_by_job j)"
  unfolding delete_avail_by_job_def
  by (intro safe_intros safe_reads) (auto intro!: safe_intros frame_remove split: sum.split)

text \<open>Records.\<close>

lemma frame_link: "record_job q \<noteq> None \<Longrightarrow> safe (hard_link p q)"
  unfolding hard_link_def by (rule safe_sys) (auto simp: R_refl F_record split: if_splits option.splits)

lemma frame_create:
  assumes "record_job dest \<noteq> None"
  shows "safe (create_complete x d dest c)"
  unfolding create_complete_def with_tmp_guard_def Let_def
  by (intro safe_intros safe_write_other safe_remove_other frame_link assms tmp_sibling_other)

lemma frame_replace:
  assumes "record_job dest \<noteq> None"
  shows "safe (replace_atomically x d dest c)"
proof -
  have "safe (rename_file (tmp_sibling d u) dest)" for u
    unfolding rename_file_def by (rule safe_sys) (auto simp: R_refl F_land assms split: if_splits)
  then show ?thesis
    unfolding replace_atomically_def Let_def
    by (intro safe_intros safe_write_other safe_remove_other tmp_sibling_other)
qed

lemma frame_record_system_failure: "safe (record_system_failure x catalog body reason source now)"
  unfolding record_system_failure_def write_incoming_new_def
  by (intro safe_intros frame_create) simp

text \<open>Settlement of an entry other than the watched one.\<close>

lemma frame_moves:
  assumes "valid_job_id j"
  shows "avail_path x j e \<noteq> p0 \<Longrightarrow> free (avail_path x j e) (avail_path x j e') \<Longrightarrow> safe (redate_avail x j e e')"
    and "valid_client_id c \<Longrightarrow> leased_path x j e c t \<noteq> p0 \<Longrightarrow> free (leased_path x j e c t) (avail_path x j e) \<Longrightarrow>
      safe (recycle_lease x j e c t)"
    and "valid_client_id c \<Longrightarrow> avail_path x j e \<noteq> p0 \<Longrightarrow> free (avail_path x j e) (leased_path x j e c t) \<Longrightarrow>
      safe (claim_job x j e c t)"
  unfolding redate_avail_def recycle_lease_def claim_job_def using assms
  by (intro safe_intros safe_reads frame_move [of _ j]; simp)+

lemma frame_resolve_or_recycle:
  assumes "valid_job_id j" "valid_client_id c" "leased_path x j e c t \<noteq> p0"
    "free (leased_path x j e c t) (avail_path x j e)"
  shows "safe (resolve_or_recycle_lease x j e c t)"
  unfolding resolve_or_recycle_lease_def
  by (intro safe_intros safe_has_record frame_deletes frame_moves assms)

lemma frame_resolve_job_terminal:
  assumes "entry_path x q \<noteq> p0" "safe reason"
  shows "safe (resolve_job_terminal x catalog q body reason source now)"
proof -
  have "safe (entry_delete x q)"
    using assms(1) by (cases q) (simp_all add: frame_deletes)
  then show ?thesis
    unfolding resolve_job_terminal_def
    by (intro safe_intros safe_has_record frame_record_system_failure assms(2)) (auto intro: safe_intros split: create_outcome.split)
qed

lemma frame_renew:
  assumes "valid_job_id j" "valid_client_id c" "\<And>n. (D_leased, c @ ''/'' @ n) \<noteq> p0"
    "\<And>p e. free p (leased_path x j e c t)"
  shows "safe (renew_lease x j c t)"
  unfolding renew_lease_def using assms
  by (intro safe_intros safe_todo_reads safe_listings)
    (auto dest: own_leaf_name intro!: frame_move [of _ j])

end

sublocale frame \<subseteq> entry_guarantee Inv R A bodyok "\<lambda>x q. entry_path x q \<noteq> p0 \<and> (\<forall>r. free (entry_path x q) r)"
  by unfold_locales
    (auto intro!: frame_resolve_or_recycle frame_resolve_job_terminal frame_moves simp del: split_paired_All)

section \<open>An entry others have no business with\<close>

fun spares :: "path \<Rightarrow> act \<Rightarrow> bool" where
  "spares r (A_move p q) \<longleftrightarrow> p \<noteq> r \<and> q \<noteq> r"
| "spares r (A_publish p c) \<longleftrightarrow> p \<noteq> r"
| "spares r (A_restore p c) \<longleftrightarrow> p \<noteq> r"
| "spares r (A_finish p) \<longleftrightarrow> p \<noteq> r"
| "spares r (A_retire p) \<longleftrightarrow> p \<noteq> r"
| "spares r _ \<longleftrightarrow> True"

lemma lookup_spared:
  assumes "queue_job r \<noteq> None" "spares r a"
  shows "lookup (perform a s) r = lookup s r"
  using assms queue_not_record by (cases a) (auto intro!: lookup_mv_other split: option.splits)

definition same_at :: "path \<Rightarrow> fs \<Rightarrow> fs \<Rightarrow> bool" where
  "same_at r s t \<longleftrightarrow> lookup t r = lookup s r"

lemma same_at_steps:
  assumes "queue_job r \<noteq> None"
  shows "queue_job p = None \<Longrightarrow> same_at r s (put p c s)" "p \<noteq> r \<Longrightarrow> same_at r s (del p s)"
    "p \<noteq> r \<Longrightarrow> q \<noteq> r \<Longrightarrow> same_at r s (mv p q s)"
  using assms by (auto simp: same_at_def intro!: lookup_mv_other)

lemma same_at_record: "queue_job r \<noteq> None \<Longrightarrow> record_job q \<noteq> None \<Longrightarrow> same_at r s (put_file q f s)"
  using queue_not_record [of q] by (auto simp: same_at_def)

lemma record_elsewhere: "queue_job r \<noteq> None \<Longrightarrow> record_job q \<noteq> None \<Longrightarrow> q \<noteq> r"
  using queue_not_record [of q] by auto

definition on_queue :: "path \<Rightarrow> fs \<Rightarrow> bool" where
  "on_queue r s \<longleftrightarrow> queue_job r \<noteq> None"

interpretation spared: frame "on_queue r" "same_at r" "spares r" "\<lambda>_ _. True" r "\<lambda>p q. q \<noteq> r" for r
proof unfold_locales
  fix s t u p q i c f a
  show "on_queue r s \<Longrightarrow> spares r a \<Longrightarrow> same_at r s (perform a s)"
    by (simp add: same_at_def lookup_spared on_queue_def)
  show "same_at r s t \<Longrightarrow> same_at r t u \<Longrightarrow> same_at r s u" "same_at r s s"
    by (simp_all add: same_at_def)
  show "on_queue r s \<Longrightarrow> queue_job p = None \<Longrightarrow> record_job q \<noteq> None \<Longrightarrow> same_at r s (mv p q s)"
    using record_elsewhere [of r q] by (auto simp: on_queue_def intro!: same_at_steps)
qed (auto simp: on_queue_def same_at_record intro!: same_at_steps)

section \<open>The sole entry of a job\<close>

definition owned_inv :: "path \<Rightarrow> job_id \<Rightarrow> inode \<Rightarrow> fs \<Rightarrow> bool" where
  "owned_inv r j f s \<longleftrightarrow> queue_job r = Some j \<and> lookup s r = Some f \<and> sole_entry j s"

definition owned_rel :: "path \<Rightarrow> job_id \<Rightarrow> fs \<Rightarrow> fs \<Rightarrow> bool" where
  "owned_rel r j s t \<longleftrightarrow> same_at r s t \<and> (sole_entry j s \<longrightarrow> sole_entry j t)"

lemma owned_sole:
  "owned_inv r j f s \<Longrightarrow> queue_job p = Some j \<Longrightarrow> lookup s p \<noteq> None \<Longrightarrow> p = r"
  by (rule sole_entryD [of j s]) (simp_all add: owned_inv_def present_def)

lemma owned_move:
  assumes "owned_inv r j f s" "queue_job p = Some i" "queue_job q = Some i" "p \<noteq> r"
  shows "owned_rel r j s (mv p q s)"
proof (cases "i = j")
  case True
  then have "lookup s p = None"
    using owned_sole [OF assms(1)] assms(2,4) by blast
  then show ?thesis
    by (simp add: mv_def owned_rel_def same_at_def)
next
  case False
  then have "q \<noteq> r"
    using assms(1,3) by (auto simp: owned_inv_def)
  with assms show ?thesis
    by (auto simp: owned_rel_def owned_inv_def intro!: same_at_steps sole_mv)
qed

interpretation owned: frame "owned_inv r j f" "owned_rel r j" "\<lambda>a. spares r a \<and> unrestored j a" "\<lambda>i v. i = j \<longrightarrow> f_content f = C_json v" r "\<lambda>_ _. True"
  for r j f
proof unfold_locales
  fix s t u p q i c g a v
  show "owned_rel r j s t \<Longrightarrow> owned_rel r j t u \<Longrightarrow> owned_rel r j s u" "owned_rel r j s s"
    "owned_inv r j f s \<Longrightarrow> owned_rel r j s t \<Longrightarrow> owned_inv r j f t"
    by (simp_all add: owned_rel_def owned_inv_def same_at_def)
  show "owned_inv r j f s \<Longrightarrow> spares r a \<and> unrestored j a \<Longrightarrow> owned_rel r j s (perform a s)"
    by (simp add: owned_rel_def owned_inv_def same_at_def lookup_spared sole_perform)
  show "owned_inv r j f s \<Longrightarrow> queue_job p = Some i \<Longrightarrow> lookup s p = Some g \<Longrightarrow> f_content g = C_json v \<Longrightarrow>
      i = j \<longrightarrow> f_content f = C_json v"
    using owned_sole [of r j f s p] by (auto simp: owned_inv_def)
  show "owned_inv r j f s \<Longrightarrow> queue_job p = Some i \<Longrightarrow> queue_job q = Some i \<Longrightarrow> p \<noteq> r \<Longrightarrow> owned_rel r j s (mv p q s)"
    by (rule owned_move)
  show "owned_inv r j f s \<Longrightarrow> queue_job p = None \<Longrightarrow> record_job q \<noteq> None \<Longrightarrow> owned_rel r j s (mv p q s)"
    using record_elsewhere [of r q] record_not_queue [of q]
    by (auto simp: owned_rel_def owned_inv_def intro!: same_at_steps sole_mv)
  show "owned_inv r j f s \<Longrightarrow> record_job q \<noteq> None \<Longrightarrow> owned_rel r j s (put_file q g s)"
    using record_not_queue [of q] by (auto simp: owned_rel_def owned_inv_def same_at_record)
qed (auto simp: owned_rel_def owned_inv_def intro!: same_at_steps sole_mv)

end
