(* ===== verification/Reason_Text.thy ===== *)
theory Reason_Text
  imports Denial
begin

text \<open>
  The text of a failure reason as the all-denied message shows it and groups by it:
  \<open>display_reason\<close> and \<open>reason_key\<close> of \<open>pipette-core/src/denial.rs\<close>. The three compiled regular
  expressions are parameters (\<open>wording\<close>): each is absent when it does not compile, or gives the
  successive matches in a text, with the named groups that took part.
\<close>

section \<open>Matches\<close>

record rmatch =
  rm_start :: nat
  rm_end :: nat
  rm_named :: "(string \<times> string) list"

type_synonym pattern = "string \<Rightarrow> rmatch list"

record wording =
  DEVICE_VALUE :: "pattern option"
  TIMESTAMP :: "pattern option"
  EMPTY_BRACKETS :: "pattern option"

definition match_text :: "string \<Rightarrow> rmatch \<Rightarrow> string" where
  "match_text s m = take (rm_end m - rm_start m) (drop (rm_start m) s)"

text \<open>\<open>Regex::replace_all\<close>: the text between the matches, each match replaced.\<close>

fun replace_from :: "string \<Rightarrow> nat \<Rightarrow> (rmatch \<Rightarrow> string) \<Rightarrow> rmatch list \<Rightarrow> string" where
  "replace_from s i f [] = drop i s"
| "replace_from s i f (m # ms) = take (rm_start m - i) (drop i s) @ f m @ replace_from s (rm_end m) f ms"

definition replace_all :: "pattern \<Rightarrow> string \<Rightarrow> (rmatch \<Rightarrow> string) \<Rightarrow> string" where
  "replace_all re s f = replace_from s 0 f (re s)"

section \<open>Words\<close>

text \<open>\<open>split_once(char::is_whitespace)\<close>.\<close>

fun split_once_whitespace :: "string \<Rightarrow> (string \<times> string) option" where
  "split_once_whitespace [] = None"
| "split_once_whitespace (c # s) =
     (let n = ws_width (bytes (c # s)) in
      if 0 < n then Some ([], drop n (c # s))
      else map_option (\<lambda>(a, b). (c # a, b)) (split_once_whitespace s))"

lemma split_once_whitespace_shorter: "split_once_whitespace s = Some (a, b) \<Longrightarrow> length b < length s"
  by (induction s arbitrary: a b) (fastforce simp: Let_def split: if_splits)+

text \<open>\<open>trim_start_matches(|c| c.is_whitespace() || extra.contains(c))\<close>, the extra characters in ASCII.\<close>

function trim_start_with :: "string \<Rightarrow> string \<Rightarrow> string" where
  "trim_start_with extra s =
     (case s of
        [] \<Rightarrow> []
      | c # r \<Rightarrow>
          if 0 < ws_width (bytes s) then trim_start_with extra (drop (ws_width (bytes s)) s)
          else if c \<in> set extra then trim_start_with extra r else s)"
  by pat_completeness auto
termination
  by (relation "measure (length \<circ> snd)") auto

declare trim_start_with.simps [simp del]

lemma trim_start_with_shorter: "length (trim_start_with extra s) \<le> length s"
proof (induction extra s rule: trim_start_with.induct)
  case (1 extra s)
  then show ?case
    by (subst trim_start_with.simps) (fastforce split: list.split dest: le_trans)
qed

text \<open>\<open>split_whitespace\<close>.\<close>

function split_whitespace :: "string \<Rightarrow> string list" where
  "split_whitespace s =
     (let t = trim_start_with [] s in
      if t = [] then []
      else case split_once_whitespace t of
        None \<Rightarrow> [t]
      | Some (w, r) \<Rightarrow> w # split_whitespace r)"
  by pat_completeness auto
termination
  by (relation "measure length")
    (auto dest!: split_once_whitespace_shorter intro: less_le_trans [OF _ trim_start_with_shorter])

declare split_whitespace.simps [simp del]

section \<open>Reasons\<close>

definition reason_key :: "wording \<Rightarrow> string \<Rightarrow> string" where
  "reason_key x shown =
     (case DEVICE_VALUE x of
        None \<Rightarrow> shown
      | Some re \<Rightarrow> replace_all re shown (\<lambda>m.
          let token = match_text shown m in
          if map_of (rm_named m) ''hex'' \<noteq> None then ''0x#''
          else if 4 \<le> length token then ''#''
          else token))"

definition in_number :: "rmatch \<Rightarrow> bool" where
  "in_number m \<longleftrightarrow>
     list_ex (\<lambda>name. case map_of (rm_named m) name of None \<Rightarrow> False | Some t \<Rightarrow> t \<noteq> []) [''before'', ''after'']"

definition strip_timestamps :: "wording \<Rightarrow> string \<Rightarrow> string \<times> bool" where
  "strip_timestamps x s =
     (case TIMESTAMP x of
        None \<Rightarrow> (s, False)
      | Some re \<Rightarrow>
          (replace_all re s (\<lambda>m. if in_number m then match_text s m else []),
           list_ex (\<lambda>m. \<not> in_number m \<and> trim_start_with ''[('' (take (rm_start m) s) = []) (re s)))"

definition remove_empty_brackets :: "wording \<Rightarrow> string \<Rightarrow> string" where
  "remove_empty_brackets x s =
     (case EMPTY_BRACKETS x of None \<Rightarrow> s | Some re \<Rightarrow> replace_all re s (\<lambda>_. []))"

definition display_reason :: "wording \<Rightarrow> string \<Rightarrow> string" where
  "display_reason x reason =
     (let (stripped, leading) = strip_timestamps x reason;
          collapsed = join '' '' (split_whitespace (remove_empty_brackets x stripped)) in
      if leading then trim_start_with '':-|,'' collapsed else collapsed)"

section \<open>A shown reason is in normal form\<close>

text \<open>A text without white space, at any byte.\<close>

fun solid :: "string \<Rightarrow> bool" where
  "solid [] \<longleftrightarrow> True"
| "solid (c # s) \<longleftrightarrow> ws_width (bytes (c # s)) = 0 \<and> solid s"

text \<open>A space after a text cannot complete a white-space character of it.\<close>

lemma ws_width_before_space:
  "s \<noteq> [] \<Longrightarrow> ws_width (bytes (s @ CHR '' '' # r)) = ws_width (bytes s)"
  by (cases "bytes s" rule: ws_width.cases; cases "bytes r")
    (auto simp: ws2_def ws3_def Cons_eq_map_conv)

lemma ws_width_prefix: "ws_width (bytes (s @ r)) = 0 \<Longrightarrow> ws_width (bytes s) = 0"
  by (cases "bytes s" rule: ws_width.cases; cases "bytes r"; cases "tl (bytes r)")
    (auto simp: Cons_eq_map_conv split: if_splits)

lemma split_once_solid: "split_once_whitespace s = Some (a, b) \<Longrightarrow> solid a"
proof (induction s arbitrary: a b)
  case (Cons c s)
  show ?case
  proof (cases "ws_width (bytes (c # s)) = 0")
    case True
    then obtain a' where a: "a = c # a'" "split_once_whitespace s = Some (a', b)"
      using Cons.prems by (auto simp: Let_def)
    moreover obtain r where "s = a' @ r"
      using a(2) by (induction s arbitrary: a') (auto simp: Let_def split: if_splits)
    ultimately show ?thesis
      using True Cons.IH ws_width_prefix [of "c # a'" r] by (simp del: ws_width.simps)
  next
    case False
    then show ?thesis
      using Cons.prems by (simp add: Let_def)
  qed
qed simp

lemma split_once_None: "split_once_whitespace s = None \<longleftrightarrow> solid s"
  by (induction s) (simp_all add: Let_def del: ws_width.simps)

lemma split_once_space: "solid w \<Longrightarrow> split_once_whitespace (w @ CHR '' '' # r) = Some (w, r)"
proof (induction w)
  case Nil
  then show ?case
    by (cases "bytes r"; cases "tl (bytes r)") (auto simp: Let_def ws1_def Cons_eq_map_conv)
next
  case (Cons c w)
  then have "ws_width (bytes ((c # w) @ CHR '' '' # r)) = 0"
    by (subst ws_width_before_space) (simp_all del: ws_width.simps)
  with Cons show ?case
    by (simp add: Let_def del: ws_width.simps)
qed

text \<open>Solid words, single spaces between them.\<close>

abbreviation words_ok :: "string list \<Rightarrow> bool" where
  "words_ok \<equiv> list_all (\<lambda>w. solid w \<and> w \<noteq> [])"

lemma trim_solid: "solid w \<Longrightarrow> w \<noteq> [] \<Longrightarrow> trim_start_with [] (w @ CHR '' '' # r) = w @ CHR '' '' # r"
  by (cases w; subst trim_start_with.simps)
    (use ws_width_before_space [of w r] in \<open>simp_all del: ws_width.simps\<close>)

lemma split_join:
  "words_ok ws \<Longrightarrow> split_whitespace (join '' '' ws) = ws"
proof (induction "'' ''" ws rule: join.induct)
  case 1
  then show ?case
    by (simp add: split_whitespace.simps trim_start_with.simps)
next
  case (2 w)
  then have "trim_start_with [] w = w"
    by (cases w; subst trim_start_with.simps) (simp_all del: ws_width.simps)
  with 2 show ?case
    by (subst split_whitespace.simps) (simp add: split_once_None [THEN iffD2])
next
  case (3 w v ws)
  then show ?case
    by (subst split_whitespace.simps) (simp add: trim_solid split_once_space Let_def)
qed

lemma trim_start_with_stops:
  "trim_start_with extra s = c # r \<Longrightarrow> ws_width (bytes (c # r)) = 0 \<and> c \<notin> set extra"
proof (induction extra s rule: trim_start_with.induct)
  case (1 extra s)
  then show ?case
    by (subst (asm) (3) trim_start_with.simps) (auto split: list.splits if_splits simp del: ws_width.simps)
qed

lemma split_whitespace_words: "words_ok (split_whitespace s)"
proof (induction s rule: split_whitespace.induct)
  case (1 s)
  let ?t = "trim_start_with [] s"
  show ?case
  proof (cases ?t)
    case Nil
    then show ?thesis
      by (simp add: split_whitespace.simps)
  next
    case (Cons c r)
    then have head: "ws_width (bytes (c # r)) = 0"
      using trim_start_with_stops by blast
    show ?thesis
    proof (cases "split_once_whitespace ?t")
      case None
      then show ?thesis
        using Cons by (simp add: split_whitespace.simps [of s] flip: split_once_None)
    next
      case (Some wr)
      then obtain w q where wq: "split_once_whitespace ?t = Some (w, q)"
        by (metis surj_pair)
      then have "w \<noteq> []"
        using Cons head by (auto simp: Let_def simp del: ws_width.simps)
      with 1 [OF refl _ wq refl] Cons wq have "words_ok (split_whitespace q)" "?t \<noteq> []"
        by simp_all
      with wq \<open>w \<noteq> []\<close> show ?thesis
        using split_once_solid [OF wq] by (simp add: split_whitespace.simps [of s] del: split_once_whitespace.simps)
    qed
  qed
qed

lemma join_words_Cons:
  assumes "words_ok ws" "join '' '' ws = c # r"
  shows "ws_width (bytes (c # r)) = 0 \<and> (\<exists>vs. words_ok vs \<and> (r = join '' '' vs \<or> r = CHR '' '' # join '' '' vs))"
proof -
  obtain w ws' where ws: "ws = w # ws'"
    using assms(2) by (cases ws) auto
  with assms obtain w' where w: "w = c # w'"
    by (cases w; cases ws') auto
  show ?thesis
  proof (cases ws')
    case Nil
    with ws w assms have "r = join '' '' (if w' = [] then [] else [w'])" "words_ok (if w' = [] then [] else [w'])"
      by auto
    then show ?thesis
      using ws w assms Nil by (auto simp del: ws_width.simps intro: exI [of _ "if w' = [] then [] else [w']"])
  next
    case (Cons v vs)
    then have r: "r = w' @ CHR '' '' # join '' '' ws'"
      using ws w assms(2) by simp
    then have "ws_width (bytes (c # r)) = 0"
      using ws_width_before_space [of w] ws w assms(1) by (simp del: ws_width.simps)
    moreover have "r = CHR '' '' # join '' '' ws' \<or> r = join '' '' (w' # ws') \<and> w' \<noteq> []"
      using r Cons by (cases w') auto
    moreover have "words_ok ws'" "w' \<noteq> [] \<longrightarrow> words_ok (w' # ws')"
      using assms(1) ws w by auto
    ultimately show ?thesis
      by blast
  qed
qed

lemma trim_start_with_words:
  "words_ok ws \<Longrightarrow> s = join '' '' ws \<or> s = CHR '' '' # join '' '' ws \<Longrightarrow>
   \<exists>vs. words_ok vs \<and> trim_start_with extra s = join '' '' vs"
proof (induction extra s arbitrary: ws rule: trim_start_with.induct)
  case (1 extra s)
  show ?case
  proof (cases s)
    case Nil
    then show ?thesis
      by (auto simp: trim_start_with.simps intro: exI [of _ "[]"])
  next
    case (Cons c r)
    show ?thesis
    proof (cases "s = join '' '' ws")
      case True
      note head = join_words_Cons [OF 1(3), unfolded True [symmetric], OF Cons]
      have step: "trim_start_with extra s = (if c \<in> set extra then trim_start_with extra r else s)"
        using head Cons by (subst trim_start_with.simps) (simp del: ws_width.simps)
      show ?thesis
      proof (cases "c \<in> set extra")
        case in_extra: True
        from head obtain vs where "words_ok vs" "r = join '' '' vs \<or> r = CHR '' '' # join '' '' vs"
          by blast
        with 1(2) [OF Cons _ in_extra] head Cons step in_extra show ?thesis
          by (simp del: ws_width.simps)
      qed (use step True 1(3) in auto)
    next
      case False
      then have sp: "s = CHR '' '' # join '' '' ws"
        using 1(4) by blast
      then have "ws_width (bytes s) = 1"
        by (cases "bytes (join '' '' ws)" ; cases "tl (bytes (join '' '' ws))") (auto simp: ws1_def Cons_eq_map_conv)
      then show ?thesis
        using 1(1) [OF Cons _ 1(3)] sp by (subst trim_start_with.simps) simp
    qed
  qed
qed

lemma display_reason_words: "\<exists>ws. words_ok ws \<and> display_reason x reason = join '' '' ws"
proof (cases "strip_timestamps x reason")
  case (Pair stripped leading)
  let ?ws = "split_whitespace (remove_empty_brackets x stripped)"
  show ?thesis
    using Pair split_whitespace_words [of "remove_empty_brackets x stripped"]
      trim_start_with_words [of ?ws "join '' '' ?ws" "'':-|,''"]
    by (cases leading) (auto simp: display_reason_def Let_def)
qed

text \<open>
  A shown reason is in normal form. Its words, as \<open>split_whitespace\<close> gives them, joined by single
  spaces, are the text again, and no word is empty or holds white space: the text neither starts
  nor ends with white space and is one line, so a line of the message holds one group. This is so
  for whatever the three regular expressions match.
\<close>

theorem display_reason_normal:
  "join '' '' (split_whitespace (display_reason x reason)) = display_reason x reason
   \<and> list_all (\<lambda>w. solid w \<and> w \<noteq> []) (split_whitespace (display_reason x reason))"
  using display_reason_words [of x reason] split_join split_whitespace_words by metis

end
