(* ===== verification/Denial_Summary.thy ===== *)
theory Denial_Summary
  imports Reason_Text "HOL-Library.Product_Lexorder" "HOL-Library.Option_ord" "HOL-Library.Multiset"
begin

text \<open>
  The message of an all-denied failure: \<open>summarize_denials\<close> of \<open>pipette-core/src/denial.rs\<close>.
  Denials are grouped by what \<open>Reason_Text\<close> makes of their reasons.
\<close>

section \<open>Groups of denials\<close>

definition ALL_DENIED_HEADLINE :: string where
  "ALL_DENIED_HEADLINE = ''All eligible clients reported failure''"
definition MAX_SHOWN_REASON_BYTES :: nat where "MAX_SHOWN_REASON_BYTES = 500"
definition MAX_SHOWN_GROUPS :: nat where "MAX_SHOWN_GROUPS = 5"
definition MAX_SHOWN_CLIENTS :: nat where "MAX_SHOWN_CLIENTS = 3"
definition NO_REASON :: string where "NO_REASON = ''no reason recorded''"
definition UNREADABLE_REASON :: string where "UNREADABLE_REASON = ''reason unreadable''"

record denied_client =
  dc_client_id :: client_id
  dc_record :: "denial_record option"

text \<open>The derived order of \<open>GroupKey\<close>: the reasons by text, then the two kinds without one.\<close>

datatype group_key = Reason string | Unreadable | NoReason

fun group_rank :: "group_key \<Rightarrow> nat \<times> string" where
  "group_rank (Reason s) = (0, s)"
| "group_rank Unreadable = (1, [])"
| "group_rank NoReason = (2, [])"

lemma group_rank_inj: "group_rank a = group_rank b \<Longrightarrow> a = b"
  by (cases a; cases b) auto

instantiation group_key :: linorder
begin

definition less_eq_group_key :: "group_key \<Rightarrow> group_key \<Rightarrow> bool" where
  "less_eq_group_key a b \<longleftrightarrow> group_rank a \<le> group_rank b"

definition less_group_key :: "group_key \<Rightarrow> group_key \<Rightarrow> bool" where
  "less_group_key a b \<longleftrightarrow> group_rank a < group_rank b"

instance
  by standard (auto simp: less_eq_group_key_def less_group_key_def dest: group_rank_inj)

end

fun is_reason :: "group_key \<Rightarrow> bool" where
  "is_reason (Reason _) \<longleftrightarrow> True"
| "is_reason _ \<longleftrightarrow> False"

record reason_group =
  rg_clients :: "string list"
  rg_latest :: "(time option \<times> string) option"

definition add_member :: "client_id \<Rightarrow> time option \<Rightarrow> string option \<Rightarrow> reason_group \<Rightarrow> reason_group" where
  "add_member c at shown g =
     (let g' = g\<lparr>rg_clients := rg_clients g @ [c]\<rparr> in
      case shown of
        None \<Rightarrow> g'
      | Some s \<Rightarrow>
          if (case rg_latest g of None \<Rightarrow> True | Some (latest, _) \<Rightarrow> latest < at)
          then g'\<lparr>rg_latest := Some (at, s)\<rparr> else g')"

definition drop_cut_fragment :: "string \<Rightarrow> string" where
  "drop_cut_fragment reason =
     (if \<not> starts_with ELLIPSIS reason then reason
      else let rest = drop (length ELLIPSIS) reason in
        case split_once (CHR 0x0A) rest of
          Some (_, after) \<Rightarrow> after
        | None \<Rightarrow> (case split_once_whitespace rest of Some (_, after) \<Rightarrow> after | None \<Rightarrow> rest))"

definition group_key_of :: "wording \<Rightarrow> string \<Rightarrow> string \<Rightarrow> string" where
  "group_key_of x reason shown =
     (let whole = display_reason x (drop_cut_fragment reason) in
      reason_key x (if whole = [] then shown else whole))"

definition denial_key :: "wording \<Rightarrow> denied_client \<Rightarrow> group_key \<times> time option \<times> string option" where
  "denial_key x d =
     (case dc_record d of
        None \<Rightarrow> (Unreadable, None, None)
      | Some record \<Rightarrow>
          let reason = (case failure_reason record of None \<Rightarrow> [] | Some s \<Rightarrow> s);
              shown = display_reason x reason in
          if shown = [] then (NoReason, denied_at record, None)
          else (Reason (group_key_of x reason shown), denied_at record, Some shown))"

definition add_denial ::
  "wording \<Rightarrow> denied_client \<Rightarrow> (group_key \<times> reason_group) list \<Rightarrow> (group_key \<times> reason_group) list" where
  "add_denial x d groups =
     (let (key, at, shown) = denial_key x d;
          group = (case map_of groups key of Some g \<Rightarrow> g | None \<Rightarrow> \<lparr>rg_clients = [], rg_latest = None\<rparr>) in
      AList.update key (add_member (dc_client_id d) at shown group) groups)"

text \<open>The groups, the largest first, equal sizes in the order of their keys.\<close>

definition denial_groups :: "wording \<Rightarrow> denied_client list \<Rightarrow> (group_key \<times> reason_group) list" where
  "denial_groups x denials =
     sort_key (\<lambda>(key, g). (- int (length (rg_clients g)), key))
       (fold (add_denial x) (sort_key dc_client_id denials) [])"

section \<open>The message\<close>

definition listed :: "string list \<Rightarrow> nat \<Rightarrow> string" where
  "listed items most =
     join '', '' (take most items)
     @ (if most < length items then '', +'' @ nat_str (length items - most) @ '' more'' else [])"

definition count_noun :: "nat \<Rightarrow> string \<Rightarrow> string \<Rightarrow> string" where
  "count_noun n one many = nat_str n @ '' '' @ (if n = 1 then one else many)"

definition group_line :: "group_key \<Rightarrow> reason_group \<Rightarrow> string" where
  "group_line key g =
     count_noun (length (rg_clients g)) ''client'' ''clients'' @ '' ('' @ listed (rg_clients g) MAX_SHOWN_CLIENTS
     @ ''): ''
     @ (case key of
          Reason _ \<Rightarrow> (case rg_latest g of None \<Rightarrow> [] | Some (_, shown) \<Rightarrow> keep_tail shown MAX_SHOWN_REASON_BYTES)
        | Unreadable \<Rightarrow> UNREADABLE_REASON
        | NoReason \<Rightarrow> NO_REASON)"

fun split_shown ::
  "nat \<Rightarrow> (group_key \<times> reason_group) list \<Rightarrow> (group_key \<times> reason_group) list \<times> (group_key \<times> reason_group) list" where
  "split_shown seen [] = ([], [])"
| "split_shown seen ((key, g) # gs) =
     (if \<not> is_reason key then let (shown, hidden) = split_shown seen gs in ((key, g) # shown, hidden)
      else let (shown, hidden) = split_shown (Suc seen) gs in
        if Suc seen \<le> MAX_SHOWN_GROUPS then ((key, g) # shown, hidden) else (shown, (key, g) # hidden))"

definition summarize_denials :: "wording \<Rightarrow> denied_client list \<Rightarrow> string" where
  "summarize_denials x denials =
     (let groups = denial_groups x denials;
          reasons = length (filter (is_reason \<circ> fst) groups);
          (shown, hidden) = split_shown 0 groups in
      ALL_DENIED_HEADLINE @ '' ('' @ count_noun (length denials) ''client'' ''clients'' @ '', ''
      @ count_noun reasons ''distinct reason'' ''distinct reasons'' @ ''):''
      @ concat (map (\<lambda>(key, g). CHR 0x0A # ''- '' @ group_line key g) shown)
      @ (if hidden = [] then []
         else CHR 0x0A # ''- +''
           @ count_noun (length hidden) ''more distinct reason'' ''more distinct reasons'' @ '' (''
           @ count_noun (sum_list (map (length \<circ> rg_clients \<circ> snd) hidden)) ''client'' ''clients'' @ '')''))"

section \<open>The groups partition the clients\<close>

lemma rg_clients_add [simp]: "rg_clients (add_member c at shown g) = rg_clients g @ [c]"
  by (simp add: add_member_def Let_def split: option.split prod.split)

abbreviation key_of :: "wording \<Rightarrow> denied_client \<Rightarrow> group_key" where
  "key_of x d \<equiv> fst (denial_key x d)"

text \<open>After any number of denials a group holds, in order, the clients of its key.\<close>

definition grouped :: "wording \<Rightarrow> denied_client list \<Rightarrow> (group_key \<times> reason_group) list \<Rightarrow> bool" where
  "grouped x ds groups \<longleftrightarrow>
     distinct (map fst groups)
     \<and> (\<forall>k. map_option rg_clients (map_of groups k) =
          (case filter (\<lambda>d. key_of x d = k) ds of [] \<Rightarrow> None | es \<Rightarrow> Some (map dc_client_id es)))"

lemma grouped_add:
  assumes "grouped x ds groups"
  shows "grouped x (ds @ [d]) (add_denial x d groups)"
proof -
  obtain key at shown where k: "denial_key x d = (key, at, shown)"
    by (metis prod_cases3)
  have old: "map_option rg_clients (map_of groups k) =
      (case filter (\<lambda>d. key_of x d = k) ds of [] \<Rightarrow> None | es \<Rightarrow> Some (map dc_client_id es))" for k
    using assms by (simp add: grouped_def)
  have "map_option rg_clients (map_of (add_denial x d groups) k) =
      (case filter (\<lambda>d. key_of x d = k) (ds @ [d]) of [] \<Rightarrow> None | es \<Rightarrow> Some (map dc_client_id es))" for k
    using old [of k]
    by (cases "k = key"; cases "filter (\<lambda>d. key_of x d = k) ds")
      (auto simp: add_denial_def k update_conv' split: option.splits list.splits)
  moreover have "distinct (map fst (add_denial x d groups))"
    using assms by (simp add: grouped_def add_denial_def k distinct_update)
  ultimately show ?thesis
    unfolding grouped_def by blast
qed

lemma grouped_fold: "grouped x ds groups \<Longrightarrow> grouped x (ds @ es) (fold (add_denial x) es groups)"
proof (induction es arbitrary: ds groups)
  case (Cons d es)
  then show ?case
    using Cons.IH [OF grouped_add [OF Cons.prems]] by simp
qed simp

lemma grouped_all: "grouped x (sort_key dc_client_id ds) (fold (add_denial x) (sort_key dc_client_id ds) [])"
  using grouped_fold [of x "[]" "[]"] by (simp add: grouped_def)

lemma grouped_members:
  assumes "grouped x ds groups" "(k, g) \<in> set groups"
  shows "rg_clients g = map dc_client_id (filter (\<lambda>d. key_of x d = k) ds)"
proof -
  have g: "map_of groups k = Some g"
    using assms by (simp add: grouped_def)
  have "map_option rg_clients (map_of groups k) =
      (case filter (\<lambda>d. key_of x d = k) ds of [] \<Rightarrow> None | es \<Rightarrow> Some (map dc_client_id es))"
    using assms(1) unfolding grouped_def by blast
  then show ?thesis
    unfolding g by (cases "filter (\<lambda>d. key_of x d = k) ds") simp_all
qed

lemma grouped_keys: "grouped x ds groups \<Longrightarrow> fst ` set groups = key_of x ` set ds"
proof -
  assume g: "grouped x ds groups"
  have "k \<in> fst ` set groups \<longleftrightarrow> k \<in> key_of x ` set ds" for k
  proof -
    have "k \<in> fst ` set groups \<longleftrightarrow> map_option rg_clients (map_of groups k) \<noteq> None"
      by (simp add: map_of_eq_None_iff)
    also have "\<dots> \<longleftrightarrow> filter (\<lambda>d. key_of x d = k) ds \<noteq> []"
      using g by (simp add: grouped_def split: list.split)
    finally show ?thesis
      by (auto simp: filter_empty_conv)
  qed
  then show ?thesis
    by blast
qed

lemma split_shown_parts:
  "split_shown n gs = (shown, hidden) \<Longrightarrow>
   mset (shown @ hidden) = mset gs \<and> list_all (is_reason \<circ> fst) hidden
   \<and> length (filter (is_reason \<circ> fst) shown) \<le> MAX_SHOWN_GROUPS - n"
proof (induction n gs arbitrary: shown hidden rule: split_shown.induct)
  case (2 seen key g gs)
  show ?case
  proof (cases "is_reason key")
    case True
    obtain sh hi where r: "split_shown (Suc seen) gs = (sh, hi)"
      by fastforce
    show ?thesis
      using 2(2) [OF _ r] 2(3) True r by (auto simp: Let_def split: if_splits)
  next
    case False
    obtain sh hi where r: "split_shown seen gs = (sh, hi)"
      by fastforce
    show ?thesis
      using 2(1) [OF False r] 2(3) False r by (auto simp: Let_def)
  qed
qed simp

text \<open>
  C40: The all-denied message accounts for every client. The groups have distinct keys, the
  largest first; the clients of a group are exactly the denying clients whose denial has its
  key, each as often as it was given; every denial's key has a group. Of the groups, those
  without a reason are all shown, at most five of those with one are, and the rest is
  counted as hidden: no group is dropped or shown twice.
\<close>

theorem denial_groups_partition:
  "distinct (map fst (denial_groups x denials))
   \<and> fst ` set (denial_groups x denials) = key_of x ` set denials
   \<and> sorted_wrt (\<lambda>g h. length (rg_clients (snd h)) \<le> length (rg_clients (snd g))) (denial_groups x denials)
   \<and> ((k, g) \<in> set (denial_groups x denials) \<longrightarrow>
        mset (rg_clients g) = image_mset dc_client_id (filter_mset (\<lambda>d. key_of x d = k) (mset denials)))
   \<and> (split_shown 0 (denial_groups x denials) = (shown, hidden) \<longrightarrow>
        mset (shown @ hidden) = mset (denial_groups x denials)
        \<and> list_all (is_reason \<circ> fst) hidden
        \<and> length (filter (is_reason \<circ> fst) shown) \<le> 5)"
proof -
  let ?raw = "fold (add_denial x) (sort_key dc_client_id denials) []"
  let ?key = "\<lambda>(key :: group_key, g :: reason_group). (- int (length (rg_clients g)), key)"
  note all = grouped_all [of x denials]
  have perm: "mset (denial_groups x denials) = mset ?raw"
    by (simp add: denial_groups_def)
  then have "distinct (map fst (denial_groups x denials))"
    using all mset_eq_imp_distinct_iff [of "map fst (denial_groups x denials)" "map fst ?raw"]
    by (simp add: grouped_def)
  moreover have set: "set (denial_groups x denials) = set ?raw"
    by (simp add: denial_groups_def)
  moreover have "sorted (map ?key (denial_groups x denials))"
    by (simp add: denial_groups_def)
  then have "sorted_wrt (\<lambda>g h. ?key g \<le> ?key h) (denial_groups x denials)"
    by (simp add: sorted_map)
  then have "sorted_wrt (\<lambda>g h. length (rg_clients (snd h)) \<le> length (rg_clients (snd g))) (denial_groups x denials)"
    by (rule sorted_wrt_mono_rel [rotated]) (auto simp: less_eq_prod_def)
  moreover have "mset (rg_clients g) = image_mset dc_client_id (filter_mset (\<lambda>d. key_of x d = k) (mset denials))"
    if "(k, g) \<in> set (denial_groups x denials)"
    using grouped_members [OF all] that unfolding set by simp
  ultimately show ?thesis
    using grouped_keys [OF all] split_shown_parts [of 0 "denial_groups x denials" shown hidden]
    by (auto simp: MAX_SHOWN_GROUPS_def)
qed

text \<open>Only the brackets of \<open>[]\<close> are found: the first of them, at a known place.\<close>

definition plain_wording :: wording where
  "plain_wording = \<lparr>DEVICE_VALUE = None, TIMESTAMP = None,
     EMPTY_BRACKETS = Some (\<lambda>s. case split_once CHR ''['' s of
       Some (a, c # _) \<Rightarrow> if c = CHR '']'' then [\<lparr>rm_start = length a, rm_end = length a + 2, rm_named = []\<rparr>] else []
     | _ \<Rightarrow> [])\<rparr>"

definition sample_denial :: "client_id \<Rightarrow> string \<Rightarrow> denied_client" where
  "sample_denial c reason = \<lparr>dc_client_id = c, dc_record = Some \<lparr>denied_at = None,
     failure_reason = Some reason, dr_client_version = None, dr_runtime_version = None\<rparr>\<rparr>"

definition sample_denials :: "denied_client list" where
  "sample_denials = [sample_denial ''b'' ''[] oom '', sample_denial ''c'' ''bad'', sample_denial ''a'' ''oom'']"

theorem denial_groups_partition_witness:
  "map (\<lambda>(k, g). (k, rg_clients g)) (denial_groups plain_wording sample_denials)
      = [(Reason ''oom'', [''a'', ''b'']), (Reason ''bad'', [''c''])]
   \<and> distinct (map fst (denial_groups plain_wording sample_denials))"
proof -
  have "map (\<lambda>(k, g). (k, rg_clients g)) (denial_groups plain_wording sample_denials)
      = [(Reason ''oom'', [''a'', ''b'']), (Reason ''bad'', [''c''])]"
    by code_simp
  then show ?thesis
    using denial_groups_partition [of plain_wording sample_denials] by blast
qed

text \<open>The message is never blank, so a failure record can always carry it.\<close>

lemma summary_not_blank: "trim (summarize_denials x denials) \<noteq> []"
  by (rule trim_not_blank)
    (simp_all add: summarize_denials_def Let_def ALL_DENIED_HEADLINE_def plain_char_def split: prod.split)

end
