(* ===== verification/Plan_Markers.thy ===== *)
theory Plan_Markers
  imports Interference
begin

text \<open>
  Which plans hold a job: the \<open>job-plans/\<close> markers of \<open>LocalFsPlanStore\<close> in
  \<open>pipette-store-fs/src/lib.rs\<close>. A marker is an empty file named after the plan and the
  horizon until which the plan holds the job, in a directory per job.
\<close>

record job_plan_marker =
  jm_job_id :: job_id
  jm_plan_id :: plan_id
  jm_expires_at :: expires_at
  jm_written_at :: time

definition job_plan_path :: "ext \<Rightarrow> job_id \<Rightarrow> plan_id \<Rightarrow> expires_at \<Rightarrow> path" where
  "job_plan_path x j p e = (D_job_plans, j @ ''/'' @ job_plan_marker_filename x p e)"

text \<open>A directory removed while it was empty fails the write once; the retry recreates it.\<close>

definition write_job_plan_marker :: "ext \<Rightarrow> job_id \<Rightarrow> plan_id \<Rightarrow> expires_at \<Rightarrow> unit io" where
  "write_job_plan_marker x j p e =
     io_bind (attempt (write_file (job_plan_path x j p e) C_empty)) (\<lambda>r.
       case r of
         Inr _ \<Rightarrow> io_ret ()
       | Inl err \<Rightarrow>
           if err = E_io K_NotFound then write_file (job_plan_path x j p e) C_empty else io_raise err)"

definition list_job_plan_markers :: "ext \<Rightarrow> job_id \<Rightarrow> (plan_id \<times> expires_at) list io" where
  "list_job_plan_markers x j =
     io_bind (dir_exists D_job_plans j) (\<lambda>there.
       if \<not> there then io_ret []
       else io_bind (read_dir D_job_plans j) (\<lambda>es.
         io_bind (io_lift (parse_flags (parse_job_plan_marker_filename x) es)) (\<lambda>ms.
           io_ret (map fst ms))))"

definition list_all_job_plan_markers :: "ext \<Rightarrow> job_plan_marker list io" where
  "list_all_job_plan_markers x =
     io_bind (dir_exists D_job_plans []) (\<lambda>there.
       if \<not> there then io_ret []
       else io_bind (read_dir D_job_plans []) (\<lambda>jobs.
         io_fold (\<lambda>job markers.
           case job of
             Inl k \<Rightarrow> if k = K_NotFound then io_ret markers else io_raise (E_io k)
           | Inr (job_name, _) \<Rightarrow>
               (case job_id_try_new job_name of
                  Inl _ \<Rightarrow> io_ret markers
                | Inr j \<Rightarrow>
                    io_bind (vanished_is_absent (read_dir D_job_plans job_name)) (\<lambda>entries.
                      case entries of
                        None \<Rightarrow> io_ret markers
                      | Some es \<Rightarrow>
                          io_fold (\<lambda>marker markers.
                            case marker of
                              Inl k \<Rightarrow> if k = K_NotFound then io_ret markers else io_raise (E_io k)
                            | Inr (name, _) \<Rightarrow>
                                (case parse_job_plan_marker_filename x name of
                                   Inl _ \<Rightarrow> io_ret markers
                                 | Inr (p, e) \<Rightarrow>
                                     io_bind (vanished_is_absent
                                         (file_mtime (D_job_plans, job_name @ ''/'' @ name))) (\<lambda>written_at.
                                       io_ret (case written_at of
                                           None \<Rightarrow> markers
                                         | Some t \<Rightarrow> markers @ [\<lparr>jm_job_id = j, jm_plan_id = p,
                                             jm_expires_at = e, jm_written_at = t\<rparr>])))) es markers)))
           jobs []))"

definition delete_job_plan_marker :: "ext \<Rightarrow> job_id \<Rightarrow> plan_id \<Rightarrow> expires_at \<Rightarrow> unit io" where
  "delete_job_plan_marker x j p e = remove_file_idempotent (job_plan_path x j p e)"

section \<open>Under any interference\<close>

context marker_guarantee
begin

lemma safe_job_plans:
  "safe (write_job_plan_marker x j p e)" "safe (list_job_plan_markers x j)"
  "safe (list_all_job_plan_markers x)" "safe (delete_job_plan_marker x j p e)"
  unfolding write_job_plan_marker_def list_job_plan_markers_def list_all_job_plan_markers_def
    delete_job_plan_marker_def
  by (intro safe_intros safe_reads safe_dir_exists safe_markers;
      simp add: marker_dir_def job_plan_path_def)+

end

end
