(* ===== verification/Maintenance_Settle.thy ===== *)
theory Maintenance_Settle
  imports Frame Matching Denial_Summary Plan_Markers
begin

text \<open>
  The passes of \<open>pipette-pipeline/src/queue_maintenance.rs\<close> that end queue entries: expired
  leases go back to \<open>avail/\<close> or, lost too often, end their job; a job past its deadline is
  re-dated to the latest horizon a plan still holds or fails as expired; a job nobody can
  match and one every listed client denied fail too. One definition per function; the counts
  a pass only logs are left out, the one the run reports (\<open>failures\<close>) is kept.
\<close>

section \<open>What a run knows\<close>

record maintenance =
  m_ext :: ext
  m_catalog :: catalog
  m_wording :: wording
  m_lost_lease_limit :: nat
  m_plan_creating_max :: time

type_synonym bodies = "string \<Rightarrow> json option"
type_synonym pass = "avail_key list \<times> job_id set \<times> nat"

section \<open>Expired leases\<close>

datatype expired_lease = Settled lease_resolution | Retired nat bool

definition lost_lease_reason :: "(client_id \<times> time) list \<Rightarrow> string" where
  "lost_lease_reason losses =
     ''Lease lost without a result '' @ nat_str (length losses) @ '' times (clients: ''
     @ join '', '' (remdups_adj (sort (map fst losses))) @ '')''"

definition retire_lost_lease :: "maintenance \<Rightarrow> lease \<Rightarrow> (client_id \<times> time) list \<Rightarrow> time \<Rightarrow> expired_lease io" where
  "retire_lost_lease m l losses now =
     io_bind (get_leased (m_ext m) (l_job_id l) (l_expires_at l) (l_client_id l) (l_lease_expiry l)) (\<lambda>body.
       case body of
         None \<Rightarrow> io_ret (Settled L_Gone)
       | Some body \<Rightarrow>
           io_bind (resolve_job_terminal (m_ext m) (m_catalog m) (Q_Lease l) body
               (io_ret (lost_lease_reason losses)) LeaseLost now) (\<lambda>recorded.
             io_ret (Retired (length losses) recorded)))"

definition settle_expired_lease :: "maintenance \<Rightarrow> lease \<Rightarrow> time \<Rightarrow> expired_lease io" where
  "settle_expired_lease m l now =
     (let x = m_ext m; j = l_job_id l; e = l_expires_at l; c = l_client_id l; t = l_lease_expiry l;
          put_back = io_bind (resolve_or_recycle_lease x j e c t) (\<lambda>r. io_ret (Settled r)) in
      io_bind
        (if 0 < m_lost_lease_limit m then io_bind (has_record j) (\<lambda>b. io_ret (\<not> b)) else io_ret False)
        (\<lambda>lost.
           if \<not> lost then put_back
           else io_bind (write_lost_lease x j c t) (\<lambda>_.
             io_bind (list_lost_leases x j) (\<lambda>losses.
               if length losses < m_lost_lease_limit m then put_back
               else retire_lost_lease m l losses now))))"

definition settle_expired_leases :: "maintenance \<Rightarrow> time \<Rightarrow> (job_id set \<times> job_id set \<times> nat) io" where
  "settle_expired_leases m now =
     io_bind list_leased (\<lambda>keys.
       io_fold (\<lambda>key (seen, resolved, failures).
         case parse_leased_key (m_ext m) key of
           Inl _ \<Rightarrow> io_ret (seen, resolved, failures)
         | Inr l \<Rightarrow>
             let seen = insert (l_job_id l) seen in
             if now \<le> l_lease_expiry l then io_ret (seen, resolved, failures)
             else io_bind (attempt (settle_expired_lease m l now)) (\<lambda>r.
               io_ret (case r of
                   Inr (Settled L_ResolvedStale) \<Rightarrow> (seen, insert (l_job_id l) resolved, failures)
                 | Inr (Retired _ _) \<Rightarrow> (seen, insert (l_job_id l) resolved, failures)
                 | Inr _ \<Rightarrow> (seen, resolved, failures)
                 | Inl _ \<Rightarrow> (seen, resolved, Suc failures))))
         keys ({}, {}, 0))"

section \<open>The available jobs\<close>

definition reject_unmigrated_avail_keys :: "ext \<Rightarrow> string list \<Rightarrow> unit io" where
  "reject_unmigrated_avail_keys x keys =
     (case find (\<lambda>k. is_ok (parse_flat_avail_filename x k)) keys of
        Some _ \<Rightarrow> io_raise E_bail
      | None \<Rightarrow> io_ret ())"

record avail_listing =
  al_keys :: "avail_key list"
  al_skipped :: nat

definition collect_all_avail :: "ext \<Rightarrow> avail_listing io" where
  "collect_all_avail x =
     io_bind list_avail (\<lambda>keys.
     io_bind (reject_unmigrated_avail_keys x keys) (\<lambda>_.
       io_ret (fold (\<lambda>key listing.
         case parse_avail_filename x key of
           Inr (j, e) \<Rightarrow> listing\<lparr>al_keys := al_keys listing @
             [\<lparr>ak_key = key, ak_job_id = j, ak_expires_at = e\<rparr>]\<rparr>
         | Inl _ \<Rightarrow> listing\<lparr>al_skipped := Suc (al_skipped listing)\<rparr>) keys \<lparr>al_keys = [], al_skipped = 0\<rparr>)))"

text \<open>The body of an entry through the cache of the run; \<open>None\<close>: the entry has left \<open>avail/\<close>.\<close>

definition cached_body :: "ext \<Rightarrow> avail_key \<Rightarrow> bodies \<Rightarrow> (json option \<times> bodies) io" where
  "cached_body x a bodies =
     (case bodies (ak_key a) of
        Some b \<Rightarrow> io_ret (Some b, bodies)
      | None \<Rightarrow>
          io_bind (get_avail x (ak_job_id a) (ak_expires_at a)) (\<lambda>body.
            case body of
              None \<Rightarrow> io_ret (None, bodies)
            | Some b \<Rightarrow> io_ret (Some b, bodies(ak_key a \<mapsto> b))))"

section \<open>Jobs past their deadline\<close>

datatype overdue = O_Redated avail_key | O_Retired | O_Vanished

definition expire_one_job :: "maintenance \<Rightarrow> avail_key \<Rightarrow> time \<Rightarrow> time \<Rightarrow> bool io" where
  "expire_one_job m a deadline now =
     io_bind (get_avail (m_ext m) (ak_job_id a) (ak_expires_at a)) (\<lambda>body.
       case body of
         None \<Rightarrow> io_ret False
       | Some body \<Rightarrow>
           io_bind (resolve_job_terminal (m_ext m) (m_catalog m) (Q_Avail a) body
               (io_ret (''Job expired at '' @ rfc3339 (m_ext m) deadline @ '' before any client completed it''))
               Expired now) (\<lambda>_. io_ret True))"

definition latest_horizon :: "time \<Rightarrow> (plan_id \<times> expires_at) list \<Rightarrow> expires_at option" where
  "latest_horizon now members =
     (case filter (\<lambda>h. \<not> is_expired h now) (map snd members) of
        [] \<Rightarrow> None
      | h # hs \<Rightarrow> Some (fold max hs h))"

definition settle_overdue_job :: "maintenance \<Rightarrow> avail_key \<Rightarrow> time \<Rightarrow> time \<Rightarrow> overdue io" where
  "settle_overdue_job m a deadline now =
     (let x = m_ext m; j = ak_job_id a in
      io_bind (list_job_plan_markers x j) (\<lambda>members.
        case latest_horizon now members of
          None \<Rightarrow>
            io_bind (expire_one_job m a deadline now) (\<lambda>retired.
              io_ret (if retired then O_Retired else O_Vanished))
        | Some to \<Rightarrow>
            io_bind (redate_avail x j (ak_expires_at a) to) (\<lambda>r.
              case r of
                Redated \<Rightarrow>
                  io_bind (write_pending_reindex_job j) (\<lambda>_.
                    io_ret (O_Redated \<lparr>ak_key = avail_filename x j to, ak_job_id = j, ak_expires_at = to\<rparr>))
              | RedateGone \<Rightarrow> io_ret O_Vanished)))"

definition expire_overdue_jobs :: "maintenance \<Rightarrow> avail_key list \<Rightarrow> time \<Rightarrow> pass io" where
  "expire_overdue_jobs m all_keys now =
     io_fold (\<lambda>a (survivors, removed, failures).
       case ak_expires_at a of
         Never \<Rightarrow> io_ret (survivors @ [a], removed, failures)
       | At deadline \<Rightarrow>
           if \<not> is_expired (At deadline) now then io_ret (survivors @ [a], removed, failures)
           else io_bind (attempt (settle_overdue_job m a deadline now)) (\<lambda>r.
             io_ret (case r of
                 Inr (O_Redated b) \<Rightarrow> (survivors @ [b], removed, failures)
               | Inr O_Retired \<Rightarrow> (survivors, insert (ak_job_id a) removed, failures)
               | Inr O_Vanished \<Rightarrow> (survivors, removed, failures)
               | Inl _ \<Rightarrow> (survivors @ [a], removed, Suc failures))))
       all_keys ([], {}, 0)"

section \<open>Jobs nobody can match\<close>

text \<open>
  What a pass does with one entry once it has the body, and the entry through the cache,
  which keeps a body it has read also when the step after it fails.
\<close>

definition through_cache ::
  "ext \<Rightarrow> (json \<Rightarrow> bool io) \<Rightarrow> avail_key \<Rightarrow> bodies \<Rightarrow> ((err, bool) result \<times> bodies) io" where
  "through_cache x f a bodies =
     io_bind (attempt (cached_body x a bodies)) (\<lambda>r.
       case r of
         Inl e \<Rightarrow> io_ret (Inl e, bodies)
       | Inr (body, bodies) \<Rightarrow>
           (case body of
              None \<Rightarrow> io_ret (Inr False, bodies)
            | Some b \<Rightarrow> io_bind (attempt (f b)) (\<lambda>r. io_ret (r, bodies))))"

definition retire_rule :: "json \<Rightarrow> string option" where
  "retire_rule body =
     (if capability_clauses_malformed body
      then Some ''an eligibility clause is malformed, so the job fails closed for every client''
      else unmatchable_reason body)"

definition retire_body_if_unmatchable :: "maintenance \<Rightarrow> avail_key \<Rightarrow> time \<Rightarrow> json \<Rightarrow> bool io" where
  "retire_body_if_unmatchable m a now body =
     (case retire_rule body of
        None \<Rightarrow> io_ret False
      | Some rule \<Rightarrow>
          io_bind (resolve_job_terminal (m_ext m) (m_catalog m) (Q_Avail a) body
              (io_ret (''No client can ever be eligible for this job: '' @ rule)) Unmatchable now) (\<lambda>_.
            io_ret True))"

definition retire_one_if_unmatchable ::
  "maintenance \<Rightarrow> time \<Rightarrow> avail_key \<Rightarrow> bodies \<Rightarrow> ((err, bool) result \<times> bodies) io" where
  "retire_one_if_unmatchable m now a bodies =
     through_cache (m_ext m) (retire_body_if_unmatchable m a now) a bodies"

text \<open>The outcome of one entry, in a pass whose entries survive unless positively removed.\<close>

fun sort_out :: "avail_key \<Rightarrow> (err, bool) result \<Rightarrow> pass \<Rightarrow> pass" where
  "sort_out a (Inr True) (survivors, removed, failures) = (survivors, insert (ak_job_id a) removed, failures)"
| "sort_out a (Inr False) (survivors, removed, failures) = (survivors @ [a], removed, failures)"
| "sort_out a (Inl _) (survivors, removed, failures) = (survivors @ [a], removed, Suc failures)"

definition retire_unmatchable_jobs ::
  "maintenance \<Rightarrow> avail_key list \<Rightarrow> bodies \<Rightarrow> time \<Rightarrow> (pass \<times> bodies) io" where
  "retire_unmatchable_jobs m all_keys bodies now =
     io_fold (\<lambda>a (st, bodies).
       io_bind (retire_one_if_unmatchable m now a bodies) (\<lambda>(r, bodies).
         io_ret (sort_out a r st, bodies)))
       all_keys (([], {}, 0), bodies)"

section \<open>Jobs every listed client denied\<close>

definition denied_client_of :: "job_id \<Rightarrow> client_id \<Rightarrow> denied_client io" where
  "denied_client_of j c =
     io_bind (attempt (get_denied j c)) (\<lambda>r.
       io_ret \<lparr>dc_client_id = c, dc_record =
         (case r of Inl _ \<Rightarrow> None | Inr None \<Rightarrow> Some default_denial | Inr (Some rec) \<Rightarrow> Some rec)\<rparr>)"

definition escalate_body_if_all_denied ::
  "maintenance \<Rightarrow> avail_key \<Rightarrow> client_id list \<Rightarrow> time \<Rightarrow> json \<Rightarrow> bool io" where
  "escalate_body_if_all_denied m a denied now body =
     (case clients_only_roster body of
        None \<Rightarrow> io_ret False
      | Some roster \<Rightarrow>
          if \<not> list_all (\<lambda>c. c \<in> set denied) roster then io_ret False
          else
            let members = filter (\<lambda>d. d \<in> set roster) denied;
                failure_reason = io_bind (io_map (denied_client_of (ak_job_id a)) members)
                  (\<lambda>denials. io_ret (summarize_denials (m_wording m) denials)) in
            io_bind (resolve_job_terminal (m_ext m) (m_catalog m) (Q_Avail a) body failure_reason
                AllClientsDenied now) (\<lambda>_. io_ret True))"

definition escalate_one_if_all_denied ::
  "maintenance \<Rightarrow> time \<Rightarrow> client_id list \<Rightarrow> avail_key \<Rightarrow> bodies \<Rightarrow> ((err, bool) result \<times> bodies) io" where
  "escalate_one_if_all_denied m now denied a bodies =
     through_cache (m_ext m) (escalate_body_if_all_denied m a denied now) a bodies"

definition denied_by :: "(job_id \<times> client_id) list \<Rightarrow> job_id \<Rightarrow> client_id list" where
  "denied_by markers j = remdups (map snd (filter (\<lambda>(i, _). i = j) markers))"

definition escalate_all_denied_jobs ::
  "maintenance \<Rightarrow> avail_key list \<Rightarrow> bodies \<Rightarrow> time \<Rightarrow> (pass \<times> bodies) io" where
  "escalate_all_denied_jobs m all_keys bodies now =
     io_bind list_all_denied (\<lambda>markers.
       io_fold (\<lambda>a (st, bodies).
         case denied_by markers (ak_job_id a) of
           [] \<Rightarrow> io_ret (sort_out a (Inr False) st, bodies)
         | denied \<Rightarrow>
             io_bind (escalate_one_if_all_denied m now denied a bodies) (\<lambda>(r, bodies).
               io_ret (sort_out a r st, bodies)))
         all_keys (([], {}, 0), bodies))"

section \<open>Under any interference\<close>

text \<open>An entry as the listings and the re-dates give it: its key is below its job's directory.\<close>

definition avail_ok :: "avail_key \<Rightarrow> bool" where
  "avail_ok a \<longleftrightarrow> valid_job_id (ak_job_id a) \<and> starts_with (ak_job_id a @ ''/'') (ak_key a)"

lemma avail_ok_parsed:
  assumes "parse_avail_filename x k = Inr (j, e)"
  shows "avail_ok \<lparr>ak_key = k, ak_job_id = j, ak_expires_at = e\<rparr>"
proof -
  obtain s where "k = (j @ ''/'') @ s"
    using parse_avail_shape [OF assms] by (metis append.assoc)
  then show ?thesis
    using parse_avail_valid [OF assms] by (simp only: avail_ok_def starts_with_append avail_key.simps simp_thms)
qed

lemma avail_ok_redated:
  "valid_job_id j \<Longrightarrow> avail_ok \<lparr>ak_key = avail_filename x j e, ak_job_id = j, ak_expires_at = e\<rparr>"
  by (simp add: avail_ok_def avail_filename_def starts_with_iff)

lemma avail_ok_valid [simp]: "avail_ok a \<Longrightarrow> valid_job_id (ak_job_id a)"
  by (simp add: avail_ok_def)

lemma avail_ok_entry: "avail_ok a \<Longrightarrow> entry_ok (Q_Avail a)"
  by simp

context marker_guarantee
begin

definition cache_ok :: "bodies \<Rightarrow> bool" where
  "cache_ok bodies \<longleftrightarrow> (\<forall>j k b. valid_job_id j \<and> starts_with (j @ ''/'') k \<and> bodies k = Some b \<longrightarrow> bodyok j b)"

lemma cache_ok_empty: "cache_ok (\<lambda>_. None)"
  by (simp add: cache_ok_def)

lemma job_of_key: "valid_job_id j \<Longrightarrow> starts_with (j @ ''/'') k \<Longrightarrow> map_option fst (split_once CHR ''/'' k) = Some j"
  by (auto simp: starts_with_iff id_chars)

lemma cache_ok_update:
  assumes "cache_ok bodies" "avail_ok a" "bodyok (ak_job_id a) b"
  shows "cache_ok (bodies(ak_key a \<mapsto> b))"
proof -
  have "j = ak_job_id a" if "valid_job_id j" "starts_with (j @ ''/'') (ak_key a)" for j
    using job_of_key [OF that] job_of_key [of "ak_job_id a" "ak_key a"] assms(2) by (auto simp: avail_ok_def)
  with assms(1,3) show ?thesis
    by (auto simp: cache_ok_def)
qed

lemma knows_cached_body:
  assumes "avail_ok a" "cache_ok bodies"
  shows "knows (cached_body x a bodies) (\<lambda>(r, bs). cache_ok bs \<and> (\<forall>b. r = Some b \<longrightarrow> bodyok (ak_job_id a) b))"
proof (cases "bodies (ak_key a)")
  case None
  have "knows (case body of None \<Rightarrow> io_ret (None, bodies)
      | Some b \<Rightarrow> io_ret (Some b, bodies(ak_key a \<mapsto> b)))
      (\<lambda>(r, bs). cache_ok bs \<and> (\<forall>b. r = Some b \<longrightarrow> bodyok (ak_job_id a) b))"
    if "\<forall>b. body = Some b \<longrightarrow> bodyok (ak_job_id a) b" for body
    using that assms by (cases body) (simp_all add: knows_ret cache_ok_update)
  then show ?thesis
    unfolding cached_body_def None option.case
    by (rule knows_bind [OF knows_get_avail [OF avail_ok_valid [OF assms(1)]]])
next
  case (Some b)
  then have "bodyok (ak_job_id a) b"
    using assms unfolding cache_ok_def avail_ok_def by blast
  with Some assms(2) show ?thesis
    by (simp add: cached_body_def knows_ret)
qed

lemma knows_through_cache:
  assumes "avail_ok a" "cache_ok bodies" "\<And>b. bodyok (ak_job_id a) b \<Longrightarrow> safe (f b)"
  shows "knows (through_cache x f a bodies) (\<lambda>(_, bs). cache_ok bs)"
proof -
  have "knows (case r of Inl e \<Rightarrow> io_ret (Inl e, bodies)
      | Inr (body, bodies) \<Rightarrow> (case body of None \<Rightarrow> io_ret (Inr False, bodies)
          | Some b \<Rightarrow> io_bind (attempt (f b)) (\<lambda>r. io_ret (r, bodies)))) (\<lambda>(_, bs). cache_ok bs)"
    if known: "\<forall>p. r = Inr p \<longrightarrow> (case p of (v, bs) \<Rightarrow> cache_ok bs \<and> (\<forall>b. v = Some b \<longrightarrow> bodyok (ak_job_id a) b))" for r
  proof (cases r)
    case (Inr p)
    then obtain v bs where p: "r = Inr (v, bs)" "cache_ok bs" "\<forall>b. v = Some b \<longrightarrow> bodyok (ak_job_id a) b"
      using known by (cases p) auto
    then show ?thesis
      by (cases v) (auto intro!: knows_ret knows_bind [OF safe_knows] safe_attempt assms(3))
  qed (simp add: knows_ret assms(2))
  then show ?thesis
    unfolding through_cache_def
    by (rule knows_bind [OF knows_attempt [OF knows_cached_body [OF assms(1,2)]]])
qed

lemma collect_fold:
  "list_all avail_ok (al_keys listing) \<Longrightarrow>
   list_all avail_ok (al_keys (fold (\<lambda>key listing.
         case parse_avail_filename x key of
           Inr (j, e) \<Rightarrow> listing\<lparr>al_keys := al_keys listing @
             [\<lparr>ak_key = key, ak_job_id = j, ak_expires_at = e\<rparr>]\<rparr>
         | Inl _ \<Rightarrow> listing\<lparr>al_skipped := Suc (al_skipped listing)\<rparr>) keys listing))"
  by (induction keys arbitrary: listing) (auto simp: avail_ok_parsed split: sum.splits)

lemma knows_collect_all_avail: "knows (collect_all_avail x) (\<lambda>l. list_all avail_ok (al_keys l))"
  unfolding collect_all_avail_def reject_unmigrated_avail_keys_def
  by (intro knows_bind [OF safe_knows] safe_intros safe_todo_reads knows_ret collect_fold) simp

definition pass_ok :: "pass \<times> bodies \<Rightarrow> bool" where
  "pass_ok = (\<lambda>((survivors, _, _), bodies). list_all avail_ok survivors \<and> cache_ok bodies)"

lemma pass_ok_sort_out: "pass_ok (st, bs) \<Longrightarrow> cache_ok bs' \<Longrightarrow> avail_ok a \<Longrightarrow> pass_ok (sort_out a r st, bs')"
  by (cases "(a, r, st)" rule: sort_out.cases) (auto simp: pass_ok_def)

lemma knows_pass:
  assumes "list_all avail_ok keys" "cache_ok bodies"
    and "\<And>a bs. avail_ok a \<Longrightarrow> cache_ok bs \<Longrightarrow> knows (step a bs) (\<lambda>(_, bs). cache_ok bs)"
  shows "knows (io_fold (\<lambda>a (st, bs). io_bind (step a bs) (\<lambda>(r, bs). io_ret (sort_out a r st, bs)))
    keys (([], {}, 0), bodies)) pass_ok"
proof (rule knows_fold)
  show "pass_ok (([], {}, 0), bodies)"
    using assms(2) by (simp add: pass_ok_def)
  fix a and acc :: "pass \<times> bodies"
  assume a: "a \<in> set keys" and ok: "pass_ok acc"
  then have "avail_ok a" "cache_ok (snd acc)"
    using assms(1) by (auto simp: list_all_iff pass_ok_def)
  with ok show "knows (case acc of (st, bs) \<Rightarrow> io_bind (step a bs) (\<lambda>(r, bs). io_ret (sort_out a r st, bs))) pass_ok"
    by (cases acc) (auto intro!: knows_bind [OF assms(3)] knows_ret pass_ok_sort_out)
qed

end

text \<open>
  What the passes may end: leases past their expiry, entries past their deadline, and entries whose
  body nobody can match or whose body names its clients.
\<close>

context entry_guarantee
begin

definition may_settle :: "maintenance \<Rightarrow> time \<Rightarrow> bool" where
  "may_settle m now \<longleftrightarrow>
     (\<forall>l. entry_ok (Q_Lease l) \<and> l_lease_expiry l < now \<longrightarrow> may (m_ext m) (Q_Lease l))
     \<and> (\<forall>a. avail_ok a \<and> is_expired (ak_expires_at a) now \<longrightarrow> may (m_ext m) (Q_Avail a))
     \<and> (\<forall>a b. avail_ok a \<and> bodyok (ak_job_id a) b \<and> (retire_rule b \<noteq> None \<or> clients_only_roster b \<noteq> None) \<longrightarrow>
          may (m_ext m) (Q_Avail a))"

lemma may_settleD:
  assumes "may_settle m now"
  shows "entry_ok (Q_Lease l) \<Longrightarrow> l_lease_expiry l < now \<Longrightarrow> may (m_ext m) (Q_Lease l)"
    and "avail_ok a \<Longrightarrow> is_expired (ak_expires_at a) now \<Longrightarrow> may (m_ext m) (Q_Avail a)"
    and "avail_ok a \<Longrightarrow> bodyok (ak_job_id a) b \<Longrightarrow> retire_rule b \<noteq> None \<or> clients_only_roster b \<noteq> None \<Longrightarrow>
      may (m_ext m) (Q_Avail a)"
  using assms unfolding may_settle_def by blast+

lemma safe_settle_expired_lease:
  assumes "may_settle m now" "entry_ok (Q_Lease l)" "l_lease_expiry l < now"
  shows "safe (settle_expired_lease m l now)"
proof -
  note may = may_settleD(1) [OF assms]
  have "safe (retire_lost_lease m l losses now)" for losses
    unfolding retire_lost_lease_def using may assms(2)
    by (intro knows_bind_safe [OF knows_get_leased]) (auto intro!: safe_intros terminate split: option.split)
  then show ?thesis
    unfolding settle_expired_lease_def Let_def using may assms(2)
    by (intro safe_intros safe_has_record safe_todo_reads safe_todo_writes put_back)
qed

lemma safe_settle_expired_leases: "may_settle m now \<Longrightarrow> safe (settle_expired_leases m now)"
  unfolding settle_expired_leases_def Let_def
  by (intro safe_intros safe_todo_reads safe_settle_expired_lease) (auto dest: parse_lease_valid)

lemma knows_settle_overdue:
  assumes "may (m_ext m) (Q_Avail a)" "avail_ok a"
  shows "knows (settle_overdue_job m a deadline now) (\<lambda>r. \<forall>b. r = O_Redated b \<longrightarrow> avail_ok b)"
proof -
  have v: "valid_job_id (ak_job_id a)"
    using assms(2) by (simp add: avail_ok_def)
  have expire: "safe (expire_one_job m a deadline now)"
    unfolding expire_one_job_def using assms v
    by (intro knows_bind_safe [OF knows_get_avail]) (auto intro!: safe_intros terminate split: option.split)
  show ?thesis
    unfolding settle_overdue_job_def Let_def
    by (intro knows_bind [OF safe_knows] safe_job_plans)
      (auto simp: v avail_ok_redated intro!: knows_bind [OF safe_knows] knows_ret expire assms
        redate safe_todo_writes split: option.split redate_result.split if_splits)
qed

lemma knows_expire_overdue_jobs:
  assumes "may_settle m now" "list_all avail_ok keys"
  shows "knows (expire_overdue_jobs m keys now) (\<lambda>(survivors, _, _). list_all avail_ok survivors)"
proof (unfold expire_overdue_jobs_def, rule knows_fold)
  fix a and acc :: pass
  assume a: "a \<in> set keys" and acc: "case acc of (survivors, _, _) \<Rightarrow> list_all avail_ok survivors"
  then have ok: "avail_ok a"
    using assms(2) by (simp add: list_all_iff)
  note may = may_settleD(2) [OF assms(1) ok]
  show "knows (case acc of (survivors, removed, failures) \<Rightarrow> case ak_expires_at a of
      Never \<Rightarrow> io_ret (survivors @ [a], removed, failures)
    | At deadline \<Rightarrow> if \<not> is_expired (At deadline) now then io_ret (survivors @ [a], removed, failures)
      else io_bind (attempt (settle_overdue_job m a deadline now)) (\<lambda>r. io_ret (case r of
          Inr (O_Redated b) \<Rightarrow> (survivors @ [b], removed, failures)
        | Inr O_Retired \<Rightarrow> (survivors, insert (ak_job_id a) removed, failures)
        | Inr O_Vanished \<Rightarrow> (survivors, removed, failures)
        | Inl _ \<Rightarrow> (survivors @ [a], removed, Suc failures))))
    (\<lambda>(survivors, _, _). list_all avail_ok survivors)"
    using acc ok may
    by (auto intro!: knows_ret knows_bind [OF knows_attempt [OF knows_settle_overdue]]
      split: expires_at.split sum.splits overdue.splits)
qed simp

lemma safe_retire_body:
  assumes "may_settle m now" "avail_ok a" "bodyok (ak_job_id a) b"
  shows "safe (retire_body_if_unmatchable m a now b)"
proof (cases "retire_rule b")
  case (Some rule)
  then have "may (m_ext m) (Q_Avail a)"
    using may_settleD(3) [OF assms] by simp
  with Some assms show ?thesis
    unfolding retire_body_if_unmatchable_def by (auto intro!: safe_intros terminate)
qed (simp add: retire_body_if_unmatchable_def safe_ret)

lemma safe_escalate_body:
  assumes "may_settle m now" "avail_ok a" "bodyok (ak_job_id a) b"
  shows "safe (escalate_body_if_all_denied m a denied now b)"
proof (cases "clients_only_roster b")
  case (Some roster)
  then have "may (m_ext m) (Q_Avail a)"
    using may_settleD(3) [OF assms] by simp
  with Some assms show ?thesis
    unfolding escalate_body_if_all_denied_def Let_def denied_client_of_def
    by (auto intro!: safe_intros terminate safe_todo_reads)
qed (simp add: escalate_body_if_all_denied_def safe_ret)

lemma knows_retire_unmatchable:
  assumes "may_settle m now" "list_all avail_ok keys" "cache_ok bodies"
  shows "knows (retire_unmatchable_jobs m keys bodies now) pass_ok"
  unfolding retire_unmatchable_jobs_def retire_one_if_unmatchable_def
  by (intro knows_pass knows_through_cache safe_retire_body assms)

lemma knows_escalate_all_denied:
  assumes "may_settle m now" "list_all avail_ok keys" "cache_ok bodies"
  shows "knows (escalate_all_denied_jobs m keys bodies now) pass_ok"
proof -
  have split: "(case ds of [] \<Rightarrow> io_ret (sort_out a (Inr False) st, bs)
      | d # r \<Rightarrow> io_bind (escalate_one_if_all_denied m now (d # r) a bs) (\<lambda>(r, bs). io_ret (sort_out a r st, bs)))
    = io_bind (if ds = [] then io_ret (Inr False, bs) else escalate_one_if_all_denied m now ds a bs)
        (\<lambda>(r, bs). io_ret (sort_out a r st, bs))" for ds a st bs
    by (cases ds) (simp_all add: io_bind_def io_ret_def fun_eq_iff)
  show ?thesis
    unfolding escalate_all_denied_jobs_def split
    by (intro knows_bind [OF safe_knows] safe_todo_reads knows_pass assms)
      (auto simp: escalate_one_if_all_denied_def assms(1) intro!: knows_ret knows_through_cache safe_escalate_body)
qed

end

end
