(* ===== verification/Maintenance_Index.thy ===== *)
theory Maintenance_Index
  imports Maintenance_Settle
begin

text \<open>
  The passes of \<open>pipette-pipeline/src/queue_maintenance.rs\<close> that keep the \<open>eligible/\<close> index: the
  workers that joined or left, the jobs not indexed yet, the clients and the jobs flagged for
  a rebuild, and which jobs stay out of the index until a plan of theirs is committed.

  The client and tag stores are read several times in a run and may change in between: \<open>fleet\<close>
  gives the answer to each read, and a read is numbered by the draws made before it.
\<close>

section \<open>The other stores\<close>

record fleet =
  r_clients :: "nat \<Rightarrow> (err, client list \<times> nat) result"
  r_get_client :: "nat \<Rightarrow> client_id \<Rightarrow> (err, client option) result"
  r_client_tags :: "nat \<Rightarrow> client_id \<Rightarrow> (err, tag list) result"
  r_tag_markers :: "nat \<Rightarrow> (err, (client_id \<times> tag) list) result"

definition ask :: "(nat \<Rightarrow> (err, 'a) result) \<Rightarrow> 'a io" where
  "ask f w = (f (w_draws w), w\<lparr>w_draws := Suc (w_draws w)\<rparr>)"

definition ask_client_tags :: "fleet \<Rightarrow> client_id \<Rightarrow> fleet_tags io" where
  "ask_client_tags fleet c =
     io_bind (ask (\<lambda>n. r_client_tags fleet n c)) (\<lambda>tags.
       io_ret (fleet_tags_new (map (Pair c) tags)))"

section \<open>Workers that joined or left\<close>

definition track_worker_changes :: "client_id list \<Rightarrow> client_id list \<Rightarrow> client_id list io" where
  "track_worker_changes indexed crew =
     (if set indexed = set crew then io_ret []
      else io_bind (io_for (sort (filter (\<lambda>c. c \<notin> set crew) (remdups indexed))) delete_eligible_for_client)
        (\<lambda>_. io_ret (sort (filter (\<lambda>c. c \<notin> set indexed) (remdups crew)))))"

section \<open>Jobs of plans that are not committed\<close>

definition plan_status_of :: "'p plan_manifest_scheme list \<Rightarrow> plan_id \<Rightarrow> plan_status option" where
  "plan_status_of manifests = map_of (rev (map (\<lambda>p. (pm_plan_id p, pm_status p)) manifests))"

definition uncommitted_jobs ::
  "job_id list \<Rightarrow> job_plan_marker list \<Rightarrow> 'p plan_manifest_scheme list \<Rightarrow> job_id list" where
  "uncommitted_jobs jobs markers manifests =
     (let committed = set (map jm_job_id (filter (\<lambda>m.
            case plan_status_of manifests (jm_plan_id m) of
              None \<Rightarrow> False
            | Some st \<Rightarrow> st \<noteq> Creating) markers));
          has_membership = set (map jm_job_id markers) in
      filter (\<lambda>j. j \<in> has_membership \<and> j \<notin> committed) jobs)"

section \<open>New jobs\<close>

definition index_job :: "ext \<Rightarrow> client list \<Rightarrow> fleet_tags \<Rightarrow> avail_key \<Rightarrow> bodies \<Rightarrow> bodies io" where
  "index_job x crew tags a bodies =
     io_bind (cached_body x a bodies) (\<lambda>(body, bodies).
       case body of
         None \<Rightarrow> io_ret bodies
       | Some b \<Rightarrow>
           io_bind (io_for crew (\<lambda>client.
               io_when (job_matches_client x b client tags)
                 (write_eligible x (client_id client) (ak_job_id a) (ak_expires_at a))))
             (\<lambda>_. io_ret bodies))"

definition index_new_jobs ::
  "ext \<Rightarrow> client list \<Rightarrow> fleet_tags \<Rightarrow> avail_key list \<Rightarrow> string list \<Rightarrow> bodies \<Rightarrow> bodies io" where
  "index_new_jobs x crew tags all_keys leased_avail_keys bodies =
     io_bind read_eligible_indexed (\<lambda>indexed.
     io_bind (io_fold (index_job x crew tags) (filter (\<lambda>a. ak_key a \<notin> set indexed) all_keys) bodies) (\<lambda>bodies.
     let retained = remdups (map ak_key all_keys @ leased_avail_keys) in
     io_bind (io_when (set retained \<noteq> set indexed) (write_eligible_indexed retained)) (\<lambda>_.
       io_ret bodies)))"

section \<open>Flagged clients\<close>

definition flags_by_client ::
  "client_id list \<Rightarrow> (client_id \<times> string) list \<Rightarrow> (client_id \<times> string list) list" where
  "flags_by_client joined flags =
     map (\<lambda>c. (c, map snd (filter (\<lambda>(d, _). d = c) flags))) (sort (remdups (joined @ map fst flags)))"

definition rebuild_job ::
  "ext \<Rightarrow> client_id \<Rightarrow> client \<Rightarrow> fleet_tags \<Rightarrow> avail_key \<Rightarrow> bodies \<Rightarrow> bodies io" where
  "rebuild_job x c client tags a bodies =
     io_bind (cached_body x a bodies) (\<lambda>(body, bodies).
       io_bind
         (case body of
            None \<Rightarrow> write_pending_reindex_job (ak_job_id a)
          | Some b \<Rightarrow>
              io_when (job_matches_client x b client tags)
                (write_eligible x c (ak_job_id a) (ak_expires_at a)))
         (\<lambda>_. io_ret bodies))"

definition current_capabilities :: "ext \<Rightarrow> fleet \<Rightarrow> client_id \<Rightarrow> string set option io" where
  "current_capabilities x fleet c =
     io_bind (ask (\<lambda>n. r_get_client fleet n c)) (\<lambda>record.
     io_bind (ask_client_tags fleet c) (\<lambda>tags.
       io_ret (map_option (capabilities_of x tags) record)))"

definition reindex_client ::
  "ext \<Rightarrow> fleet \<Rightarrow> client_id list \<Rightarrow> avail_key list \<Rightarrow> client_id \<times> string list \<Rightarrow> bodies \<Rightarrow> bodies io" where
  "reindex_client x fleet crew all_keys flagged bodies =
     (let (c, keys) = flagged; drop_flags = io_for keys delete_pending_reindex in
      io_bind (if c \<in> set crew then ask (\<lambda>n. r_get_client fleet n c) else io_ret None) (\<lambda>record.
        case record of
          None \<Rightarrow>
            io_bind (delete_eligible_for_client c) (\<lambda>_. io_bind drop_flags (\<lambda>_. io_ret bodies))
        | Some client \<Rightarrow>
            io_bind (ask_client_tags fleet c) (\<lambda>tags.
            io_bind (delete_eligible_for_client c) (\<lambda>_.
            io_bind (io_fold (rebuild_job x c client tags) all_keys bodies) (\<lambda>bodies.
            io_bind (attempt (current_capabilities x fleet c)) (\<lambda>fresh.
              if fresh = Inr (Some (capabilities_of x tags client))
              then io_bind drop_flags (\<lambda>_. io_ret bodies)
              else io_ret bodies))))))"

definition reindex_flagged_clients ::
  "ext \<Rightarrow> fleet \<Rightarrow> client_id list \<Rightarrow> client_id list \<Rightarrow> avail_key list \<Rightarrow> job_id list \<Rightarrow> bodies \<Rightarrow> bodies io" where
  "reindex_flagged_clients x fleet crew joined all_keys leased_ids bodies =
     io_bind list_pending_reindex (\<lambda>flags.
       let by_client = flags_by_client joined flags in
       if by_client = [] then io_ret bodies
       else
         io_bind (io_when (list_ex (\<lambda>(c, _). c \<in> set crew) by_client)
             (io_for (sort (remdups leased_ids)) write_pending_reindex_job)) (\<lambda>_.
           io_fold (reindex_client x fleet crew all_keys) by_client bodies))"

section \<open>Flagged jobs\<close>

definition settle_pending_job ::
  "ext \<Rightarrow> client list \<Rightarrow> fleet_tags \<Rightarrow> client_id list \<Rightarrow> avail_key list \<Rightarrow> job_id \<Rightarrow> bodies \<Rightarrow> bodies io" where
  "settle_pending_job x clients tags crew all_keys j bodies =
     (case map_of (rev (map (\<lambda>a. (ak_job_id a, a)) all_keys)) j of
        None \<Rightarrow>
          io_bind (has_record j) (\<lambda>recorded.
          io_bind (io_when recorded (delete_pending_reindex_job j)) (\<lambda>_. io_ret bodies))
      | Some a \<Rightarrow>
          io_bind (cached_body x a bodies) (\<lambda>(body, bodies).
            case body of
              None \<Rightarrow> io_ret bodies
            | Some b \<Rightarrow>
                io_bind (io_for clients (\<lambda>client.
                    if client_id client \<in> set crew \<and> job_matches_client x b client tags
                    then write_eligible x (client_id client) (ak_job_id a) (ak_expires_at a)
                    else delete_eligible x (client_id client) (ak_job_id a) (ak_expires_at a))) (\<lambda>_.
                io_bind (delete_pending_reindex_job j) (\<lambda>_. io_ret bodies))))"

definition settle_pending_reindex_jobs ::
  "ext \<Rightarrow> fleet \<Rightarrow> client_id list \<Rightarrow> avail_key list \<Rightarrow> bodies \<Rightarrow> (nat \<times> bodies) io" where
  "settle_pending_reindex_jobs x fleet crew all_keys bodies =
     io_bind list_pending_reindex_jobs (\<lambda>flags.
       if flags = [] then io_ret (0, bodies)
       else io_bind (ask (r_clients fleet)) (\<lambda>(clients, unreadable).
         io_bind (ask (r_tag_markers fleet)) (\<lambda>markers.
         io_bind (io_fold (settle_pending_job x clients (fleet_tags_new markers) crew all_keys) flags bodies) (\<lambda>bodies.
           io_ret (length clients + unreadable, bodies)))))"

section \<open>Under any interference\<close>

context marker_guarantee
begin

lemma safe_ask: "safe (ask f)"
  by (auto simp: safe_def rg_def ask_def R_refl sched_ok_def)

lemmas safe_index = safe_intros safe_todo_reads safe_todo_writes safe_ask safe_has_record

lemma safe_ask_tags: "safe (ask_client_tags fleet c)" "safe (current_capabilities x fleet c)"
  unfolding current_capabilities_def ask_client_tags_def by (intro safe_index)+

lemma safe_key_sets: "safe read_eligible_indexed" "safe read_eligible_workers" "safe read_gc_candidates"
  unfolding read_eligible_indexed_def read_eligible_workers_def read_gc_candidates_def by (rule safe_todo_reads)+

lemma safe_track_worker_changes: "safe (track_worker_changes indexed crew)"
  unfolding track_worker_changes_def by (intro safe_index)

lemma knows_with_body:
  assumes "avail_ok a" "cache_ok bodies" "\<And>v. safe (f v)"
  shows "knows (io_bind (cached_body x a bodies) (\<lambda>(v, bs). io_bind (f v) (\<lambda>_. io_ret bs))) cache_ok"
  by (rule knows_bind [OF knows_cached_body [OF assms(1,2)]])
    (auto intro!: knows_bind [OF safe_knows [OF assms(3)]] knows_ret)

lemma knows_index_job:
  assumes "avail_ok a" "cache_ok bodies"
  shows "knows (index_job x crew tags a bodies) cache_ok"
proof -
  have "index_job x crew tags a bodies = io_bind (cached_body x a bodies) (\<lambda>(v, bs). io_bind
      (case v of None \<Rightarrow> io_ret () | Some b \<Rightarrow> io_for crew (\<lambda>client.
         io_when (job_matches_client x b client tags)
           (write_eligible x (client_id client) (ak_job_id a) (ak_expires_at a)))) (\<lambda>_. io_ret bs))"
    unfolding index_job_def
    by (intro arg_cong [where f = "io_bind _"] ext) (auto simp: io_bind_def io_ret_def split: option.split)
  then show ?thesis
    by (simp only:) (intro knows_with_body assms safe_index)
qed

lemma knows_index_new_jobs:
  assumes "list_all avail_ok keys" "cache_ok bodies"
  shows "knows (index_new_jobs x crew tags keys leased bodies) cache_ok"
  unfolding index_new_jobs_def Let_def using assms
  by (intro knows_bind [OF safe_knows [OF safe_key_sets(1)]] knows_bind [where Q = cache_ok] knows_fold
      knows_index_job knows_bind [OF safe_knows] safe_when safe_todo_writes knows_ret)
    (auto simp: list_all_iff)

lemma knows_rebuild_job:
  "avail_ok a \<Longrightarrow> cache_ok bodies \<Longrightarrow> knows (rebuild_job x c client tags a bodies) cache_ok"
  unfolding rebuild_job_def by (intro knows_with_body safe_index)

lemma knows_reindex_client:
  assumes "list_all avail_ok keys" "cache_ok bodies"
  shows "knows (reindex_client x fleet crew keys flagged bodies) cache_ok"
proof -
  obtain c ks where f: "flagged = (c, ks)"
    by fastforce
  have fin: "knows (io_bind (io_for ks delete_pending_reindex) (\<lambda>_. io_ret bs)) cache_ok" if "cache_ok bs" for bs
    using that by (intro knows_bind [OF safe_knows] safe_index knows_ret)
  have clear: "knows (io_bind (delete_eligible_for_client c) (\<lambda>_.
      io_bind (io_for ks delete_pending_reindex) (\<lambda>_. io_ret bodies))) cache_ok"
    using assms(2) by (intro knows_bind [OF safe_knows] safe_index fin)
  have "knows (io_bind (ask_client_tags fleet c) (\<lambda>tags.
      io_bind (delete_eligible_for_client c) (\<lambda>_.
      io_bind (io_fold (rebuild_job x c client tags) keys bodies) (\<lambda>bodies.
      io_bind (attempt (current_capabilities x fleet c)) (\<lambda>fresh.
        if fresh = Inr (Some (capabilities_of x tags client))
        then io_bind (io_for ks delete_pending_reindex) (\<lambda>_. io_ret bodies)
        else io_ret bodies))))) cache_ok" for client
    using assms
    by (intro knows_bind [OF safe_knows [OF safe_ask_tags(1)]]
        knows_bind [OF safe_knows [OF safe_todo_writes(5)]] knows_bind [where Q = cache_ok] knows_fold
        knows_rebuild_job knows_bind [OF safe_knows [OF safe_attempt [OF safe_ask_tags(2)]]])
      (auto simp: list_all_iff intro: fin knows_ret)
  then show ?thesis
    unfolding reindex_client_def Let_def f prod.case
    by (intro knows_bind [OF safe_knows] safe_index) (auto intro: clear split: option.split)
qed

lemma knows_reindex_flagged:
  assumes "list_all avail_ok keys" "cache_ok bodies"
  shows "knows (reindex_flagged_clients x fleet crew joined keys leased bodies) cache_ok"
  unfolding reindex_flagged_clients_def Let_def
  using assms knows_ret [of cache_ok bodies]
  by (intro knows_bind [OF safe_knows [OF safe_todo_reads(14)]])
    (auto intro!: knows_bind [OF safe_knows] safe_index knows_fold knows_reindex_client)

lemma knows_settle_pending_job:
  assumes "list_all avail_ok keys" "cache_ok bodies"
  shows "knows (settle_pending_job x clients tags crew keys j bodies) cache_ok"
proof (cases "map_of (rev (map (\<lambda>a. (ak_job_id a, a)) keys)) j")
  case None
  with assms(2) show ?thesis
    by (auto simp: settle_pending_job_def intro!: knows_bind [OF safe_knows] safe_index knows_ret)
next
  case (Some a)
  then have "avail_ok a"
    using assms(1) by (auto simp: list_all_iff dest!: map_of_SomeD)
  then show ?thesis
    unfolding settle_pending_job_def Some option.case
    by (intro knows_bind [OF knows_cached_body [OF _ assms(2)]])
      (auto intro!: knows_ret knows_bind [OF safe_knows] safe_index split: option.split)
qed

lemma knows_settle_pending_jobs:
  assumes "list_all avail_ok keys" "cache_ok bodies"
  shows "knows (settle_pending_reindex_jobs x fleet crew keys bodies) (\<lambda>(_, bs). cache_ok bs)"
proof -
  have "knows (io_bind (ask (r_clients fleet)) (\<lambda>(clients, unreadable).
      io_bind (ask (r_tag_markers fleet)) (\<lambda>markers.
      io_bind (io_fold (settle_pending_job x clients (fleet_tags_new markers) crew keys) flags bodies) (\<lambda>bodies.
        io_ret (length clients + unreadable, bodies))))) (\<lambda>(_, bs). cache_ok bs)" for flags
    using assms
    by (intro knows_bind [OF safe_knows [OF safe_ask]])
      (auto intro!: knows_bind [OF safe_knows [OF safe_ask]] knows_bind [where Q = cache_ok] knows_fold
        knows_settle_pending_job knows_ret)
  with assms(2) show ?thesis
    unfolding settle_pending_reindex_jobs_def
    by (intro knows_bind [OF safe_knows [OF safe_todo_reads(16)]]) (auto intro: knows_ret)
qed

end

end
