(* ===== verification/Crash_Logic.thy ===== *)
theory Crash_Logic
  imports Interference
begin

text \<open>
  Hoare triples with a crash condition, for code that is the only writer of the files it is about.
  \<open>chl A P m Q E\<close>: from a state satisfying \<open>P\<close>, while the other processes do only actions
  allowed by \<open>A\<close>, the run of \<open>m\<close> ends with \<open>Q\<close> of its result, or in a state satisfying \<open>E\<close> when a
  call fails or the process dies. A condition has to be \<open>upheld\<close> by the actions of the others.
\<close>

definition upheld :: "(act \<Rightarrow> bool) \<Rightarrow> (fs \<Rightarrow> bool) \<Rightarrow> bool" where
  "upheld A P \<longleftrightarrow> (\<forall>a s. A a \<and> P s \<longrightarrow> P (perform a s))"

definition chl ::
  "(act \<Rightarrow> bool) \<Rightarrow> (fs \<Rightarrow> bool) \<Rightarrow> 'a io \<Rightarrow> ('a \<Rightarrow> fs \<Rightarrow> bool) \<Rightarrow> (fs \<Rightarrow> bool) \<Rightarrow> bool" where
  "chl A P m Q E \<longleftrightarrow>
     (\<forall>w r w'. sched_ok A w \<and> P (w_fs w) \<and> m w = (r, w') \<longrightarrow>
        sched_ok A w' \<and> (case r of Inr a \<Rightarrow> Q a (w_fs w') | Inl _ \<Rightarrow> E (w_fs w')))"

lemma chlD:
  "chl A P m Q E \<Longrightarrow> sched_ok A w \<Longrightarrow> P (w_fs w) \<Longrightarrow> m w = (r, w') \<Longrightarrow>
   sched_ok A w' \<and> (case r of Inr a \<Rightarrow> Q a (w_fs w') | Inl _ \<Rightarrow> E (w_fs w'))"
  unfolding chl_def by blast

lemma chlI:
  "(\<And>w r w'. sched_ok A w \<Longrightarrow> P (w_fs w) \<Longrightarrow> m w = (r, w') \<Longrightarrow>
     sched_ok A w' \<and> (case r of Inr a \<Rightarrow> Q a (w_fs w') | Inl _ \<Rightarrow> E (w_fs w'))) \<Longrightarrow> chl A P m Q E"
  unfolding chl_def by blast

lemma chl_conseq:
  assumes "chl A P m Q E" "\<And>s. P' s \<Longrightarrow> P s" "\<And>a s. Q a s \<Longrightarrow> Q' a s" "\<And>s. E s \<Longrightarrow> E' s"
  shows "chl A P' m Q' E'"
proof (rule chlI)
  fix w r w'
  assume "sched_ok A w" "P' (w_fs w)" "m w = (r, w')"
  from chlD [OF assms(1) this(1) assms(2) [OF this(2)] this(3)] assms(3,4)
  show "sched_ok A w' \<and> (case r of Inr a \<Rightarrow> Q' a (w_fs w') | Inl _ \<Rightarrow> E' (w_fs w'))"
    by (auto split: sum.splits)
qed

lemma chl_ret: "(\<And>s. P s \<Longrightarrow> Q a s) \<Longrightarrow> chl A P (io_ret a) Q E"
  by (auto simp: chl_def io_ret_def)

lemma chl_raise: "(\<And>s. P s \<Longrightarrow> E s) \<Longrightarrow> chl A P (io_raise e) Q E"
  by (auto simp: chl_def io_raise_def)

lemma chl_lift: "(\<And>a s. r = Inr a \<Longrightarrow> P s \<Longrightarrow> Q a s) \<Longrightarrow> (\<And>e s. r = Inl e \<Longrightarrow> P s \<Longrightarrow> E s) \<Longrightarrow> chl A P (io_lift r) Q E"
  by (auto simp: chl_def io_lift_def split: sum.split)

lemma chl_bind:
  assumes "chl A P m Q E" "\<And>a. chl A (Q a) (k a) S E"
  shows "chl A P (io_bind m k) S E"
proof (rule chlI)
  fix w r w'
  assume w: "sched_ok A w" "P (w_fs w)" and run: "io_bind m k w = (r, w')"
  obtain r1 w1 where m: "m w = (r1, w1)"
    by fastforce
  show "sched_ok A w' \<and> (case r of Inr a \<Rightarrow> S a (w_fs w') | Inl _ \<Rightarrow> E (w_fs w'))"
    using chlD [OF assms(1) w m] run m chlD [OF assms(2)]
    by (cases r1) (auto simp: io_bind_def)
qed

lemma chl_attempt:
  assumes "chl A P m Q E"
  shows "chl A P (attempt m) (\<lambda>r s. case r of Inr a \<Rightarrow> Q a s | Inl _ \<Rightarrow> E s) E"
proof (rule chlI)
  fix w r w'
  assume w: "sched_ok A w" "P (w_fs w)" and run: "attempt m w = (r, w')"
  obtain r1 w1 where m: "m w = (r1, w1)"
    by fastforce
  show "sched_ok A w' \<and> (case r of Inr q \<Rightarrow> (case q of Inr a \<Rightarrow> Q a (w_fs w') | Inl _ \<Rightarrow> E (w_fs w')) | Inl _ \<Rightarrow> E (w_fs w'))"
    using chlD [OF assms w m] run m by (auto simp: attempt_def split: sum.splits err.splits)
qed

lemma chl_uuid: "chl A P (new_uuid x) (\<lambda>_. P) E"
  by (auto simp: chl_def new_uuid_def sched_ok_def)

lemma chl_now: "chl A P utc_now (\<lambda>_. P) E"
  by (auto simp: chl_def utc_now_def)

lemma upheld_fold: "upheld A P \<Longrightarrow> list_all A acts \<Longrightarrow> P s \<Longrightarrow> P (fold perform acts s)"
  by (induction acts arbitrary: s) (auto simp: upheld_def)

lemma chl_sys:
  assumes "upheld A P" "\<And>s. P s \<Longrightarrow> E s"
    and step: "\<And>bad s r t. P s \<Longrightarrow> f bad s = (r, t) \<Longrightarrow> E t \<and> (\<forall>a. r = Inr a \<longrightarrow> Q a t)"
  shows "chl A P (sys f) Q E"
proof (rule chlI)
  fix w r w'
  assume ok: "sched_ok A w" "P (w_fs w)" and run: "sys f w = (r, w')"
  obtain acts ft rest where sch:
    "(case w_sched w of [] \<Rightarrow> ([], NoFault, []) | (a, ft) # r \<Rightarrow> (a, ft, r)) = (acts, ft, rest)"
    by (metis prod_cases3)
  then have acts: "list_all A acts" "list_all (\<lambda>(acts, _). list_all A acts) rest"
    using ok(1) by (auto simp: sched_ok_def split: list.splits)
  let ?s = "fold perform acts (w_fs w)"
  have P: "P ?s"
    using upheld_fold [OF assms(1) acts(1) ok(2)] .
  obtain q t where f: "f [] ?s = (q, t)"
    by fastforce
  have "E t' \<and> (\<forall>a. q' = Inr a \<longrightarrow> Q a t')" if "f b ?s = (q', t')" for b q' t'
    using step [OF P that] .
  then show "sched_ok A w' \<and> (case r of Inr a \<Rightarrow> Q a (w_fs w') | Inl _ \<Rightarrow> E (w_fs w'))"
    using run acts(2) P assms(2)
    by (cases ft)
      (auto simp: sys_def sch Let_def sched_ok_def map_err_Inr_iff split: prod.splits sum.splits)
qed

text \<open>The calls.\<close>

lemma chl_read_dir:
  assumes "upheld A P" "\<And>s. P s \<Longrightarrow> E s"
    and "\<And>s es. P s \<Longrightarrow> (\<And>e. Inr e \<in> set es \<Longrightarrow> e \<in> set (entries s d sub)) \<Longrightarrow>
      ((\<forall>e \<in> set es. \<exists>a. e = Inr a) \<Longrightarrow> es = map Inr (entries s d sub)) \<Longrightarrow> Q es s"
  shows "chl A P (read_dir d sub) Q E"
  unfolding read_dir_def
proof (rule chl_sys [OF assms(1,2)])
  fix bad s r t
  let ?es = "map (\<lambda>(i, e). if i \<in> set bad then Inl K_Other else Inr e) (List.enumerate 0 (entries s d sub))"
  assume P: "P s" and run: "(Inr ?es, s) = (r :: (io_kind, _) result, t)"
  have "?es = map Inr (entries s d sub)" if "\<forall>e \<in> set ?es. \<exists>a. e = Inr a"
  proof -
    have "(if i \<in> set bad then Inl K_Other else Inr e) = (Inr e :: (io_kind, _) result)"
      if "(i, e) \<in> set (List.enumerate 0 (entries s d sub))" for i e
      using \<open>\<forall>e \<in> set ?es. \<exists>a. e = Inr a\<close> that by (fastforce split: if_splits)
    then have "?es = map (\<lambda>(i, e). Inr e) (List.enumerate 0 (entries s d sub))"
      by auto
    then show ?thesis
      by (simp add: map_enumerate_Inr)
  qed
  moreover have "e \<in> set (entries s d sub)" if "Inr e \<in> set ?es" for e
  proof -
    from that obtain i where "(i, e) \<in> set (List.enumerate 0 (entries s d sub))"
      by (auto split: if_splits)
    then show ?thesis
      by (simp add: in_set_enumerate_eq) (metis nth_mem)
  qed
  ultimately have "Q ?es s"
    using assms(3) [OF P, of ?es] by blast
  then show "E t \<and> (\<forall>a. r = Inr a \<longrightarrow> Q a t)"
    using run P assms(2) by auto
qed (use assms(2) in auto)

lemma chl_read_file:
  assumes "upheld A P" "\<And>s. P s \<Longrightarrow> E s" "\<And>s f. P s \<Longrightarrow> lookup s p = Some f \<Longrightarrow> Q (f_content f) s"
  shows "chl A P (read_file p) Q E"
  unfolding read_file_def by (rule chl_sys) (use assms in \<open>auto split: option.splits\<close>)

lemma chl_write_file:
  assumes "upheld A P" "upheld A P'" "\<And>s. P s \<Longrightarrow> E s" "\<And>s. P s \<Longrightarrow> P' (put p C_torn s)"
    "\<And>s. P s \<Longrightarrow> Q () (put p c s)" "\<And>s. P' s \<Longrightarrow> Q () (put p c s)" "\<And>s. P' s \<Longrightarrow> E s" "\<And>s. Q () s \<Longrightarrow> E s"
  shows "chl A P (write_file p c) Q E"
proof (cases "c = C_empty")
  case True
  then show ?thesis
    unfolding write_file_def using assms by (auto intro!: chl_sys)
next
  case False
  then show ?thesis
    unfolding write_file_def using assms by (auto intro!: chl_bind [where Q = "\<lambda>_. P'"] chl_sys)
qed

lemma chl_rename:
  assumes "upheld A P" "\<And>s. P s \<Longrightarrow> E s" "\<And>s. P s \<Longrightarrow> present s p \<Longrightarrow> Q () (mv p q s)" "\<And>s. Q () s \<Longrightarrow> E s"
  shows "chl A P (rename_file p q) Q E"
  unfolding rename_file_def by (rule chl_sys) (use assms in \<open>auto split: if_splits\<close>)

lemma chl_remove:
  assumes "upheld A P" "\<And>s. P s \<Longrightarrow> E s" "\<And>s. P s \<Longrightarrow> Q () (del p s)" "\<And>s. Q () s \<Longrightarrow> E s"
  shows "chl A P (remove_file p) Q E"
  unfolding remove_file_def by (rule chl_sys) (use assms in \<open>auto split: if_splits\<close>)

text \<open>A file replaced through a staging file is the old one or the new one.\<close>

lemma chl_replace_atomically:
  assumes "\<And>u. upheld A (\<lambda>s. P s \<and> (\<exists>f. lookup s (tmp_sibling d u) = Some f \<and> f_content f = c))"
    and "upheld A P" "upheld A Q"
    and tmp: "\<And>u s c. P s \<Longrightarrow> P (put (tmp_sibling d u) c s)"
    and gone: "\<And>u s. P s \<Longrightarrow> P (del (tmp_sibling d u) s)" "\<And>u s. Q s \<Longrightarrow> Q (del (tmp_sibling d u) s)"
    and move: "\<And>u s f. P s \<Longrightarrow> lookup s (tmp_sibling d u) = Some f \<Longrightarrow> f_content f = c \<Longrightarrow> Q (mv (tmp_sibling d u) dest s)"
  shows "chl A P (replace_atomically x d dest c) (\<lambda>_. Q) (\<lambda>s. P s \<or> Q s)"
proof -
  let ?E = "\<lambda>s. P s \<or> Q s"
  have E: "upheld A ?E"
    using assms(2,3) by (auto simp: upheld_def)
  have body: "chl A P (io_bind (write_file (tmp_sibling d u) c) (\<lambda>_. rename_file (tmp_sibling d u) dest)) (\<lambda>_. Q) ?E" for u
  proof (rule chl_bind)
    show "chl A P (write_file (tmp_sibling d u) c)
        (\<lambda>_ s. P s \<and> (\<exists>f. lookup s (tmp_sibling d u) = Some f \<and> f_content f = c)) ?E"
      by (rule chl_write_file [where P' = P, OF assms(2,2)]) (auto intro: tmp)
    show "chl A (\<lambda>s. P s \<and> (\<exists>f. lookup s (tmp_sibling d u) = Some f \<and> f_content f = c))
        (rename_file (tmp_sibling d u) dest) (\<lambda>_. Q) ?E" for a
      by (rule chl_rename [OF assms(1)]) (auto intro: move)
  qed
  have "chl A ?E (attempt (remove_file (tmp_sibling d u))) (\<lambda>_. ?E) ?E" for u
    by (rule chl_conseq [OF chl_attempt [OF chl_remove [OF E, where Q = "\<lambda>_. ?E" and E = ?E]]])
      (auto intro: gone split: sum.splits)
  then have "chl A ?E (io_bind (attempt (remove_file (tmp_sibling d u))) (\<lambda>_. io_raise e)) (\<lambda>_. Q) ?E" for u and e
    by (rule chl_bind) (auto intro: chl_raise)
  then have rest: "chl A (\<lambda>s. case r of Inr _ \<Rightarrow> Q s | Inl _ \<Rightarrow> ?E s) (case r of Inr _ \<Rightarrow> io_ret ()
      | Inl e \<Rightarrow> io_bind (attempt (remove_file (tmp_sibling d u))) (\<lambda>_. io_raise e)) (\<lambda>_. Q) ?E" for u and r :: "(err, unit) result"
    by (cases r) (auto intro: chl_ret)
  have "chl A P (io_bind (attempt (io_bind (write_file (tmp_sibling d u) c) (\<lambda>_. rename_file (tmp_sibling d u) dest)))
      (\<lambda>r. case r of Inr _ \<Rightarrow> io_ret ()
      | Inl e \<Rightarrow> io_bind (attempt (remove_file (tmp_sibling d u))) (\<lambda>_. io_raise e))) (\<lambda>_. Q) ?E" for u
    by (rule chl_bind [OF chl_attempt [OF body] rest])
  then show ?thesis
    unfolding replace_atomically_def Let_def by (intro chl_bind [OF chl_uuid])
qed

text \<open>A listing, a file that may be gone, and a condition that no step changes.\<close>

lemma chl_listing:
  assumes "upheld A P" "\<And>s es. P s \<Longrightarrow> (\<And>e. Inr e \<in> set es \<Longrightarrow> e \<in> set (entries s d sub)) \<Longrightarrow> Q es"
  shows "chl A P (read_dir d sub) (\<lambda>es s. P s \<and> Q es) P"
  by (rule chl_read_dir [OF assms(1)]) (use assms(2) in auto)

lemma chl_vanished:
  assumes "chl A P m (\<lambda>a s. P s \<and> Q a) P"
  shows "chl A P (vanished_is_absent m) (\<lambda>r s. P s \<and> (\<forall>a. r = Some a \<longrightarrow> Q a)) P"
  unfolding vanished_is_absent_def
proof (rule chl_bind [OF chl_attempt [OF assms]])
  show "chl A (\<lambda>s. case r of Inl _ \<Rightarrow> P s | Inr a \<Rightarrow> P s \<and> Q a)
     (case r of Inl e \<Rightarrow> if e = E_io K_NotFound then io_ret None else io_raise e | Inr a \<Rightarrow> io_ret (Some a))
     (\<lambda>r s. P s \<and> (\<forall>a. r = Some a \<longrightarrow> Q a)) P" for r
    by (cases r) (auto intro!: chl_ret chl_raise)
qed

lemma chl_pure: "(F \<Longrightarrow> chl A P m Q E) \<Longrightarrow> chl A (\<lambda>s. P s \<and> F) m Q E"
  by (auto simp: chl_def)

text \<open>What is listed was there.\<close>

lemma all_readable_mem: "all_readable es = Inr vs \<Longrightarrow> v \<in> set vs \<Longrightarrow> Inr v \<in> set es"
  by (induction es arbitrary: vs rule: all_readable.induct) (auto simp: res_bind_Inr_iff)

lemma parse_flags_mem: "parse_flags f es = Inr as \<Longrightarrow> (a, n) \<in> set as \<Longrightarrow> f n = Inr a \<and> (\<exists>d. Inr (n, d) \<in> set es)"
proof (induction f es arbitrary: as rule: parse_flags.induct)
  case (3 f n d es)
  then show ?case
    by (cases "f n"; auto simp: res_bind_Inr_iff; blast)
qed auto

end
