(* ===== verification/Footprint.thy ===== *)
theory Footprint
  imports Crash_Logic
begin

text \<open>
  Footprints. A computation is \<open>within S\<close> when it writes at most to the paths of \<open>S\<close>: whatever it
  reads, whichever call fails and wherever it dies, it keeps every condition that does not look at
  \<open>S\<close> and that the other processes keep. Footprints compose, so a triple about one file carries
  over every call that is within the others.
\<close>

definition blind :: "path set \<Rightarrow> (fs \<Rightarrow> bool) \<Rightarrow> bool" where
  "blind S F \<longleftrightarrow> (\<forall>s t. F s \<and> (\<forall>p. p \<notin> S \<longrightarrow> lookup t p = lookup s p) \<longrightarrow> F t)"

definition within :: "path set \<Rightarrow> 'a io \<Rightarrow> bool" where
  "within S m \<longleftrightarrow> (\<forall>A F. upheld A F \<and> blind S F \<longrightarrow> chl A F m (\<lambda>_. F) F)"

definition off_tree :: "'a io \<Rightarrow> bool" where
  "off_tree m \<longleftrightarrow> (\<forall>w. w_fs (snd (m w)) = w_fs w \<and> w_sched (snd (m w)) = w_sched w)"

lemma blindD: "blind S F \<Longrightarrow> F s \<Longrightarrow> (\<And>p. p \<notin> S \<Longrightarrow> lookup t p = lookup s p) \<Longrightarrow> F t"
  unfolding blind_def by blast

lemma blind_mono: "blind T F \<Longrightarrow> S \<subseteq> T \<Longrightarrow> blind S F"
  unfolding blind_def by blast

lemma blind_present: "p \<notin> S \<Longrightarrow> blind S (\<lambda>s. present s p)"
  unfolding blind_def present_def by metis

lemma blind_conj: "blind S F \<Longrightarrow> blind S G \<Longrightarrow> blind S (\<lambda>s. F s \<and> G s)"
  unfolding blind_def by metis

lemma upheld_conj: "upheld A F \<Longrightarrow> upheld A G \<Longrightarrow> upheld A (\<lambda>s. F s \<and> G s)"
  by (simp add: upheld_def)

lemma upheld_mono: "upheld B F \<Longrightarrow> (\<And>a. A a \<Longrightarrow> B a) \<Longrightarrow> upheld A F"
  by (simp add: upheld_def)

lemma withinI: "(\<And>A F. upheld A F \<Longrightarrow> blind S F \<Longrightarrow> chl A F m (\<lambda>_. F) F) \<Longrightarrow> within S m"
  unfolding within_def by blast

lemma withinD: "within S m \<Longrightarrow> upheld A F \<Longrightarrow> blind S F \<Longrightarrow> chl A F m (\<lambda>_. F) F"
  unfolding within_def by blast

lemma within_mono: "within S m \<Longrightarrow> S \<subseteq> T \<Longrightarrow> within T m"
  unfolding within_def using blind_mono by blast

text \<open>Two triples about one run hold together; the crash condition may be weakened by a triple of its own.\<close>

lemma chl_conj:
  assumes "chl A P m Q E" "chl A P' m Q' E'"
  shows "chl A (\<lambda>s. P s \<and> P' s) m (\<lambda>a s. Q a s \<and> Q' a s) (\<lambda>s. E s \<and> E' s)"
proof (rule chlI)
  fix w r w'
  assume w: "sched_ok A w" "P (w_fs w) \<and> P' (w_fs w)" "m w = (r, w')"
  show "sched_ok A w' \<and> (case r of Inr a \<Rightarrow> Q a (w_fs w') \<and> Q' a (w_fs w') | Inl _ \<Rightarrow> E (w_fs w') \<and> E' (w_fs w'))"
    using chlD [OF assms(1) w(1) _ w(3)] chlD [OF assms(2) w(1) _ w(3)] w(2) by (auto split: sum.splits)
qed

text \<open>Fewer actions beside the run keep a triple.\<close>

lemma chl_restrict:
  assumes "within S m" "chl B P m Q E" "\<And>a. A a \<Longrightarrow> B a"
  shows "chl A P m Q E"
proof (rule chlI)
  fix w r w'
  assume w: "sched_ok A w" "P (w_fs w)" "m w = (r, w')"
  have "sched_ok B w"
    using w(1) assms(3) by (auto simp: sched_ok_def list_all_iff)
  moreover have "sched_ok A w'"
    using chlD [OF withinD [OF assms(1), of A "\<lambda>_. True"] w(1) _ w(3)] by (simp add: upheld_def blind_def)
  ultimately show "sched_ok A w' \<and> (case r of Inr a \<Rightarrow> Q a (w_fs w') | Inl _ \<Rightarrow> E (w_fs w'))"
    using chlD [OF assms(2) _ w(2,3)] by simp
qed

named_theorems within_intros

lemma within_ret [within_intros]: "within S (io_ret a)"
  by (rule withinI) (rule chl_ret)

lemma within_raise [within_intros]: "within S (io_raise e)"
  by (rule withinI) (rule chl_raise)

lemma within_lift [within_intros]: "within S (io_lift r)"
  by (rule withinI) (rule chl_lift)

lemma within_bind [within_intros]:
  assumes "within S m" "\<And>a. within S (k a)"
  shows "within S (io_bind m k)"
  by (rule withinI) (rule chl_bind [OF withinD [OF assms(1)] withinD [OF assms(2)]])

lemma within_attempt [within_intros]:
  assumes "within S m"
  shows "within S (attempt m)"
  by (rule withinI) (rule chl_conseq [OF chl_attempt [OF withinD [OF assms]]], auto split: sum.splits)

lemma within_map_err [within_intros]:
  assumes "within S m"
  shows "within S (io_map_err e m)"
proof (rule withinI)
  fix A F
  assume F: "upheld A F" "blind S F"
  show "chl A F (io_map_err e m) (\<lambda>_. F) F"
  proof (rule chlI)
    fix w r w'
    assume w: "sched_ok A w" "F (w_fs w)" and run: "io_map_err e m w = (r, w')"
    obtain r1 w1 where m: "m w = (r1, w1)"
      by fastforce
    show "sched_ok A w' \<and> (case r of Inr _ \<Rightarrow> F (w_fs w') | Inl _ \<Rightarrow> F (w_fs w'))"
      using chlD [OF withinD [OF assms F] w m] run m by (auto simp: io_map_err_def split: sum.splits err.splits)
  qed
qed

lemma within_uuid [within_intros]: "within S (new_uuid x)"
  by (rule withinI) (rule chl_uuid)

lemma within_now [within_intros]: "within S utc_now"
  by (rule withinI) (rule chl_now)

lemma within_off_tree: "off_tree m \<Longrightarrow> within S m"
  unfolding within_def chl_def off_tree_def sched_ok_def by (metis (mono_tags, lifting) snd_conv sum.case_eq_if)

lemma within_sys:
  assumes "\<And>bad s r t p. f bad s = (r, t) \<Longrightarrow> p \<notin> S \<Longrightarrow> lookup t p = lookup s p"
  shows "within S (sys f)"
proof (rule withinI)
  fix A F
  assume F: "upheld A F" "blind S F"
  show "chl A F (sys f) (\<lambda>_. F) F"
    by (rule chl_sys [OF F(1)]) (use blindD [OF F(2)] assms in blast)+
qed

lemma within_read [within_intros]:
  "within S (read_dir d sub)" "within S (read_file p)" "within S (try_exists p)" "within S (file_mtime p)"
  unfolding read_dir_def read_file_def try_exists_def file_mtime_def
  by (rule within_sys; auto split: option.splits)+

lemma within_dir_exists [within_intros]: "within S (dir_exists d sub)"
  unfolding dir_exists_def by (rule within_sys) auto

lemma within_dir_seems_there [within_intros]: "within S (dir_seems_there d sub)"
  unfolding dir_seems_there_def by (intro within_intros)

lemma within_write_file: "p \<in> S \<Longrightarrow> within S (write_file p c)"
  unfolding write_file_def by (auto intro!: within_bind within_sys)

lemma within_rename: "p \<in> S \<Longrightarrow> q \<in> S \<Longrightarrow> within S (rename_file p q)"
  unfolding rename_file_def by (rule within_sys) (auto simp: lookup_mv split: if_splits option.splits)

lemma within_remove: "p \<in> S \<Longrightarrow> within S (remove_file p)"
  unfolding remove_file_def by (rule within_sys) (auto split: if_splits)

lemma within_vanished [within_intros]: "within S m \<Longrightarrow> within S (vanished_is_absent m)"
  unfolding vanished_is_absent_def by (auto intro!: within_intros split: sum.split err.split io_kind.split)

lemma within_remove_idempotent: "p \<in> S \<Longrightarrow> within S (remove_file_idempotent p)"
  unfolding remove_file_idempotent_def by (intro within_intros within_remove)

lemma within_replace:
  assumes "\<And>u. tmp_sibling d u \<in> S" "dest \<in> S"
  shows "within S (replace_atomically x d dest c)"
  unfolding replace_atomically_def Let_def
  by (auto intro!: within_intros within_write_file within_rename within_remove assms split: sum.split)

lemma within_for: "(\<And>a. a \<in> set as \<Longrightarrow> within S (f a)) \<Longrightarrow> within S (io_for as f)"
  by (induction as) (auto intro!: within_intros)

lemma within_fold: "(\<And>a b. a \<in> set as \<Longrightarrow> within S (f a b)) \<Longrightarrow> within S (io_fold f as b)"
  by (induction as arbitrary: b) (auto intro!: within_intros)

text \<open>The operations of the submission store write to the directories of records.\<close>

lemma within_read_body [within_intros]: "within S (read_body p)"
  unfolding read_body_def by (auto intro!: within_intros split: option.split)

lemma within_dir_replace: "d \<in> D \<Longrightarrow> within (D \<times> UNIV) (replace_atomically x (d, k) (d, n) c)"
  by (rule within_replace) (simp_all add: tmp_sibling_def)

lemma within_records:
  "D_processed \<in> D \<Longrightarrow> within (D \<times> UNIV) (write_processed x j body)"
  "D_processed \<in> D \<Longrightarrow> D_incoming \<in> D \<Longrightarrow> within (D \<times> UNIV) (mark_processed x j)"
  "D_incoming \<in> D \<Longrightarrow> within (D \<times> UNIV) (delete_incoming j)"
  "stage_dir st \<in> D \<Longrightarrow> within (D \<times> UNIV) (enqueue x st j body)"
  "stage_dir st \<in> D \<Longrightarrow> within (D \<times> UNIV) (dequeue st j)"
  unfolding write_processed_def mark_processed_def delete_incoming_def enqueue_def dequeue_def submission_path_def processed_path_def
  by (auto intro!: within_intros within_dir_replace within_remove within_remove_idempotent)

end
