(* ===== verification/Plan_Teardown.thy ===== *)
theory Plan_Teardown
  imports Maintenance_Index Frame Footprint
begin

text \<open>
  The teardown of plans that are cancelled or were stranded while they were filed:
  \<open>tear_down_plans\<close> of \<open>pipette-pipeline/src/plan_maintenance.rs\<close>. A job belongs to every plan that
  has a marker for it under \<open>job-plans/\<close>; ending a plan drops its markers, and a job goes only with the
  last of them. A plan that joins while the job is being removed gets it back.
\<close>

section \<open>Plans and their members\<close>

text \<open>The members of each job; a job without an entry in the source's map has none here.\<close>

type_synonym membership = "job_id \<Rightarrow> (plan_id \<times> expires_at) list"

definition membership_new :: "job_plan_marker list \<Rightarrow> membership" where
  "membership_new markers j =
     map (\<lambda>m. (jm_plan_id m, jm_expires_at m)) (filter (\<lambda>m. jm_job_id m = j) markers)"

definition released_by :: "membership \<Rightarrow> job_id \<Rightarrow> plan_id \<Rightarrow> bool" where
  "released_by membership j p \<longleftrightarrow> membership j \<noteq> [] \<and> \<not> list_ex (\<lambda>(member, _). member = p) (membership j)"

section \<open>One job of an ending plan\<close>

datatype job_fate = J_Retired | J_Released nat | J_AlreadyGone

definition retire_job :: "ext \<Rightarrow> job_id \<Rightarrow> bool \<Rightarrow> lease list \<Rightarrow> unit io" where
  "retire_job x j in_avail held =
     io_bind (io_when in_avail (delete_avail_by_job j)) (\<lambda>_.
       io_for held (\<lambda>l. delete_lease x j (l_expires_at l) (l_client_id l) (l_lease_expiry l)))"

text \<open>The job as it stands, read before it is deleted; none when there is nothing to delete.\<close>

definition standing_body :: "ext \<Rightarrow> job_id \<Rightarrow> avail_key option \<Rightarrow> lease list \<Rightarrow> (expires_at \<times> json option) option io" where
  "standing_body x j entry held =
     (case entry of
        Some a \<Rightarrow> io_bind (get_avail x j (ak_expires_at a)) (\<lambda>body. io_ret (Some (ak_expires_at a, body)))
      | None \<Rightarrow>
          (case held of
             l # _ \<Rightarrow>
               io_bind (get_leased x j (l_expires_at l) (l_client_id l) (l_lease_expiry l)) (\<lambda>body.
                 io_ret (Some (l_expires_at l, body)))
           | [] \<Rightarrow> io_ret None))"

definition restore_job :: "ext \<Rightarrow> job_id \<Rightarrow> expires_at \<Rightarrow> json \<Rightarrow> unit io" where
  "restore_job x j e body =
     io_bind (write_tmp j body) (\<lambda>_.
     io_bind (promote_avail x j e) (\<lambda>_.
       write_pending_reindex_job j))"

definition end_membership :: "ext \<Rightarrow> plan_id \<Rightarrow> job_id \<Rightarrow> avail_key option \<Rightarrow> lease list \<Rightarrow> job_fate io" where
  "end_membership x p j entry held =
     io_bind (list_job_plan_markers x j) (\<lambda>members.
     io_bind (io_for (map snd (filter (\<lambda>(member, _). member = p) members)) (delete_job_plan_marker x j p)) (\<lambda>_.
     io_bind (list_job_plan_markers x j) (\<lambda>remaining.
     if remaining \<noteq> [] then io_ret (J_Released (length remaining))
     else
       io_bind (standing_body x j entry held) (\<lambda>standing.
       case standing of
         None \<Rightarrow> io_ret J_Retired
       | Some (e, body) \<Rightarrow>
           io_bind (retire_job x j (entry \<noteq> None) held) (\<lambda>_.
           io_bind (list_job_plan_markers x j) (\<lambda>joiners.
           case body of
             None \<Rightarrow>
               io_bind (write_pending_reindex_job j) (\<lambda>_.
                 io_ret (if joiners = [] then J_AlreadyGone else J_Released (length joiners)))
           | Some b \<Rightarrow>
               if joiners = [] then io_ret J_Retired
               else io_bind (restore_job x j e b) (\<lambda>_. io_ret (J_Released (length joiners)))))))))"

section \<open>The pass\<close>

datatype cause = Cause_Cancelled | Cause_CreatingStranded

definition teardown_cause :: "plan_record \<Rightarrow> plan_id set \<Rightarrow> time \<Rightarrow> time \<Rightarrow> cause option" where
  "teardown_cause m markers now creating_max_age =
     (if pm_status m \<in> {Cancelling, Cancelled} then Some Cause_Cancelled
      else if pm_status m = Complete then None
      else if pm_plan_id m \<in> markers then Some Cause_Cancelled
      else if pm_status m = Creating \<and> past_gate (pm_created_at m) now creating_max_age then Some Cause_CreatingStranded
      else None)"

text \<open>What the pass has done so far, and what it leaves.\<close>

record teardown =
  td_retired :: "job_id set"
  td_released :: "(plan_id \<times> job_id) set"
  td_perturbed :: "plan_id set"
  td_failures :: nat

record teardown_outcome = teardown +
  to_avail :: "avail_key list"
  to_leased :: "lease list"
  to_stranded :: "plan_id set"

definition tear_down_job ::
  "ext \<Rightarrow> membership \<Rightarrow> avail_key list \<Rightarrow> lease list \<Rightarrow> plan_id \<Rightarrow> job_id \<Rightarrow> teardown \<Rightarrow> teardown io" where
  "tear_down_job x membership avail leases p j st =
     (if released_by membership j p then io_ret st
      else
        let entry = map_of (rev (map (\<lambda>a. (ak_job_id a, a)) avail)) j;
            held = filter (\<lambda>l. l_job_id l = j) leases in
        if entry = None \<and> held = [] then io_ret st
        else io_bind (attempt (end_membership x p j entry held)) (\<lambda>r.
          io_ret (case r of
              Inr J_Retired \<Rightarrow> st\<lparr>td_retired := insert j (td_retired st), td_perturbed := insert p (td_perturbed st)\<rparr>
            | Inr (J_Released _) \<Rightarrow> st\<lparr>td_released := insert (p, j) (td_released st)\<rparr>
            | Inr J_AlreadyGone \<Rightarrow> st\<lparr>td_released := insert (p, j) (td_released st)\<rparr>
            | Inl _ \<Rightarrow> st\<lparr>td_failures := Suc (td_failures st)\<rparr>)))"

definition tear_down_plans ::
  "ext \<Rightarrow> plan_record list \<Rightarrow> plan_id set \<Rightarrow> membership \<Rightarrow> avail_key list \<Rightarrow> lease list \<Rightarrow> time \<Rightarrow> time \<Rightarrow>
    teardown_outcome io" where
  "tear_down_plans x manifests markers membership avail leases now creating_max_age =
     (let doomed = filter (\<lambda>m. teardown_cause m markers now creating_max_age \<noteq> None) manifests;
          stranded = set (map pm_plan_id
            (filter (\<lambda>m. teardown_cause m markers now creating_max_age = Some Cause_CreatingStranded) manifests)) in
      io_bind (io_fold (\<lambda>m. io_fold (tear_down_job x membership avail leases (pm_plan_id m)) (pm_job_ids m)) doomed
          \<lparr>td_retired = {}, td_released = {}, td_perturbed = {}, td_failures = 0\<rparr>) (\<lambda>st.
        io_ret \<lparr>td_retired = td_retired st, td_released = td_released st, td_perturbed = td_perturbed st,
          td_failures = td_failures st,
          to_avail = filter (\<lambda>a. ak_job_id a \<notin> td_retired st) avail,
          to_leased = filter (\<lambda>l. l_job_id l \<notin> td_retired st) leases,
          to_stranded = stranded\<rparr>))"

section \<open>A shared job is kept\<close>

lemma chl_fold:
  "(\<And>a b. a \<in> set as \<Longrightarrow> chl A P (f a b) (\<lambda>_. P) P) \<Longrightarrow> chl A P (io_fold f as b) (\<lambda>_. P) P"
  by (induction as arbitrary: b) (auto intro!: chl_ret chl_bind)

lemma chl_attempt_keep:
  assumes "chl A P m (\<lambda>_. P) P"
  shows "chl A P (attempt m) (\<lambda>_. P) P"
  by (rule chl_conseq [OF chl_attempt [OF assms]]) (auto split: sum.splits)

lemma within_when [within_intros]: "(b \<Longrightarrow> within S m) \<Longrightarrow> within S (io_when b m)"
  by (simp add: io_when_def within_ret)

lemma within_list_markers [within_intros]: "within S (list_job_plan_markers x j)"
  unfolding list_job_plan_markers_def dir_exists_def
  by (auto intro!: within_intros within_sys)

lemma within_delete_avail_by_job:
  "(\<And>n. (D_avail, j @ ''/'' @ n) \<in> S) \<Longrightarrow> within S (delete_avail_by_job j)"
  unfolding delete_avail_by_job_def
  by (auto intro!: within_intros within_for within_remove split: option.split sum.split)

text \<open>The entry of one job and a membership of it.\<close>

definition shared :: "path \<Rightarrow> inode \<Rightarrow> path \<Rightarrow> fs \<Rightarrow> bool" where
  "shared r f m s \<longleftrightarrow> lookup s r = Some f \<and> present s m"

definition leaves_shared :: "path \<Rightarrow> path \<Rightarrow> act \<Rightarrow> bool" where
  "leaves_shared r m a \<longleftrightarrow> spares r a \<and> a \<noteq> A_del m"

lemma blind_shared: "blind (- {r, m}) (shared r f m)"
  unfolding blind_def shared_def present_def by (metis ComplD insertCI)

lemma present_perform_other:
  assumes "present s m" "queue_job m = None" "record_job m = None" "a \<noteq> A_del m"
  shows "present (perform a s) m"
  using assms by (cases a) (auto simp: present_mv split: option.splits)

lemma upheld_shared:
  assumes "queue_job r = Some j" "queue_job m = None" "record_job m = None"
  shows "upheld (leaves_shared r m) (shared r f m)"
  using assms lookup_spared [of r] present_perform_other [of _ m]
  by (auto simp: upheld_def leaves_shared_def shared_def)

lemma job_plan_path_other: "queue_job (job_plan_path x j p e) = None" "record_job (job_plan_path x j p e) = None"
  by (simp_all add: job_plan_path_def record_job_def)

lemma job_plan_path_job:
  assumes "valid_job_id i" "valid_job_id j" "job_plan_path x i p e = job_plan_path x j q e'"
  shows "i = j"
proof -
  have "split_once CHR ''/'' (snd (job_plan_path x i p e)) = split_once CHR ''/'' (snd (job_plan_path x j q e'))"
    using assms(3) by simp
  with assms(1,2) show ?thesis
    by (simp add: job_plan_path_def id_chars)
qed

lemma job_plan_path_eq:
  assumes "valid_plan_id p" "valid_plan_id q" "job_plan_path x j p e = job_plan_path x j q e'"
  shows "p = q"
proof -
  have "split_once CHR ''.'' (p @ ''.'' @ show_expires_at x e) = split_once CHR ''.'' (q @ ''.'' @ show_expires_at x e')"
    using assms(3) by (simp add: job_plan_path_def job_plan_marker_filename_def)
  with assms(1,2) show ?thesis
    by (simp add: id_chars)
qed

lemma parse_flags_all:
  "parse_flags f es = Inr as \<Longrightarrow> (\<forall>e \<in> set es. \<exists>a. e = Inr a) \<and> (\<forall>n d a. Inr (n, d) \<in> set es \<and> f n = Inr a \<longrightarrow> (a, n) \<in> set as)"
proof (induction f es arbitrary: as rule: parse_flags.induct)
  case (3 f n d es)
  then obtain r where r: "parse_flags f es = Inr r" "as = (case f n of Inr a \<Rightarrow> (a, n) # r | Inl _ \<Rightarrow> r)"
    by (auto simp: res_bind_Inr_iff)
  from "3.IH" [OF r(1)] r(2) show ?case
    by (auto split: sum.splits)
qed auto

lemma list_markers_shared:
  assumes ext: "ext_ok x" "valid_job_id j" "valid_plan_id q" "key_deadline e"
    and P: "upheld A P" "\<And>s. P s \<Longrightarrow> present s (job_plan_path x j q e)"
  shows "chl A P (list_job_plan_markers x j) (\<lambda>ms s. P s \<and> ms \<noteq> []) P"
proof -
  let ?n = "job_plan_marker_filename x q e"
  have "split_once CHR ''/'' ?n = None" "j \<noteq> []"
    using ext show_expires_at_chars(2) [of x e]
    by (auto simp: split_once_None_iff job_plan_marker_filename_def id_chars valid_job_id_def)
  then have "below j (j @ ''/'' @ ?n) = Some ?n" "entry_of ?n = (?n, False)"
    by (simp_all add: below_def entry_of_def starts_with_def)
  then have there: "(?n, False) \<in> set (entries s D_job_plans j)" if "P s" for s
    using P(2) [OF that] unfolding set_entries job_plan_path_def by metis
  have "chl A P (read_dir D_job_plans j) (\<lambda>es s. P s \<and>
      (\<forall>as. parse_flags (parse_job_plan_marker_filename x) es = Inr as \<longrightarrow> as \<noteq> [])) P"
  proof (rule chl_read_dir [OF P(1)])
    fix s and es :: "(io_kind, string \<times> bool) result list"
    assume s: "P s" "(\<forall>e \<in> set es. \<exists>a. e = Inr a) \<Longrightarrow> es = map Inr (entries s D_job_plans j)"
    have "((q, e), ?n) \<in> set as" if "parse_flags (parse_job_plan_marker_filename x) es = Inr as" for as
    proof -
      have "es = map Inr (entries s D_job_plans j)"
        using s(2) parse_flags_all [OF that] by blast
      then have "Inr (?n, False) \<in> set es"
        using there [OF s(1)] by auto
      then show ?thesis
        using parse_flags_all [OF that] ext by simp
    qed
    with s(1) show "P s \<and> (\<forall>as. parse_flags (parse_job_plan_marker_filename x) es = Inr as \<longrightarrow> as \<noteq> [])"
      by fastforce
  qed
  then have read: "chl A P (io_bind (read_dir D_job_plans j) (\<lambda>es.
         io_bind (io_lift (parse_flags (parse_job_plan_marker_filename x) es)) (\<lambda>ms.
           io_ret (map fst ms)))) (\<lambda>ms s. P s \<and> ms \<noteq> []) P"
    by (rule chl_bind) (rule chl_bind [OF chl_lift chl_ret], auto)
  have "chl A P (dir_exists D_job_plans j) (\<lambda>b s. P s \<and> b) P"
    unfolding dir_exists_def by (rule chl_sys [OF P(1)]) (use there in fastforce)+
  then show ?thesis
    unfolding list_job_plan_markers_def
  proof (rule chl_bind)
    show "chl A (\<lambda>s. P s \<and> b) (if \<not> b then io_ret [] else io_bind (read_dir D_job_plans j) (\<lambda>es.
         io_bind (io_lift (parse_flags (parse_job_plan_marker_filename x) es)) (\<lambda>ms.
           io_ret (map fst ms)))) (\<lambda>ms s. P s \<and> ms \<noteq> []) P" for b
      using read by (cases b) (auto intro: chl_ret)
  qed
qed

text \<open>What the plans and listings of the pass are made of.\<close>

definition wf_plan :: "plan_record \<Rightarrow> bool" where
  "wf_plan m \<longleftrightarrow> valid_plan_id (pm_plan_id m) \<and> list_all valid_job_id (pm_job_ids m)"

definition wf_leases :: "lease list \<Rightarrow> bool" where
  "wf_leases leases \<longleftrightarrow> list_all (\<lambda>l. valid_job_id (l_job_id l) \<and> valid_client_id (l_client_id l)) leases"

lemma within_end_membership:
  assumes j: "valid_job_id i" "i \<noteq> j" "valid_job_id j"
    and S: "\<And>p. queue_job p \<noteq> Some j \<Longrightarrow> p \<noteq> job_plan_path x j q e \<Longrightarrow> p \<in> S"
    and held: "list_all (\<lambda>l. valid_client_id (l_client_id l)) held"
  shows "within S (end_membership x p i entry held)"
proof -
  have marker: "within S (delete_job_plan_marker x i p d)" for d
  proof -
    have "job_plan_path x i p d \<noteq> job_plan_path x j q e"
      using job_plan_path_job j by blast
    then show ?thesis
      unfolding delete_job_plan_marker_def by (intro within_remove_idempotent S) (simp_all add: job_plan_path_other)
  qed
  have other: "p \<in> S" if "queue_job p \<noteq> Some j" "fst p \<noteq> D_job_plans" for p
    using that by (intro S) (auto simp: job_plan_path_def)
  have "queue_job (D_avail, i @ ''/'' @ n) \<noteq> Some j" for n
    using j by (simp add: id_chars)
  then have avail: "within S (delete_avail_by_job i)"
    by (intro within_delete_avail_by_job other) simp_all
  have lease: "within S (delete_lease x i d (l_client_id l) t)" if "l \<in> set held" for l d t
    unfolding delete_lease_def using held j that
    by (intro within_remove_idempotent other) (simp_all add: list_all_iff, simp add: leased_path_def)
  have retire: "within S (retire_job x i b held)" for b
    unfolding retire_job_def by (intro within_intros within_for avail lease)
  have restore: "within S (restore_job x i d b)" for d b
    unfolding restore_job_def write_tmp_def promote_avail_def write_pending_reindex_job_def using j
    by (intro within_intros within_write_file within_rename other) (simp_all, simp add: avail_path_def)
  have flag: "within S (write_pending_reindex_job i)"
    unfolding write_pending_reindex_job_def by (intro within_write_file other) simp_all
  have stand: "within S (standing_body x i entry held)"
    unfolding standing_body_def get_avail_def get_leased_def
    by (auto intro!: within_intros split: option.split list.split)
  show ?thesis
    unfolding end_membership_def
    by (auto intro!: within_intros within_for marker retire restore flag stand split: option.split)
qed

lemma end_membership_shared:
  assumes "ext_ok x" "valid_job_id j" "valid_plan_id p" "valid_plan_id q" "p \<noteq> q" "key_deadline e" "queue_job r = Some j"
  shows "chl (leaves_shared r (job_plan_path x j q e)) (shared r f (job_plan_path x j q e)) (end_membership x p j entry held)
    (\<lambda>_. shared r f (job_plan_path x j q e)) (shared r f (job_plan_path x j q e))"
proof -
  let ?m = "job_plan_path x j q e" and ?A = "leaves_shared r (job_plan_path x j q e)" and ?P = "shared r f (job_plan_path x j q e)"
  have up: "upheld ?A ?P"
    by (rule upheld_shared [OF assms(7)]) (simp_all add: job_plan_path_other)
  note keep = withinD [OF _ up blind_shared]
  have list: "chl ?A ?P (list_job_plan_markers x j) (\<lambda>ms s. ?P s \<and> ms \<noteq> []) ?P"
    by (rule list_markers_shared [OF assms(1,2,4,6) up]) (simp add: shared_def)
  have "job_plan_path x j p d \<noteq> r" for d
    using assms(7) by (metis job_plan_path_other(1) option.distinct(1))
  moreover have "job_plan_path x j p d \<noteq> ?m" for d
    using job_plan_path_eq assms(3-5) by blast
  ultimately have drop: "chl ?A ?P (io_for es (delete_job_plan_marker x j p)) (\<lambda>_. ?P) ?P" for es
    unfolding delete_job_plan_marker_def by (intro keep within_for within_remove_idempotent) simp
  have rest: "chl ?A (\<lambda>s. ?P s \<and> ms \<noteq> []) (if ms \<noteq> [] then io_ret (J_Released (length ms)) else k) (\<lambda>_. ?P) ?P" for ms and k :: "job_fate io"
    by (cases "ms = []") (auto simp: chl_def io_ret_def)
  show ?thesis
    unfolding end_membership_def
    by (rule chl_bind [OF keep [OF within_list_markers]], rule chl_bind [OF drop], rule chl_bind [OF list rest])
qed

lemma tear_down_shared:
  assumes ok: "ext_ok x" "valid_job_id j" "valid_plan_id q" "key_deadline e" "queue_job r = Some j"
    and leases: "wf_leases leases"
    and plans: "\<forall>m\<in>set manifests. wf_plan m \<and> (teardown_cause m markers now gate \<noteq> None \<longrightarrow> pm_plan_id m \<noteq> q)"
  shows "chl (leaves_shared r (job_plan_path x j q e)) (shared r f (job_plan_path x j q e))
    (tear_down_plans x manifests markers membership avail leases now gate)
    (\<lambda>_. shared r f (job_plan_path x j q e)) (shared r f (job_plan_path x j q e))"
proof -
  let ?A = "leaves_shared r (job_plan_path x j q e)" and ?P = "shared r f (job_plan_path x j q e)"
  have up: "upheld ?A ?P"
    by (rule upheld_shared [OF ok(5)]) (simp_all add: job_plan_path_other)
  have held: "list_all (\<lambda>l. valid_client_id (l_client_id l)) (filter (\<lambda>l. l_job_id l = i) leases)" for i
    using leases by (auto simp: wf_leases_def list_all_iff)
  have member: "chl ?A ?P (end_membership x p i entry (filter (\<lambda>l. l_job_id l = i) leases)) (\<lambda>_. ?P) ?P"
    if "valid_plan_id p" "p \<noteq> q" "valid_job_id i" for p i entry
  proof (cases "i = j")
    case True
    then show ?thesis
      using end_membership_shared [OF ok(1,2) that(1) ok(3) that(2) ok(4,5)] by simp
  next
    case False
    then show ?thesis
      by (intro withinD [OF within_end_membership [OF that(3) _ ok(2)] up blind_shared] held) (use ok(5) in auto)
  qed
  have job: "chl ?A ?P (tear_down_job x membership avail leases p i st) (\<lambda>_. ?P) ?P"
    if "valid_plan_id p" "p \<noteq> q" "valid_job_id i" for p i st
    unfolding tear_down_job_def Let_def
    using chl_bind [OF chl_attempt_keep [OF member [OF that]] chl_ret] by (auto intro: chl_ret)
  show ?thesis
    unfolding tear_down_plans_def Let_def
    by (rule chl_bind [OF chl_fold chl_ret]) (use plans in \<open>auto intro!: chl_fold job simp: wf_plan_def list_all_iff\<close>)
qed

text \<open>The teardown stays away from the entries of a job that no ending plan lists.\<close>

lemma within_tear_down:
  assumes "valid_job_id j" "wf_leases leases"
    and plans: "\<forall>m\<in>set manifests. wf_plan m \<and> (j \<in> set (pm_job_ids m) \<longrightarrow> teardown_cause m markers now gate = None)"
  shows "within {p. queue_job p \<noteq> Some j} (tear_down_plans x manifests markers membership avail leases now gate)"
proof -
  have held: "list_all (\<lambda>l. valid_client_id (l_client_id l)) (filter (\<lambda>l. l_job_id l = i) leases)" for i
    using assms(2) by (auto simp: wf_leases_def list_all_iff)
  have job: "within {p. queue_job p \<noteq> Some j} (tear_down_job x membership avail leases p i st)"
    if "valid_job_id i" "i \<noteq> j" for p i st
    unfolding tear_down_job_def Let_def
    using within_end_membership [OF that assms(1) _ held] by (auto intro!: within_intros)
  show ?thesis
    unfolding tear_down_plans_def Let_def
    by (intro within_bind within_fold within_ret job) (use plans in \<open>auto simp: wf_plan_def list_all_iff\<close>)
qed

lemma tear_down_outcome:
  assumes "tear_down_plans x manifests markers membership avail leases now gate w = (Inr out, w')"
  shows "set (to_avail out) \<subseteq> set avail"
  using assms by (auto simp: tear_down_plans_def Let_def io_bind_def io_ret_def split: prod.splits sum.splits)

text \<open>
  C15: Ending plans never costs another plan its job. While a plan that is not ending holds a marker of a
  job, the teardown of any set of other plans leaves the queue entry of the job as it is and the marker in place,
  whichever calls fail, wherever the process dies, and whatever other processes do apart from that entry and that marker.
\<close>

theorem shared_job_kept:
  assumes "ext_ok x" "valid_job_id j" "valid_plan_id q" "key_deadline e" "queue_job r = Some j"
    and "wf_leases leases"
    and "\<forall>m\<in>set manifests. wf_plan m \<and> (teardown_cause m markers now gate \<noteq> None \<longrightarrow> pm_plan_id m \<noteq> q)"
    and "lookup (w_fs w) r = Some f" "present (w_fs w) (job_plan_path x j q e)"
    and "sched_ok (\<lambda>a. spares r a \<and> a \<noteq> A_del (job_plan_path x j q e)) w"
  shows "lookup (w_fs (snd (tear_down_plans x manifests markers membership avail leases now gate w))) r = Some f
    \<and> present (w_fs (snd (tear_down_plans x manifests markers membership avail leases now gate w))) (job_plan_path x j q e)"
proof -
  have "sched_ok (leaves_shared r (job_plan_path x j q e)) w"
    using assms(10) unfolding leaves_shared_def [abs_def] .
  then have "shared r f (job_plan_path x j q e) (w_fs (snd (tear_down_plans x manifests markers membership avail leases now gate w)))"
    using chlD [OF tear_down_shared [OF assms(1-7)] _ _ prod.collapse [symmetric], of w f membership avail] assms(8,9)
    by (auto simp: shared_def split: sum.splits)
  then show ?thesis
    by (simp add: shared_def)
qed

section \<open>Concrete teardowns\<close>

definition ending_plan :: plan_record where
  "ending_plan = \<lparr>pm_plan_id = ''plan-1'', pm_status = Cancelling, pm_campaign_id = None, pm_created_at = 0, pm_job_ids = [''j1''],
     pm_expired_jobs = [], pm_settled_jobs = [], pm_progress_snapshot = None, pm_terminal_at = None, pm_filed = JNull\<rparr>"

definition job_file :: inode where
  "job_file = \<lparr>f_content = C_json JNull, f_mtime = 0\<rparr>"

definition marker_file :: inode where
  "marker_file = \<lparr>f_content = C_empty, f_mtime = 0\<rparr>"

definition teardown_world :: "(path \<times> inode) list \<Rightarrow> (act list \<times> fault) list \<Rightarrow> world" where
  "teardown_world fs sched = \<lparr>w_fs = \<lparr>files = fs, clock = 0\<rparr>, w_draws = 0, w_sched = sched\<rparr>"

definition j1_avail :: path where "j1_avail = avail_path sample_ext ''j1'' Never"

definition j1_leased :: path where "j1_leased = leased_path sample_ext ''j1'' Never ''c1'' 0"

definition j1_key :: avail_key where
  "j1_key = \<lparr>ak_key = ''j1/never.json'', ak_job_id = ''j1'', ak_expires_at = Never\<rparr>"

definition tear_down_j1 :: "teardown_outcome io" where
  "tear_down_j1 = tear_down_plans sample_ext [ending_plan] {} (membership_new []) [j1_key] [] 0 0"

definition shared_world :: world where
  "shared_world = teardown_world
     [(j1_avail, job_file), (job_plan_path sample_ext ''j1'' ''plan-1'' Never, marker_file),
      (job_plan_path sample_ext ''j1'' ''plan-2'' Never, marker_file)]
     [([], NoFault), ([A_tick 5, A_put (D_denied, ''j1/c2'') C_empty], NoFault)]"

theorem shared_job_kept_witness:
  "lookup (w_fs (snd (tear_down_j1 shared_world))) j1_avail = Some job_file
   \<and> \<not> present (w_fs (snd (tear_down_j1 shared_world))) (job_plan_path sample_ext ''j1'' ''plan-1'' Never)"
proof
  have "lookup (w_fs (snd (tear_down_j1 shared_world))) j1_avail = Some job_file
    \<and> present (w_fs (snd (tear_down_j1 shared_world))) (job_plan_path sample_ext ''j1'' ''plan-2'' Never)"
    unfolding tear_down_j1_def
  proof (rule shared_job_kept [OF sample_ext_ok, where j = "''j1''"])
    show "valid_job_id ''j1''" "valid_plan_id ''plan-2''" "key_deadline Never" "queue_job j1_avail = Some ''j1''"
      "wf_leases []" "lookup (w_fs shared_world) j1_avail = Some job_file"
      "present (w_fs shared_world) (job_plan_path sample_ext ''j1'' ''plan-2'' Never)"
      by code_simp+
    show "\<forall>m\<in>set [ending_plan]. wf_plan m \<and> (teardown_cause m {} 0 0 \<noteq> None \<longrightarrow> pm_plan_id m \<noteq> ''plan-2'')"
      by code_simp
    show "sched_ok (\<lambda>a. spares j1_avail a \<and> a \<noteq> A_del (job_plan_path sample_ext ''j1'' ''plan-2'' Never)) shared_world"
      by code_simp
  qed
  then show "lookup (w_fs (snd (tear_down_j1 shared_world))) j1_avail = Some job_file"
    by blast
  show "\<not> present (w_fs (snd (tear_down_j1 shared_world))) (job_plan_path sample_ext ''j1'' ''plan-1'' Never)"
    by code_simp
qed

text \<open>
  A plan joins the job and a client claims it after the body is read and before \<open>avail/\<close> is listed for the delete:
  the delete finds nothing, the joiner is seen, and the body goes back to \<open>avail/\<close> beside the lease.
\<close>

definition claimed_meanwhile :: world where
  "claimed_meanwhile = teardown_world
     [(j1_avail, job_file), (job_plan_path sample_ext ''j1'' ''plan-1'' Never, marker_file)]
     [([], NoFault), ([], NoFault), ([], NoFault), ([], NoFault), ([], NoFault),
      ([A_put (job_plan_path sample_ext ''j1'' ''plan-2'' Never) C_empty, A_move j1_avail j1_leased], NoFault)]"

text \<open>
  C16: The restore can duplicate a job. A claim that falls between the read of the body and the delete leaves the job with two queue
  entries, a lease and an entry that another client can claim, although every other step moved the only
  entry it had.
\<close>

theorem restore_duplicates:
  "sole_entry ''j1'' (w_fs claimed_meanwhile)
   \<and> fst (end_membership sample_ext ''plan-1'' ''j1'' (Some j1_key) [] claimed_meanwhile) = Inr (J_Released 1)
   \<and> \<not> sole_entry ''j1'' (w_fs (snd (end_membership sample_ext ''plan-1'' ''j1'' (Some j1_key) [] claimed_meanwhile)))
   \<and> job_entries ''j1'' (w_fs (snd (tear_down_j1 claimed_meanwhile))) = [j1_leased, j1_avail]"
proof (intro conjI)
  show "sole_entry ''j1'' (w_fs claimed_meanwhile)"
    by code_simp
qed code_simp+

end
