(* ===== verification/Plan_Store.thy ===== *)
theory Plan_Store
  imports Plan_Markers Footprint
begin

text \<open>
  The plan store of the local backend beside the \<open>job-plans/\<close> markers: manifests, cancel markers,
  content keys, plan and job sources and job links of \<open>LocalFsPlanStore\<close> in \<open>pipette-store-fs/src/lib.rs\<close>. The version of
  a content-key record is the digest of its bytes; here it is the record itself. Staging files, which no listing reads, are
  named like those of the other stores. Also the outcome of a job, which the submission store reads from its record.
\<close>

section \<open>Manifests\<close>

definition manifest_path :: "plan_id \<Rightarrow> path" where
  "manifest_path p = (D_plans, p @ json_suffix)"

definition put_plan :: "ext \<Rightarrow> plan_record \<Rightarrow> unit io" where
  "put_plan x m = replace_atomically x (D_plans, []) (manifest_path (pm_plan_id m)) (C_plan m)"

fun decode_plan :: "content \<Rightarrow> (err, plan_record) result" where
  "decode_plan (C_plan m) = Inr m"
| "decode_plan _ = Inl E_corrupt"

definition get_plan :: "plan_id \<Rightarrow> plan_record option io" where
  "get_plan p =
     io_bind (vanished_is_absent (read_file (manifest_path p))) (\<lambda>c.
       case c of
         None \<Rightarrow> io_ret None
       | Some c \<Rightarrow> io_bind (io_lift (decode_plan c)) (\<lambda>m. io_ret (Some m)))"

text \<open>
  One page of the manifests, in the order of their names. What is not a manifest is reported and takes no row; the
  report, which is only logged, is left out.
\<close>

definition flat_keyspace_id :: "string \<Rightarrow> plan_id option" where
  "flat_keyspace_id leaf = Option.bind (strip_suffix json_suffix leaf) (\<lambda>s. ok (plan_id_try_new s))"

fun read_page :: "(string \<times> plan_id \<times> bool) list \<Rightarrow> nat \<Rightarrow> plan_record list \<Rightarrow> (plan_record list \<times> plan_id option) io" where
  "read_page [] limit items = io_ret (items, None)"
| "read_page ((leaf, p, is_dir) # candidates) limit items =
     io_bind (if is_dir then io_raise (E_io K_Other) else vanished_is_absent (read_file (D_plans, leaf))) (\<lambda>c.
       let items = (case map_option decode_plan c of Some (Inr m) \<Rightarrow> items @ [m] | _ \<Rightarrow> items) in
       if length items = limit then io_ret (items, if candidates = [] then None else Some p)
       else read_page candidates limit items)"

definition list_plans :: "plan_id option \<Rightarrow> nat \<Rightarrow> (plan_record list \<times> plan_id option) io" where
  "list_plans after limit =
     io_bind (dir_seems_there D_plans []) (\<lambda>there.
       if \<not> there then io_ret ([], None)
       else io_bind (read_dir D_plans []) (\<lambda>es.
         io_bind (io_lift (all_readable es)) (\<lambda>es.
           read_page (filter (\<lambda>(leaf, _). case after of None \<Rightarrow> True | Some p \<Rightarrow> p @ json_suffix < leaf)
             (sort_key fst (List.map_filter (\<lambda>(leaf, is_dir). map_option (\<lambda>p. (leaf, p, is_dir)) (flat_keyspace_id leaf)) es)))
             limit [])))"

definition DRAIN_PAGE_SIZE :: nat where "DRAIN_PAGE_SIZE = 500"

text \<open>Every manifest, page by page.\<close>

fun drain_plans :: "nat \<Rightarrow> plan_id option \<Rightarrow> plan_record list \<Rightarrow> plan_record list io" where
  "drain_plans 0 after listing = io_raise E_crash"
| "drain_plans (Suc pages) after listing =
     io_bind (list_plans after DRAIN_PAGE_SIZE) (\<lambda>(items, resume_after).
       case resume_after of
         None \<Rightarrow> io_ret (listing @ items)
       | Some p \<Rightarrow> drain_plans pages (Some p) (listing @ items))"

section \<open>Cancel markers\<close>

definition cancel_marker_path :: "plan_id \<Rightarrow> path" where
  "cancel_marker_path p = (D_cancelled, p)"

definition write_cancel_marker :: "plan_id \<Rightarrow> unit io" where
  "write_cancel_marker p = write_file (cancel_marker_path p) C_empty"

definition has_cancel_marker :: "plan_id \<Rightarrow> bool io" where
  "has_cancel_marker p = try_exists (cancel_marker_path p)"

definition list_cancel_markers :: "plan_id list io" where
  "list_cancel_markers =
     io_bind (dir_exists D_cancelled []) (\<lambda>there.
       if \<not> there then io_ret []
       else io_bind (read_dir D_cancelled []) (\<lambda>es.
         io_bind (io_lift (parse_flags plan_id_try_new es)) (\<lambda>ps. io_ret (map fst ps))))"

definition delete_cancel_marker :: "plan_id \<Rightarrow> unit io" where
  "delete_cancel_marker p = remove_file_idempotent (cancel_marker_path p)"

section \<open>Content keys\<close>

definition content_key_path :: "string \<Rightarrow> path" where
  "content_key_path digest = (D_content_keys, digest)"

definition is_content_digest :: "string \<Rightarrow> bool" where
  "is_content_digest name \<longleftrightarrow>
     length name = 64 \<and> list_all (\<lambda>c. CHR ''0'' \<le> c \<and> c \<le> CHR ''9'' \<or> CHR ''a'' \<le> c \<and> c \<le> CHR ''f'') name"

fun decode_content_key :: "content \<Rightarrow> (err, content_key_record) result" where
  "decode_content_key (C_content_key r) = Inr r"
| "decode_content_key _ = Inl E_corrupt"

definition read_content_key :: "string \<Rightarrow> content_key_record option io" where
  "read_content_key digest =
     io_bind (vanished_is_absent (read_file (content_key_path digest))) (\<lambda>c.
       case c of
         None \<Rightarrow> io_ret None
       | Some c \<Rightarrow> io_bind (io_lift (decode_content_key c)) (\<lambda>r. io_ret (Some r)))"

datatype content_key_claim = K_Created | K_AlreadyExists content_key_record

text \<open>Two attempts: the record may be collected between the refused link and the read.\<close>

fun claim_digest :: "nat \<Rightarrow> path \<Rightarrow> string \<Rightarrow> content_key_claim io" where
  "claim_digest 0 tmp digest = io_raise E_bail"
| "claim_digest (Suc n) tmp digest =
     io_bind (hard_link tmp (content_key_path digest)) (\<lambda>created.
       if created then io_ret K_Created
       else io_bind (read_content_key digest) (\<lambda>r.
         case r of Some r \<Rightarrow> io_ret (K_AlreadyExists r) | None \<Rightarrow> claim_digest n tmp digest))"

definition create_content_key :: "ext \<Rightarrow> string \<Rightarrow> content_key_record \<Rightarrow> content_key_claim io" where
  "create_content_key x digest r =
     io_bind (new_uuid x) (\<lambda>u.
       let tmp = tmp_sibling (D_content_keys, []) u in
       with_tmp_guard tmp (io_bind (write_file tmp (C_content_key r)) (\<lambda>_. claim_digest 2 tmp digest)))"

datatype content_key_cas = Applied | Lost

definition replace_content_key :: "ext \<Rightarrow> string \<Rightarrow> content_key_record \<Rightarrow> content_key_record \<Rightarrow> content_key_cas io" where
  "replace_content_key x digest expected r =
     io_bind (read_content_key digest) (\<lambda>actual.
       if actual \<noteq> Some expected then io_ret Lost
       else io_bind (replace_atomically x (D_content_keys, []) (content_key_path digest) (C_content_key r)) (\<lambda>_.
         io_ret Applied))"

definition delete_content_key :: "string \<Rightarrow> content_key_record \<Rightarrow> content_key_cas io" where
  "delete_content_key digest expected =
     io_bind (read_content_key digest) (\<lambda>actual.
       if actual \<noteq> Some expected then io_ret Lost
       else io_bind (vanished_is_absent (remove_file (content_key_path digest))) (\<lambda>r.
         io_ret (case r of Some _ \<Rightarrow> Applied | None \<Rightarrow> Lost)))"

definition list_content_keys :: "(string \<times> content_key_record) list io" where
  "list_content_keys =
     io_bind (dir_exists D_content_keys []) (\<lambda>there.
       if \<not> there then io_ret []
       else io_bind (read_dir D_content_keys []) (\<lambda>es.
         io_fold (\<lambda>e listed.
           case e of
             Inl k \<Rightarrow> io_raise (E_io k)
           | Inr (name, _) \<Rightarrow>
               if \<not> is_content_digest name then io_ret listed
               else io_bind (read_content_key name) (\<lambda>r.
                 io_ret (case r of None \<Rightarrow> listed | Some r \<Rightarrow> listed @ [(name, r)]))) es []))"

section \<open>Plan and job sources\<close>

definition source_path :: "plan_id \<Rightarrow> path" where
  "source_path p = (D_plan_sources, p @ ''.toml'')"

text \<open>Whether the document names an \<open>auth_token\<close> is an argument: it is read from parsed TOML.\<close>

definition put_plan_source :: "ext \<Rightarrow> plan_id \<Rightarrow> string \<Rightarrow> bool \<Rightarrow> create_outcome io" where
  "put_plan_source x p source names_a_token =
     (if names_a_token then io_raise E_bail
      else create_complete x (D_plan_sources, []) (source_path p) (C_text source))"

definition delete_plan_source :: "plan_id \<Rightarrow> unit io" where
  "delete_plan_source p = remove_file_idempotent (source_path p)"

definition write_pending_source_marker :: "plan_id \<Rightarrow> unit io" where
  "write_pending_source_marker p = write_file (D_pending_sources, p) C_empty"

definition list_pending_source_markers :: "(plan_id \<times> time) list io" where
  "list_pending_source_markers =
     io_bind (dir_exists D_pending_sources []) (\<lambda>there.
       if \<not> there then io_ret []
       else io_bind (read_dir D_pending_sources []) (\<lambda>es.
         io_fold (\<lambda>e markers.
           case e of
             Inl k \<Rightarrow> if k = K_NotFound then io_ret markers else io_raise (E_io k)
           | Inr (name, _) \<Rightarrow>
               (case plan_id_try_new name of
                  Inl _ \<Rightarrow> io_ret markers
                | Inr p \<Rightarrow>
                    io_bind (vanished_is_absent (file_mtime (D_pending_sources, name))) (\<lambda>written_at.
                      io_ret (case written_at of None \<Rightarrow> markers | Some t \<Rightarrow> markers @ [(p, t)])))) es []))"

definition delete_pending_source_marker :: "plan_id \<Rightarrow> unit io" where
  "delete_pending_source_marker p = remove_file_idempotent (D_pending_sources, p)"

definition job_source_path :: "job_id \<Rightarrow> path" where
  "job_source_path j = (D_job_sources, j @ json_suffix)"

definition put_job_source :: "ext \<Rightarrow> job_id \<Rightarrow> json \<Rightarrow> create_outcome io" where
  "put_job_source x j body = create_complete x (D_job_sources, []) (job_source_path j) (C_json body)"

definition get_job_source :: "job_id \<Rightarrow> json option io" where
  "get_job_source j = read_body (job_source_path j)"

text \<open>An empty link, created only if it is absent.\<close>

definition put_job_plan_link :: "job_id \<Rightarrow> plan_id \<Rightarrow> create_outcome io" where
  "put_job_plan_link j p =
     sys (\<lambda>_ s.
       let path = (D_job_plan_links, j @ ''/'' @ p) in
       if present s path then (Inr AlreadyExists, s) else (Inr Created, put path C_empty s))"

definition list_job_plan_links :: "job_id \<Rightarrow> plan_id list io" where
  "list_job_plan_links j =
     io_bind (dir_exists D_job_plan_links j) (\<lambda>there.
       if \<not> there then io_ret []
       else io_bind (read_dir D_job_plan_links j) (\<lambda>es.
         io_bind (io_lift (parse_flags plan_id_try_new es)) (\<lambda>ps. io_ret (map fst ps))))"

section \<open>The outcome of a job\<close>

text \<open>The derived readers take a record from an object, or from an array of its fields.\<close>

definition outcome_probe :: "json \<Rightarrow> settled_outcome option" where
  "outcome_probe v =
     (case v of
        JObj _ \<Rightarrow> Some (from_message_type (Option.bind (get v ''message_type'') as_str))
      | JArr [m] \<Rightarrow> Some (from_message_type (as_str m))
      | _ \<Rightarrow> None)"

definition finalize_probe :: "json \<Rightarrow> settled_outcome option" where
  "finalize_probe v =
     (case v of
        JObj _ \<Rightarrow> Option.bind (get v ''submission'') outcome_probe
      | JArr [submission] \<Rightarrow> outcome_probe submission
      | _ \<Rightarrow> None)"

definition read_probe :: "(json \<Rightarrow> settled_outcome option) \<Rightarrow> path \<Rightarrow> settled_outcome option io" where
  "read_probe probe p =
     io_bind (read_body p) (\<lambda>body.
       case body of
         None \<Rightarrow> io_ret None
       | Some v \<Rightarrow> (case probe v of None \<Rightarrow> io_raise E_corrupt | Some out \<Rightarrow> io_ret (Some out)))"

text \<open>The first of the readers that finds a record answers.\<close>

fun first_found :: "'a option io list \<Rightarrow> 'a option io" where
  "first_found [] = io_ret None"
| "first_found (m # ms) = io_bind m (\<lambda>r. case r of Some a \<Rightarrow> io_ret (Some a) | None \<Rightarrow> first_found ms)"

definition find_outcome :: "job_id \<Rightarrow> settled_outcome option io" where
  "find_outcome j = first_found
     [read_probe outcome_probe (processed_path j), read_probe outcome_probe (submission_path D_incoming j),
      read_probe outcome_probe (submission_path D_to_do j), read_probe outcome_probe (submission_path D_parked j),
      read_probe finalize_probe (submission_path D_to_finalize j), read_probe outcome_probe (processed_path j)]"

definition find_outcomes :: "job_id list \<Rightarrow> (job_id \<Rightarrow> settled_outcome option) io" where
  "find_outcomes js =
     io_fold (\<lambda>j found. io_bind (find_outcome j) (\<lambda>out. io_ret (case out of None \<Rightarrow> found | Some out \<Rightarrow> found(j \<mapsto> out))))
       js Map.empty"

section \<open>Footprints\<close>

lemma within_first_found: "(\<And>m. m \<in> set ms \<Longrightarrow> within S m) \<Longrightarrow> within S (first_found ms)"
  by (induction ms) (auto intro!: within_intros split: option.split)

lemma within_outcomes [within_intros]: "within S (find_outcome j)" "within S (find_outcomes js)"
proof -
  have probe: "within S (read_probe f p)" for f p
    unfolding read_probe_def by (auto intro!: within_intros split: option.split)
  show "within S (find_outcome j)" for j
    unfolding find_outcome_def by (rule within_first_found) (auto intro: probe)
  then show "within S (find_outcomes js)"
    unfolding find_outcomes_def by (intro within_fold within_bind within_ret)
qed

lemma within_get_plan [within_intros]: "within S (get_plan p)"
  unfolding get_plan_def by (auto intro!: within_intros split: option.split)

lemma within_read_content_key [within_intros]: "within S (read_content_key digest)"
  unfolding read_content_key_def by (auto intro!: within_intros split: option.split)

lemma within_plans:
  "D_plans \<in> D \<Longrightarrow> within (D \<times> UNIV) (put_plan x m)"
  "D_cancelled \<in> D \<Longrightarrow> within (D \<times> UNIV) (delete_cancel_marker p)"
  unfolding put_plan_def manifest_path_def delete_cancel_marker_def cancel_marker_path_def
  by (auto intro!: within_dir_replace within_remove_idempotent)

text \<open>A source is written once: what is stored first is what is read ever after.\<close>

lemma job_source_once:
  assumes "w_sched w = []" "put_job_source x j body w = (r, w')"
  shows "case lookup (w_fs w) (job_source_path j) of
      None \<Rightarrow> r = Inr Created \<and> fst (get_job_source j w') = Inr (Some body)
    | Some f \<Rightarrow> r = Inr AlreadyExists \<and> lookup (w_fs w') (job_source_path j) = Some f"
proof -
  have other: "tmp_sibling (D_job_sources, []) u \<noteq> job_source_path j" for u
    by (auto simp: tmp_sibling_def job_source_path_def json_suffix_def)
  show ?thesis
    using assms other other [symmetric]
    by (auto simp: put_job_source_def create_complete_def with_tmp_guard_def get_job_source_def read_body_def vanished_is_absent_def
        attempt_def new_uuid_def io_bind_def io_lift_def io_ret_def sys_def hard_link_def remove_file_def read_file_def write_file_run
        present_def map_err_def Let_def split: option.splits)
qed

end
