(* ===== verification/Maintenance_Gc.thy ===== *)
theory Maintenance_Gc
  imports Maintenance_Index
begin

text \<open>
  The passes of \<open>pipette-pipeline/src/queue_maintenance.rs\<close> that collect what is left of jobs
  and clients that are gone, and count the backlog. A marker is collected on its second
  sighting, or at once when its job ended in this run: \<open>confirm_or_stage\<close>. A \<open>HashSet\<close> of keys
  is a list without repetitions, a \<open>BTreeMap\<close> an association list in the order of its keys.
\<close>

section \<open>Two sightings\<close>

record gc_views =
  gc_live_jobs :: "job_id set"
  gc_live_clients :: "client_id set"
  gc_avail_expiries :: "job_id \<Rightarrow> expires_at option"
  gc_terminal_jobs :: "job_id set"
  gc_prior :: "string list"

definition confirm_or_stage_group ::
  "gc_views \<Rightarrow> string list \<Rightarrow> string list \<Rightarrow> job_id option \<Rightarrow> bool \<times> string list" where
  "confirm_or_stage_group v staged keys owning_job =
     (if (case owning_job of None \<Rightarrow> False | Some j \<Rightarrow> j \<in> gc_terminal_jobs v)
         \<or> list_all (\<lambda>k. k \<in> set (gc_prior v)) keys
      then (True, staged)
      else (False, fold List.insert keys staged))"

definition confirm_or_stage ::
  "gc_views \<Rightarrow> string list \<Rightarrow> string \<Rightarrow> job_id option \<Rightarrow> bool \<times> string list" where
  "confirm_or_stage v staged key owning_job = confirm_or_stage_group v staged [key] owning_job"

text \<open>One loop of \<open>reconcile_orphans\<close> over a keyspace: what is not alive is confirmed and removed, or staged.\<close>

definition sweep ::
  "gc_views \<Rightarrow> ('a \<Rightarrow> bool) \<Rightarrow> ('a \<Rightarrow> string list) \<Rightarrow> ('a \<Rightarrow> job_id option) \<Rightarrow> ('a \<Rightarrow> unit io) \<Rightarrow>
   'a list \<Rightarrow> string list \<Rightarrow> string list io" where
  "sweep v alive keys owner remove =
     io_fold (\<lambda>a staged.
       if alive a then io_ret staged
       else let (confirmed, staged) = confirm_or_stage_group v staged (keys a) (owner a) in
         io_bind (io_when confirmed (remove a)) (\<lambda>_. io_ret staged))"

text \<open>The entries of a \<open>BTreeMap\<close> from an id to what was pushed under it.\<close>

definition pushed_by_id :: "(string \<times> 'a) list \<Rightarrow> (string \<times> 'a list) list" where
  "pushed_by_id ps = map (\<lambda>i. (i, map snd (filter (\<lambda>(k, _). k = i) ps))) (sort (remdups (map fst ps)))"

section \<open>The keyspaces\<close>

type_synonym eligible_marker = "client_id \<times> job_id \<times> expires_at"

definition eligible_gc_key :: "ext \<Rightarrow> eligible_marker \<Rightarrow> string" where
  "eligible_gc_key x = (\<lambda>(c, j, e). ''eligible/clients/'' @ c @ ''/'' @ eligible_filename x j e)"

definition stale_expiry :: "gc_views \<Rightarrow> job_id \<Rightarrow> expires_at \<Rightarrow> bool" where
  "stale_expiry v j e = (case gc_avail_expiries v j of None \<Rightarrow> False | Some current \<Rightarrow> current \<noteq> e)"

definition sweep_eligible :: "ext \<Rightarrow> gc_views \<Rightarrow> eligible_marker list \<Rightarrow> string list \<Rightarrow> string list io" where
  "sweep_eligible x v marks staged =
     io_bind
       (io_fold (\<lambda>(c, j, e) (dead, staged).
          let client_dead = c \<notin> gc_live_clients v; job_dead = j \<notin> gc_live_jobs v; stale = stale_expiry v j e in
          if \<not> client_dead \<and> \<not> job_dead \<and> \<not> stale then io_ret (dead, staged)
          else
            let key = eligible_gc_key x (c, j, e) in
            if client_dead then io_ret (dead @ [(c, key)], staged)
            else if stale then io_bind (delete_eligible x c j e) (\<lambda>_. io_ret (dead, staged))
            else let (confirmed, staged) = confirm_or_stage v staged key (Some j) in
              io_bind (io_when confirmed (delete_eligible x c j e)) (\<lambda>_. io_ret (dead, staged)))
          marks ([], staged))
       (\<lambda>(dead, staged).
          sweep v (\<lambda>_. False) snd (\<lambda>_. None) (\<lambda>(c, _). delete_eligible_for_client c) (pushed_by_id dead) staged)"

definition denied_gc_key :: "job_id \<times> client_id \<Rightarrow> string" where
  "denied_gc_key = (\<lambda>(j, c). ''denied/'' @ denied_marker_filename j c)"

definition sweep_denied :: "gc_views \<Rightarrow> (job_id \<times> client_id) list \<Rightarrow> string list \<Rightarrow> string list io" where
  "sweep_denied v denied staged =
     io_bind
       (io_fold (\<lambda>(j, c) (dead, staged).
          let job_dead = j \<notin> gc_live_jobs v; client_dead = c \<notin> gc_live_clients v in
          if \<not> job_dead \<and> \<not> client_dead then io_ret (dead, staged)
          else
            let key = denied_gc_key (j, c) in
            if job_dead then io_ret (dead @ [(j, key)], staged)
            else let (confirmed, staged) = confirm_or_stage v staged key None in
              io_bind (io_when confirmed (delete_denied j c)) (\<lambda>_. io_ret (dead, staged)))
          denied ([], staged))
       (\<lambda>(dead, staged).
          sweep v (\<lambda>_. False) snd (\<lambda>(j, _). Some j) (\<lambda>(j, _). delete_denied_for_job j) (pushed_by_id dead) staged)"

text \<open>A deleted client's lease is recycled, not deleted: it holds the only copy of the body.\<close>

definition recycle_orphan :: "ext \<Rightarrow> lease \<Rightarrow> unit io" where
  "recycle_orphan x l =
     io_bind (resolve_or_recycle_lease x (l_job_id l) (l_expires_at l) (l_client_id l) (l_lease_expiry l))
       (\<lambda>_. io_ret ())"

definition sweep_leased :: "ext \<Rightarrow> gc_views \<Rightarrow> string list \<Rightarrow> string list \<Rightarrow> string list io" where
  "sweep_leased x v raw_keys staged =
     sweep v (\<lambda>(_, l). l_client_id l \<in> gc_live_clients v) (\<lambda>(k, _). [''leased/'' @ k]) (\<lambda>_. None)
       (\<lambda>(_, l). recycle_orphan x l)
       (List.map_filter (\<lambda>k. map_option (Pair k) (ok (parse_leased_key x k))) raw_keys) staged"

definition reconcile_orphans ::
  "ext \<Rightarrow> gc_views \<Rightarrow> eligible_marker list \<Rightarrow> (job_id \<times> client_id) list \<Rightarrow> string list io" where
  "reconcile_orphans x v marks denied =
     (let of_client = (\<lambda>c. c \<in> gc_live_clients v); of_job = (\<lambda>j. j \<in> gc_live_jobs v) in
      io_bind (sweep_eligible x v marks []) (\<lambda>staged.
      io_bind (sweep_denied v denied staged) (\<lambda>staged.
      io_bind list_suspensions (\<lambda>suspensions.
      io_bind (sweep v (of_client \<circ> fst) (\<lambda>(c, _). [''suspended/'' @ c @ ''.json'']) (\<lambda>_. None)
          (\<lambda>(c, _). delete_suspension c) suspensions staged) (\<lambda>staged.
      io_bind list_liveness (\<lambda>seen.
      io_bind (sweep v (of_client \<circ> fst) (\<lambda>(c, _). [''liveness/'' @ c]) (\<lambda>_. None)
          (\<lambda>(c, _). delete_liveness c) seen staged) (\<lambda>staged.
      io_bind list_pending_reindex (\<lambda>flags.
      io_bind (sweep v (of_client \<circ> fst) (\<lambda>(_, k). [''pending-reindex/'' @ k]) (\<lambda>_. None)
          (\<lambda>(_, k). delete_pending_reindex k) flags staged) (\<lambda>staged.
      io_bind list_pending_reindex_jobs (\<lambda>jobs.
      io_bind (sweep v of_job (\<lambda>j. [''pending-reindex-jobs/'' @ j]) Some
          delete_pending_reindex_job jobs staged) (\<lambda>staged.
      io_bind list_lost_lease_jobs (\<lambda>jobs.
      io_bind (sweep v of_job (\<lambda>j. [''lost/'' @ j @ ''/'']) Some
          delete_lost_leases_for_job jobs staged) (\<lambda>staged.
      io_bind list_leased (\<lambda>raw_keys.
        sweep_leased x v raw_keys staged))))))))))))))"

section \<open>The backlog\<close>

definition claimable_markers ::
  "eligible_marker list \<Rightarrow> (job_id \<Rightarrow> expires_at option) \<Rightarrow> (job_id \<times> client_id) list \<Rightarrow> time \<Rightarrow> eligible_marker list" where
  "claimable_markers marks avail_expiries denied now =
     filter (\<lambda>(c, j, e). avail_expiries j = Some e \<and> \<not> is_expired e now \<and> (j, c) \<notin> set denied) marks"

definition bump :: "string \<Rightarrow> (string \<times> nat) list \<Rightarrow> (string \<times> nat) list" where
  "bump k counts = AList.update k (Suc (case map_of counts k of None \<Rightarrow> 0 | Some n \<Rightarrow> n)) counts"

definition count_backlog :: "eligible_marker list \<Rightarrow> (client_id \<times> nat) list" where
  "count_backlog claimable = sort_key fst (fold (\<lambda>(c, _, _). bump c) claimable [])"

text \<open>The campaign of each plan whose teardown has not started.\<close>

definition plan_campaigns ::
  "'p plan_manifest_scheme list \<Rightarrow> plan_id set \<Rightarrow> plan_id set \<Rightarrow> plan_id \<Rightarrow> string option" where
  "plan_campaigns manifests cancel_markers stranded =
     map_of (rev (List.map_filter (\<lambda>m. map_option (Pair (pm_plan_id m)) (pm_campaign_id m))
       (filter (\<lambda>m. pm_plan_id m \<notin> cancel_markers \<and> pm_plan_id m \<notin> stranded
          \<and> pm_status m \<noteq> Cancelling \<and> pm_status m \<noteq> Cancelled) manifests)))"

definition job_campaigns ::
  "job_plan_marker list \<Rightarrow> 'p plan_manifest_scheme list \<Rightarrow> plan_id set \<Rightarrow> plan_id set \<Rightarrow> time \<Rightarrow>
   job_id \<Rightarrow> string list option" where
  "job_campaigns markers manifests cancel_markers stranded now =
     fold (\<lambda>(j, k) acc. acc(j \<mapsto> sort (List.insert k (case acc j of None \<Rightarrow> [] | Some ks \<Rightarrow> ks))))
       (List.map_filter (\<lambda>m. map_option (Pair (jm_job_id m))
            (plan_campaigns manifests cancel_markers stranded (jm_plan_id m)))
          (filter (\<lambda>m. \<not> is_expired (jm_expires_at m) now) markers))
       (\<lambda>_. None)"

definition default_backlog :: campaign_backlog where
  "default_backlog = \<lparr>by_campaign = [], outside_campaigns = 0\<rparr>"

definition add_claimable ::
  "(job_id \<Rightarrow> string list option) \<Rightarrow> eligible_marker \<Rightarrow>
   (client_id \<times> campaign_backlog) list \<Rightarrow> (client_id \<times> campaign_backlog) list" where
  "add_claimable campaigns = (\<lambda>(c, j, _) acc.
     let backlog = (case map_of acc c of None \<Rightarrow> default_backlog | Some b \<Rightarrow> b) in
     AList.update c
       (case campaigns j of
          Some ks \<Rightarrow> backlog\<lparr>by_campaign := sort_key fst (fold bump ks (by_campaign backlog))\<rparr>
        | None \<Rightarrow> backlog\<lparr>outside_campaigns := Suc (outside_campaigns backlog)\<rparr>) acc)"

definition count_campaign_backlog ::
  "eligible_marker list \<Rightarrow> (job_id \<Rightarrow> string list option) \<Rightarrow> (client_id \<times> campaign_backlog) list" where
  "count_campaign_backlog claimable campaigns = sort_key fst (fold (add_claimable campaigns) claimable [])"

section \<open>Staging debris\<close>

definition cleanup_stale_tmp :: "nat \<Rightarrow> unit io" where
  "cleanup_stale_tmp max_age = io_bind (list_stale_tmp max_age) (\<lambda>stale. io_for stale delete_tmp_object)"

section \<open>Under any interference\<close>

context marker_guarantee
begin

lemma safe_sweep:
  "(\<And>a. a \<in> set as \<Longrightarrow> \<not> alive a \<Longrightarrow> safe (remove a)) \<Longrightarrow> safe (sweep v alive keys owner remove as staged)"
  unfolding sweep_def Let_def by (intro safe_intros)

lemma safe_sweep_eligible: "safe (sweep_eligible x v marks staged)"
  unfolding sweep_eligible_def Let_def by (intro safe_intros safe_sweep safe_todo_writes)

lemma safe_sweep_denied: "safe (sweep_denied v denied staged)"
  unfolding sweep_denied_def Let_def by (intro safe_intros safe_sweep safe_todo_writes)

lemma safe_cleanup_stale_tmp: "safe (cleanup_stale_tmp age)"
  unfolding cleanup_stale_tmp_def by (intro safe_intros safe_todo_reads safe_todo_writes)

end

text \<open>Of the queue entries only the leases of clients that are gone are put back.\<close>

context entry_guarantee
begin

definition may_collect :: "ext \<Rightarrow> client_id set \<Rightarrow> bool" where
  "may_collect x live \<longleftrightarrow> (\<forall>l. entry_ok (Q_Lease l) \<and> l_client_id l \<notin> live \<longrightarrow> may x (Q_Lease l))"

lemma safe_sweep_leased:
  assumes "may_collect x (gc_live_clients v)"
  shows "safe (sweep_leased x v raw_keys staged)"
  unfolding sweep_leased_def recycle_orphan_def using assms
  by (intro safe_sweep safe_intros put_back)
    (auto simp: set_map_filter may_collect_def dest: parse_lease_valid)

lemma safe_reconcile_orphans: "may_collect x (gc_live_clients v) \<Longrightarrow> safe (reconcile_orphans x v marks denied)"
  unfolding reconcile_orphans_def Let_def
  by (intro safe_intros safe_sweep_eligible safe_sweep_denied safe_sweep_leased safe_sweep
      safe_todo_reads safe_todo_writes)

end

end
