(* ===== verification/Content_Key.thy ===== *)
theory Content_Key
  imports Vault Matching
begin

text \<open>
  The digests of a job body, \<open>pipette-pipeline/src/content_key.rs\<close>: two plans that describe the
  same cell for the same clients run it once. The digest is a hash of the canonical JSON of the body without its
  identity and deadline, with every eligibility clause as a sorted set. The hash is a parameter, and so is the text of a JSON leaf;
  \<open>leaves_ok\<close> states what the grammar of JSON says about the latter. The theorems show that canonical JSON
  separates all values that differ in more than the order of fields, and that bodies with one digest admit the same clients.
\<close>

section \<open>The clauses of a body as lists\<close>

definition flat_flags :: "json \<Rightarrow> string \<Rightarrow> string list" where
  "flat_flags body field =
     List.map_filter as_str (case Option.bind (get body field) as_array of None \<Rightarrow> [] | Some vs \<Rightarrow> vs)"

definition flag_group_lists :: "json \<Rightarrow> string \<Rightarrow> string list list" where
  "flag_group_lists body field =
     map (List.map_filter as_str)
       (List.map_filter as_array (case Option.bind (get body field) as_array of None \<Rightarrow> [] | Some vs \<Rightarrow> vs))"

text \<open>A set of sets, in the order of their elements.\<close>

definition flag_sets :: "string list list \<Rightarrow> string list list" where
  "flag_sets groups = sort (remdups (map (\<lambda>g. sort (remdups g)) groups))"

section \<open>Digests\<close>

definition VERSION :: string where "VERSION = ''pipette-content-key-v2''"

definition LEGACY_VERSION :: string where "LEGACY_VERSION = ''pipette-content-key-v1''"

definition CELL_VERSION :: string where "CELL_VERSION = ''pipette-cell-key-v1''"

definition UNKEYED :: "string list" where
  "UNKEYED = [''job_id'', ''plan_id'', ''expires_at'', ''merge_duplicates'']"

definition FLAG_CLAUSES :: "string list" where
  "FLAG_CLAUSES = [''requires'', ''clients'', ''excludes'', ''exclude_clients'']"

definition GROUP_CLAUSES :: "string list" where
  "GROUP_CLAUSES = [''any_of'', ''not_all_of'']"

definition key_flag_set :: "json \<Rightarrow> string \<Rightarrow> json" where
  "key_flag_set body field = JArr (map JStr (sort (remdups (flat_flags body field))))"

definition key_group_sets :: "json \<Rightarrow> string \<Rightarrow> json" where
  "key_group_sets body field = JArr (map (\<lambda>g. JArr (map JStr g)) (flag_sets (flag_group_lists body field)))"

fun drop_vault_custom_labels :: "json \<Rightarrow> json" where
  "drop_vault_custom_labels (JObj kvs) =
     JObj (filter (\<lambda>(k, _). \<not> (is_vault_source kvs \<and> k = CUSTOM_LABEL))
       (map (\<lambda>(k, v). (k, drop_vault_custom_labels v)) kvs))"
| "drop_vault_custom_labels (JArr items) = JArr (map drop_vault_custom_labels items)"
| "drop_vault_custom_labels leaf = leaf"

definition without_fields :: "string list \<Rightarrow> (string \<times> json) list \<Rightarrow> (string \<times> json) list" where
  "without_fields unkeyed kvs = filter (\<lambda>(k, _). k \<notin> set unkeyed) kvs"

definition keyed_content :: "json \<Rightarrow> json" where
  "keyed_content body =
     drop_vault_custom_labels
       (case body of
          JObj kvs \<Rightarrow>
            JObj (fold (\<lambda>f. obj_insert f (key_group_sets body f)) GROUP_CLAUSES
              (fold (\<lambda>f. obj_insert f (key_flag_set body f)) FLAG_CLAUSES (without_fields UNKEYED kvs)))
        | _ \<Rightarrow> body)"

definition content_preimage :: "ext \<Rightarrow> json \<Rightarrow> string" where
  "content_preimage x body = canonical_json x (JObj [(''v'', JStr VERSION), (''body'', keyed_content body)])"

definition content_digest :: "ext \<Rightarrow> (string \<Rightarrow> string) \<Rightarrow> json \<Rightarrow> string" where
  "content_digest x sha256_hex body = sha256_hex (content_preimage x body)"

definition cell_digest :: "ext \<Rightarrow> (string \<Rightarrow> string) \<Rightarrow> json \<Rightarrow> string" where
  "cell_digest x sha256_hex body =
     (let content = drop_vault_custom_labels
            (case body of
               JObj kvs \<Rightarrow> JObj (without_fields (UNKEYED @ FLAG_CLAUSES @ GROUP_CLAUSES @ [REQUIRED_FLAGS]) kvs)
             | _ \<Rightarrow> body) in
      sha256_hex (canonical_json x (JObj [(''v'', JStr CELL_VERSION), (''body'', content)])))"

definition legacy_content_digest :: "ext \<Rightarrow> (string \<Rightarrow> string) \<Rightarrow> json \<Rightarrow> string" where
  "legacy_content_digest x sha256_hex body =
     sha256_hex (canonical_json x (JObj
       [(''any_of'', key_group_sets body ''any_of''), (''clients'', key_flag_set body ''clients''),
        (''exclude_clients'', key_flag_set body ''exclude_clients''), (''excludes'', key_flag_set body ''excludes''),
        (''not_all_of'', key_group_sets body ''not_all_of''), (''requires'', key_flag_set body ''requires''),
        (''spec'', case get body ''spec'' of None \<Rightarrow> JNull | Some spec \<Rightarrow> spec), (''v'', JStr LEGACY_VERSION)]))"

definition merge_duplicates :: "json \<Rightarrow> (json, bool) result" where
  "merge_duplicates body =
     (case get body ''merge_duplicates'' of
        None \<Rightarrow> Inr True
      | Some JNull \<Rightarrow> Inr True
      | Some (JBool b) \<Rightarrow> Inr b
      | Some other \<Rightarrow> Inl other)"

definition mergeable :: "json \<Rightarrow> bool" where
  "mergeable body = (case merge_duplicates body of Inl _ \<Rightarrow> True | Inr b \<Rightarrow> b)"

section \<open>What canonical JSON separates\<close>

text \<open>A value with the fields of its objects in order, at every depth.\<close>

fun sort_keys :: "json \<Rightarrow> json" where
  "sort_keys (JObj kvs) = JObj (sort_key fst (map (\<lambda>(k, v). (k, sort_keys v)) kvs))"
| "sort_keys (JArr items) = JArr (map sort_keys items)"
| "sort_keys scalar = scalar"

text \<open>
  The grammar of JSON: a string is delimited, so a text starts with at most one string; the text of any other leaf
  has no quote, bracket, brace, comma or colon. Different leaves have different texts.
\<close>

fun is_plain :: "json \<Rightarrow> bool" where
  "is_plain JNull = True"
| "is_plain (JBool _) = True"
| "is_plain (JNum _) = True"
| "is_plain _ = False"

definition leaves_ok :: "ext \<Rightarrow> bool" where
  "leaves_ok x \<longleftrightarrow>
     (\<forall>a b r s. leaf_text x (JStr a) @ r = leaf_text x (JStr b) @ s \<longrightarrow> a = b \<and> r = s)
     \<and> (\<forall>a. \<exists>r. leaf_text x (JStr a) = CHR 0x22 # r)
     \<and> (\<forall>u v. is_plain u \<and> is_plain v \<and> leaf_text x u = leaf_text x v \<longrightarrow> u = v)
     \<and> (\<forall>u. is_plain u \<longrightarrow> leaf_text x u \<noteq> [] \<and> set (leaf_text x u) \<inter> set (CHR 0x22 # ''[]{},:'') = {})"

lemma sort_key_map_snd: "sort_key fst (map (\<lambda>(k, v). (k, f v)) kvs) = map (\<lambda>(k, v). (k, f v)) (sort_key fst kvs)"
proof -
  have ins: "insort_key fst (k, f v) (map (\<lambda>(k, v). (k, f v)) kvs) = map (\<lambda>(k, v). (k, f v)) (insort_key fst (k, v) kvs)" for k v kvs
    by (induction kvs) auto
  show ?thesis
    by (induction kvs) (auto simp: ins)
qed

definition field_text :: "ext \<Rightarrow> string \<times> json \<Rightarrow> string" where
  "field_text x = (\<lambda>(k, v). leaf_text x (JStr k) @ '':'' @ write_canonical x v)"

lemma write_canonical_obj:
  "write_canonical x (JObj kvs) = ''{'' @ join '','' (map (field_text x) (sort_key fst kvs)) @ ''}''"
  unfolding write_canonical.simps sort_key_map_snd map_map field_text_def comp_def by (simp add: case_prod_unfold)

text \<open>What may follow a value.\<close>

definition delimited :: "string \<Rightarrow> bool" where
  "delimited r \<longleftrightarrow> r = [] \<or> hd r \<in> set '',]}''"

definition separated :: "ext \<Rightarrow> json \<Rightarrow> bool" where
  "separated x v \<longleftrightarrow> (\<forall>w r s. delimited r \<and> delimited s \<and> write_canonical x v @ r = write_canonical x w @ s \<longrightarrow>
     sort_keys v = sort_keys w \<and> r = s)"

lemma separatedD:
  "separated x v \<Longrightarrow> write_canonical x v @ r = write_canonical x w @ s \<Longrightarrow> delimited r \<Longrightarrow> delimited s \<Longrightarrow>
   sort_keys v = sort_keys w \<and> r = s"
  unfolding separated_def by blast

lemma leaves_okD:
  assumes "leaves_ok x"
  shows "leaf_text x (JStr a) @ r = leaf_text x (JStr b) @ s \<Longrightarrow> a = b \<and> r = s"
    and "\<exists>r. leaf_text x (JStr a) = CHR 0x22 # r"
    and "is_plain u \<Longrightarrow> is_plain v \<Longrightarrow> leaf_text x u = leaf_text x v \<Longrightarrow> u = v"
    and "is_plain u \<Longrightarrow> leaf_text x u \<noteq> []"
    and "is_plain u \<Longrightarrow> c \<in> set (leaf_text x u) \<Longrightarrow> c \<notin> set (CHR 0x22 # ''[]{},:'')"
  using assms unfolding leaves_ok_def by blast+

lemma plain_text [simp]: "is_plain u \<Longrightarrow> write_canonical x u = leaf_text x u" "is_plain u \<Longrightarrow> sort_keys u = u"
  by (cases u; simp)+

lemma json_kinds:
  obtains kvs where "v = JObj kvs" | items where "v = JArr items" | a where "v = JStr a" | "is_plain v"
  by (cases v) auto

lemma plain_prefix:
  assumes "leaves_ok x" "is_plain u" "is_plain v" "leaf_text x u @ r = leaf_text x v @ s" "delimited r" "delimited s"
  shows "u = v \<and> r = s"
proof -
  let ?p = "\<lambda>c. c \<notin> set (CHR 0x22 # ''[]{},:'')"
  have "takeWhile ?p (t @ q) = t" if "\<And>c. c \<in> set t \<Longrightarrow> ?p c" "delimited q" for t q
    using that by (subst takeWhile_append2) (auto simp: delimited_def takeWhile_eq_Nil_iff)
  then have "leaf_text x u = leaf_text x v"
    using assms leaves_okD(5) [OF assms(1)] by (metis (no_types, lifting))
  then show ?thesis
    using leaves_okD(3) [OF assms(1-3)] assms(4) by simp
qed

text \<open>Elements joined by commas and closed by a bracket, each of which is separated from what follows it.\<close>

lemma joined_separated:
  fixes t :: "'a \<Rightarrow> string" and f :: "'a \<Rightarrow> 'b"
  assumes "\<And>a b r s. a \<in> set as \<Longrightarrow> t a @ r = t b @ s \<Longrightarrow> delimited r \<Longrightarrow> delimited s \<Longrightarrow> f a = f b \<and> r = s"
    and close: "close \<in> set '']}''" and start: "\<And>a r. t a = r \<Longrightarrow> r \<noteq> [] \<and> hd r \<notin> set '',]}''"
    and eq: "join '','' (map t as) @ close # r = join '','' (map t bs) @ close # s"
  shows "map f as = map f bs \<and> r = s"
proof -
  let ?rest = "\<lambda>cs q. if cs = [] then close # q else CHR '','' # join '','' (map t cs) @ close # q"
  have joined: "join '','' (t c # map t cs) @ close # q = t c @ ?rest cs q" for c cs q
    by (cases cs) simp_all
  have delim: "delimited (?rest cs q)" for cs q
    using close by (auto simp: delimited_def)
  have filled: "close # q \<noteq> t c @ q'" for q c q'
    using start [OF refl, of c] close by (cases "t c") auto
  show ?thesis
    using assms(1) eq
  proof (induction as arbitrary: bs)
    case Nil
    then show ?case
      using filled by (cases bs) (simp_all add: joined)
  next
    case (Cons a as)
    obtain b bs' where bs: "bs = b # bs'"
      using Cons.prems(2) filled [symmetric] by (cases bs) (simp_all add: joined)
    have both: "f a = f b \<and> ?rest as r = ?rest bs' s"
      using Cons.prems(2) unfolding bs list.map joined by (intro Cons.prems(1) delim) auto
    then have "as = [] \<longleftrightarrow> bs' = []"
      using close by (auto split: if_splits)
    moreover have "map f as = map f bs' \<and> r = s" if "as \<noteq> []" "bs' \<noteq> []"
    proof (rule Cons.IH)
      show "join '','' (map t as) @ close # r = join '','' (map t bs') @ close # s"
        using both that by simp
    qed (rule Cons.prems(1), simp_all)
    ultimately show ?case
      using both by (cases "as = []") (simp_all add: bs)
  qed
qed

lemma canonical_start:
  assumes "leaves_ok x"
  shows "write_canonical x v \<noteq> [] \<and> hd (write_canonical x v) \<notin> set '',]}''"
proof (cases v rule: json_kinds)
  case (3 a)
  then show ?thesis
    using leaves_okD(2) [OF assms, of a] by auto
next
  case 4
  then show ?thesis
    using leaves_okD(4,5) [OF assms 4] by (cases "leaf_text x v") auto
qed simp_all

text \<open>The first character says what kind of value follows.\<close>

lemma kind_start:
  assumes "leaves_ok x"
  shows "hd (write_canonical x v) = CHR ''{'' \<longleftrightarrow> (\<exists>kvs. v = JObj kvs)"
    and "hd (write_canonical x v) = CHR ''['' \<longleftrightarrow> (\<exists>items. v = JArr items)"
    and "hd (write_canonical x v) = CHR 0x22 \<longleftrightarrow> (\<exists>a. v = JStr a)"
proof -
  have str: "hd (leaf_text x (JStr a)) = CHR 0x22" for a
    using leaves_okD(2) [OF assms, of a] by auto
  have plain: "hd (leaf_text x v) \<notin> set (CHR 0x22 # ''[]{},:'')" if "is_plain v"
    using leaves_okD(5) [OF assms that] hd_in_set [OF leaves_okD(4) [OF assms that]] by blast
  show "hd (write_canonical x v) = CHR ''{'' \<longleftrightarrow> (\<exists>kvs. v = JObj kvs)"
    using str plain by (cases v rule: json_kinds) auto
  show "hd (write_canonical x v) = CHR ''['' \<longleftrightarrow> (\<exists>items. v = JArr items)"
    using str plain by (cases v rule: json_kinds) auto
  show "hd (write_canonical x v) = CHR 0x22 \<longleftrightarrow> (\<exists>a. v = JStr a)"
    using str plain by (cases v rule: json_kinds) auto
qed

lemma same_kind:
  assumes ok: "leaves_ok x" and eq: "write_canonical x v @ r = write_canonical x w @ s"
  shows "(\<exists>k. v = JObj k) \<longleftrightarrow> (\<exists>k. w = JObj k)" "(\<exists>i. v = JArr i) \<longleftrightarrow> (\<exists>i. w = JArr i)"
    "(\<exists>a. v = JStr a) \<longleftrightarrow> (\<exists>a. w = JStr a)"
proof -
  have "hd (write_canonical x v) = hd (write_canonical x w)"
    using eq canonical_start [OF ok] by (metis hd_append2)
  then show "(\<exists>k. v = JObj k) \<longleftrightarrow> (\<exists>k. w = JObj k)" "(\<exists>i. v = JArr i) \<longleftrightarrow> (\<exists>i. w = JArr i)"
    "(\<exists>a. v = JStr a) \<longleftrightarrow> (\<exists>a. w = JStr a)"
    unfolding kind_start [OF ok, symmetric] by (rule arg_cong)+
qed

lemma separated_obj:
  assumes ok: "leaves_ok x" and fields: "\<And>k v. (k, v) \<in> set kvs \<Longrightarrow> separated x v"
  shows "separated x (JObj kvs)"
  unfolding separated_def
proof (intro allI impI, elim conjE)
  fix w r s
  assume eq: "write_canonical x (JObj kvs) @ r = write_canonical x w @ s"
  then obtain kvs' where w: "w = JObj kvs'"
    using same_kind(1) [OF ok eq] by blast
  let ?f = "\<lambda>(k, v). (k, sort_keys v)"
  have "map ?f (sort_key fst kvs) = map ?f (sort_key fst kvs') \<and> r = s"
  proof (rule joined_separated)
    fix a b :: "string \<times> json" and p q
    assume a: "a \<in> set (sort_key fst kvs)" and t: "field_text x a @ p = field_text x b @ q" and d: "delimited p" "delimited q"
    have key: "fst a = fst b" "write_canonical x (snd a) @ p = write_canonical x (snd b) @ q"
      using leaves_okD(1) [OF ok, of "fst a" "CHR '':'' # write_canonical x (snd a) @ p" "fst b" "CHR '':'' # write_canonical x (snd b) @ q"] t
      by (simp_all add: field_text_def case_prod_unfold)
    have "separated x (snd a)"
      using fields [of "fst a" "snd a"] a by simp
    from separatedD [OF this key(2) d] key(1) show "?f a = ?f b \<and> p = q"
      by (simp add: case_prod_unfold)
  next
    show "CHR ''}'' \<in> set '']}''"
      by simp
    show "join '','' (map (field_text x) (sort_key fst kvs)) @ CHR ''}'' # r = join '','' (map (field_text x) (sort_key fst kvs')) @ CHR ''}'' # s"
      using eq unfolding w write_canonical_obj by simp
    show "q \<noteq> [] \<and> hd q \<notin> set '',]}''" if "field_text x a = q" for a q
      using that leaves_okD(2) [OF ok, of "fst a"] by (auto simp: field_text_def case_prod_unfold)
  qed
  then show "sort_keys (JObj kvs) = sort_keys w \<and> r = s"
    by (simp add: w sort_key_map_snd)
qed

lemma separated_plain:
  assumes ok: "leaves_ok x" and v: "is_plain v"
  shows "separated x v"
  unfolding separated_def
proof (intro allI impI, elim conjE)
  fix w r s
  assume eq: "write_canonical x v @ r = write_canonical x w @ s" and d: "delimited r" "delimited s"
  have "is_plain w"
    using same_kind [OF ok eq] v by (cases w rule: json_kinds) auto
  then show "sort_keys v = sort_keys w \<and> r = s"
    using plain_prefix [OF ok v _ _ d, of w] eq v by simp
qed

lemma separated_str:
  assumes ok: "leaves_ok x"
  shows "separated x (JStr a)"
  unfolding separated_def
proof (intro allI impI, elim conjE)
  fix w r s
  assume eq: "write_canonical x (JStr a) @ r = write_canonical x w @ s"
  then obtain b where "w = JStr b"
    using same_kind(3) [OF ok eq] by blast
  then show "sort_keys (JStr a) = sort_keys w \<and> r = s"
    using leaves_okD(1) [OF ok, of a r b s] eq by simp
qed

lemma canonical_separated:
  assumes ok: "leaves_ok x"
  shows "separated x v"
proof (induction v rule: sort_keys.induct)
  case (1 kvs)
  show ?case
    by (rule separated_obj [OF ok]) (use 1 in auto)
next
  case (2 items)
  show ?case
    unfolding separated_def
  proof (intro allI impI, elim conjE)
    fix w r s
    assume eq: "write_canonical x (JArr items) @ r = write_canonical x w @ s"
    then obtain items' where w: "w = JArr items'"
      using same_kind(2) [OF ok eq] by blast
    have "map sort_keys items = map sort_keys items' \<and> r = s"
    proof (rule joined_separated)
      show "join '','' (map (write_canonical x) items) @ CHR '']'' # r = join '','' (map (write_canonical x) items') @ CHR '']'' # s"
        using eq by (simp add: w)
      show "sort_keys a = sort_keys b \<and> p = q"
        if "a \<in> set items" "write_canonical x a @ p = write_canonical x b @ q" "delimited p" "delimited q" for a b p q
        by (rule separatedD [OF 2 that(2-4)]) (rule that(1))
      show "q \<noteq> [] \<and> hd q \<notin> set '',]}''" if "write_canonical x a = q" for a q
        using canonical_start [OF ok, of a] that by simp
    qed simp
    then show "sort_keys (JArr items) = sort_keys w \<and> r = s"
      by (simp add: w)
  qed
qed (rule separated_str [OF ok] | rule separated_plain [OF ok], simp)+

lemma sort_key_idem: "sort_key f (sort_key f xs) = sort_key f xs"
  by (rule sort_key_id_if_sorted) simp

lemma write_canonical_sorted: "write_canonical x (sort_keys v) = write_canonical x v"
proof (induction v rule: sort_keys.induct)
  case (1 kvs)
  have "map (field_text x) (map (\<lambda>(k, v). (k, sort_keys v)) (sort_key fst kvs)) = map (field_text x) (sort_key fst kvs)"
    using 1 by (auto simp: field_text_def)
  then show ?case
    by (simp only: sort_keys.simps write_canonical_obj sort_key_idem sort_key_map_snd)
next
  case (2 items)
  then have "map (write_canonical x) (map sort_keys items) = map (write_canonical x) items"
    by simp
  then show ?case
    by (simp only: sort_keys.simps write_canonical.simps)
qed simp_all

text \<open>
  C37: Canonical JSON is exact. Two values have the same canonical text if and only if they differ in nothing
  but the order of the fields of their objects, at any depth; so a hash of the text identifies the content.
\<close>

theorem canonical_json_exact:
  assumes "leaves_ok x"
  shows "canonical_json x v = canonical_json x w \<longleftrightarrow> sort_keys v = sort_keys w"
proof
  assume "canonical_json x v = canonical_json x w"
  then have "write_canonical x v @ [] = write_canonical x w @ []"
    by (simp add: canonical_json_def)
  from separatedD [OF canonical_separated [OF assms] this] show "sort_keys v = sort_keys w"
    by (simp add: delimited_def)
next
  assume "sort_keys v = sort_keys w"
  then show "canonical_json x v = canonical_json x w"
    unfolding canonical_json_def by (metis write_canonical_sorted)
qed

text \<open>A concrete text of the leaves: strings in quotes with escapes, numbers in unary.\<close>

definition escape :: "char \<Rightarrow> string" where
  "escape c = (if c = CHR 0x22 \<or> c = CHR 0x5C then [CHR 0x5C, c] else [c])"

definition unary :: "nat \<Rightarrow> string" where
  "unary n = replicate n CHR ''1''"

fun sample_leaf :: "json \<Rightarrow> string" where
  "sample_leaf (JStr s) = CHR 0x22 # concat (map escape s) @ [CHR 0x22]"
| "sample_leaf (JBool b) = (if b then ''true'' else ''false'')"
| "sample_leaf (JNum (PosInt n)) = CHR ''p'' # unary n"
| "sample_leaf (JNum (NegInt i)) = CHR ''-'' # unary (nat i) @ ''.'' @ unary (nat (- i))"
| "sample_leaf (JNum (Float s)) = CHR ''e'' # concat (map (\<lambda>c. unary (of_char c) @ ''.'') s)"
| "sample_leaf _ = ''null''"

definition text_ext :: ext where
  "text_ext = sample_ext\<lparr>leaf_text := sample_leaf\<rparr>"

lemma escaped_delimited:
  "concat (map escape a) @ CHR 0x22 # r = concat (map escape b) @ CHR 0x22 # s \<Longrightarrow> a = b \<and> r = s"
proof (induction a arbitrary: b)
  case Nil
  then show ?case
    by (cases b) (auto simp: escape_def split: if_splits)
next
  case (Cons c a)
  then obtain d b' where b: "b = d # b'"
    by (cases b) (auto simp: escape_def split: if_splits)
  then have "c = d" "concat (map escape a) @ CHR 0x22 # r = concat (map escape b') @ CHR 0x22 # s"
    using Cons.prems by (auto simp: escape_def [of c] escape_def [of d] split: if_splits)
  with Cons.IH [OF this(2)] show ?case
    by (simp add: b)
qed

lemma unary_dot: "unary m @ CHR ''.'' # r = unary n @ CHR ''.'' # s \<Longrightarrow> m = n \<and> r = s"
proof (induction m arbitrary: n)
  case 0
  then show ?case
    by (cases n) (simp_all add: unary_def)
next
  case (Suc m)
  then show ?case
    by (cases n) (simp_all add: unary_def)
qed

lemma coded_inj: "concat (map (\<lambda>c. unary (of_char c) @ ''.'') a) = concat (map (\<lambda>c. unary (of_char c) @ ''.'') b) \<Longrightarrow> a = b"
proof (induction a arbitrary: b)
  case Nil
  then show ?case
    by (cases b) simp_all
next
  case (Cons c a)
  then obtain d b' where b: "b = d # b'"
    by (cases b) simp_all
  let ?code = "\<lambda>a. concat (map (\<lambda>c. unary (of_char c) @ ''.'') a)"
  have "unary (of_char c) @ CHR ''.'' # ?code a = unary (of_char d) @ CHR ''.'' # ?code b'"
    using Cons.prems by (simp add: b)
  from unary_dot [OF this] Cons.IH [of b'] show ?case
    by (simp add: b)
qed

lemma sample_plain_inj: "is_plain u \<Longrightarrow> is_plain v \<Longrightarrow> sample_leaf u = sample_leaf v \<Longrightarrow> u = v"
proof -
  have int: "i = j" if "unary (nat i) @ CHR ''.'' # unary (nat (- i)) = unary (nat j) @ CHR ''.'' # unary (nat (- j))" for i j :: int
    using unary_dot [OF that] by (auto simp: unary_def nat_eq_iff split: if_splits)
  have nat: "m = n" if "unary m = unary n" for m n
    using that by (metis unary_def length_replicate)
  assume "is_plain u" "is_plain v" "sample_leaf u = sample_leaf v"
  then show ?thesis
    by (cases u rule: sample_leaf.cases; cases v rule: sample_leaf.cases)
      (auto split: if_splits dest: int nat coded_inj)
qed

lemma text_ext_ok: "leaves_ok text_ext"
  unfolding leaves_ok_def
proof (intro conjI allI impI)
  have leaf: "leaf_text text_ext = sample_leaf"
    by (simp add: text_ext_def)
  show "a = b" "r = s" if "leaf_text text_ext (JStr a) @ r = leaf_text text_ext (JStr b) @ s" for a b r s
    using escaped_delimited [of a r b s] that by (simp_all add: leaf)
  show "\<exists>r. leaf_text text_ext (JStr a) = CHR 0x22 # r" for a
    by (simp add: leaf)
  show "u = v" if "is_plain u \<and> is_plain v \<and> leaf_text text_ext u = leaf_text text_ext v" for u v
    using that sample_plain_inj by (simp add: leaf)
  show "leaf_text text_ext u \<noteq> []" if "is_plain u" for u
    using that by (cases u rule: sample_leaf.cases) (simp_all add: leaf)
  show "set (leaf_text text_ext u) \<inter> set (CHR 0x22 # ''[]{},:'') = {}" if "is_plain u" for u
    using that by (cases u rule: sample_leaf.cases) (auto simp: leaf unary_def)
qed

theorem canonical_json_exact_witness:
  "canonical_json text_ext (JObj [(''b'', JArr [JNum (PosInt 1)]), (''a'', JStr ''x'')])
     = canonical_json text_ext (JObj [(''a'', JStr ''x''), (''b'', JArr [JNum (PosInt 1)])])
   \<and> canonical_json text_ext (JObj [(''a'', JStr ''x'')]) \<noteq> canonical_json text_ext (JObj [(''a'', JArr [JStr ''x''])])"
  unfolding canonical_json_exact [OF text_ext_ok] by simp

section \<open>One digest, the same clients\<close>

lemma map_of_insort:
  fixes kvs :: "('k :: linorder \<times> 'v) list"
  shows "map_of (insort_key fst (a, v) kvs) k = (if k = a then Some v else map_of kvs k)"
  by (induction kvs) auto

lemma map_of_sort_key:
  fixes kvs :: "('k :: linorder \<times> 'v) list"
  shows "map_of (sort_key fst kvs) k = map_of kvs k"
  by (induction kvs) (auto simp: map_of_insort)

text \<open>The clauses of a well-formed body are its lists of flags.\<close>

lemma map_filter_all: "collect_opt f vs = Some as \<Longrightarrow> List.map_filter f vs = as"
  by (induction vs arbitrary: as) (auto simp: List.map_filter_simps split: option.splits)

lemma flag_set_Some: "flag_set vs = Some fs \<Longrightarrow> set (List.map_filter as_str vs) = fs"
  by (auto simp: flag_set_def dest: map_filter_all)

lemma flag_groups_Some:
  "flag_groups body field = Some gs \<Longrightarrow> map set (flag_group_lists body field) = gs"
proof -
  have "map set (map (List.map_filter as_str) (List.map_filter as_array vs)) = gs"
    if "collect_opt (\<lambda>group. Option.bind (as_array group) flag_set) vs = Some gs" for vs gs
    using that
  proof (induction vs arbitrary: gs)
    case (Cons v vs)
    then obtain items g gs' where "v = JArr items" "flag_set items = Some g" "gs = g # gs'"
        "collect_opt (\<lambda>group. Option.bind (as_array group) flag_set) vs = Some gs'"
      by (auto simp: bind_eq_Some_conv split: option.splits)
    with Cons.IH [OF this(4)] flag_set_Some show ?case
      by (simp add: List.map_filter_simps)
  qed (simp add: List.map_filter_simps)
  then show "flag_groups body field = Some gs \<Longrightarrow> map set (flag_group_lists body field) = gs"
    by (auto simp: flag_groups_def flag_group_lists_def bind_eq_Some_conv List.map_filter_simps split: option.splits)
qed

lemma clauses_as_lists:
  assumes "clauses_parse body = Some cl"
  shows "requires cl = set (flat_flags body ''requires'')" "excludes cl = set (flat_flags body ''excludes'')"
    "exclude_clients cl = set (flat_flags body ''exclude_clients'')"
    "any_of cl = map set (flag_group_lists body ''any_of'')" "not_all_of cl = map set (flag_group_lists body ''not_all_of'')"
  using assms
  by (auto simp: clauses_parse_def job_requires_def job_excludes_def job_exclude_clients_def job_any_of_def job_not_all_of_def
      flat_flags_def bind_eq_Some_conv List.map_filter_simps dest!: flag_set_Some flag_groups_Some split: option.splits)

lemma listed_as_list: "client_listed body c \<longleftrightarrow> c \<in> set (flat_flags body ''clients'')"
proof -
  have "list_ex (\<lambda>v. as_str v = Some c) vs \<longleftrightarrow> c \<in> set (List.map_filter as_str vs)" for vs
    by (auto simp: list_ex_iff set_map_filter)
  then show ?thesis
    by (auto simp: client_listed_def flat_flags_def List.map_filter_simps split: option.split)
qed

text \<open>The matcher reads the clauses as sets.\<close>

lemma same_clauses_match:
  assumes "\<not> capability_clauses_malformed b" "\<not> capability_clauses_malformed b'"
    and flags: "\<And>f. f \<in> set FLAG_CLAUSES \<Longrightarrow> set (flat_flags b f) = set (flat_flags b' f)"
    and groups: "\<And>f. f \<in> set GROUP_CLAUSES \<Longrightarrow> set (map set (flag_group_lists b f)) = set (map set (flag_group_lists b' f))"
  shows "job_matches_client x b c tags \<longleftrightarrow> job_matches_client x b' c tags"
proof -
  obtain cl cl' where cl: "clauses_parse b = Some cl" "clauses_parse b' = Some cl'"
    using assms(1,2) by (auto simp: capability_clauses_malformed_def)
  have eq: "requires cl = requires cl'" "excludes cl = excludes cl'" "exclude_clients cl = exclude_clients cl'"
      "set (any_of cl) = set (any_of cl')" "set (not_all_of cl) = set (not_all_of cl')"
    using flags groups unfolding clauses_as_lists [OF cl(1)] clauses_as_lists [OF cl(2)] FLAG_CLAUSES_def GROUP_CLAUSES_def by simp_all
  have "client_listed b i = client_listed b' i" for i
    using flags [of "''clients''"] by (simp add: listed_as_list FLAG_CLAUSES_def)
  then show ?thesis
    using eq by (simp add: job_matches_client_def cl admit_def excludes_client_def capabilities_satisfy_def list_all_iff list_ex_iff)
qed

lemma map_of_keyed_fold:
  "map_of (fold (\<lambda>f. obj_insert f (g f)) fs kvs) k = (if k \<in> set fs then Some (g k) else map_of kvs k)"
  by (induction fs arbitrary: kvs) auto

lemma map_of_without: "map_of (without_fields fs kvs) k = (if k \<in> set fs then None else map_of kvs k)"
  by (induction kvs) (auto simp: without_fields_def)

lemma get_dropped: "k \<noteq> CUSTOM_LABEL \<Longrightarrow> get (drop_vault_custom_labels v) k = map_option drop_vault_custom_labels (get v k)"
proof (cases v)
  case (JObj kvs)
  assume "k \<noteq> CUSTOM_LABEL"
  then have "map_of (filter (\<lambda>(k, _). \<not> (P \<and> k = CUSTOM_LABEL)) (map (\<lambda>(k, v). (k, f v)) kvs)) k = map_option f (map_of kvs k)" for P f
    by (induction kvs) auto
  then show ?thesis
    by (simp add: JObj)
qed simp_all

lemma get_sorted: "get (sort_keys v) k = map_option sort_keys (get v k)"
proof (cases v)
  case (JObj kvs)
  have "map_of (map (\<lambda>(k, v). (k, f v)) kvs) k = map_option f (map_of kvs k)" for f
    by (induction kvs) auto
  then show ?thesis
    by (simp add: JObj map_of_sort_key)
qed simp_all

lemma clause_sets_fixed [simp]:
  "sort_keys (drop_vault_custom_labels (key_flag_set b f)) = key_flag_set b f"
  "sort_keys (drop_vault_custom_labels (key_group_sets b f)) = key_group_sets b f"
  by (simp_all add: key_flag_set_def key_group_sets_def comp_def)

lemma clause_names: "set FLAG_CLAUSES \<inter> set GROUP_CLAUSES = {}" "CUSTOM_LABEL \<notin> set (FLAG_CLAUSES @ GROUP_CLAUSES)"
  by (auto simp: FLAG_CLAUSES_def GROUP_CLAUSES_def CUSTOM_LABEL_def)

lemma get_keyed:
  "f \<in> set FLAG_CLAUSES \<Longrightarrow> get (sort_keys (keyed_content (JObj kvs))) f = Some (key_flag_set (JObj kvs) f)"
  "f \<in> set GROUP_CLAUSES \<Longrightarrow> get (sort_keys (keyed_content (JObj kvs))) f = Some (key_group_sets (JObj kvs) f)"
  "f \<notin> set (CUSTOM_LABEL # UNKEYED @ FLAG_CLAUSES @ GROUP_CLAUSES) \<Longrightarrow>
   get (sort_keys (keyed_content (JObj kvs))) f = map_option (\<lambda>v. sort_keys (drop_vault_custom_labels v)) (map_of kvs f)"
proof -
  show "f \<in> set FLAG_CLAUSES \<Longrightarrow> get (sort_keys (keyed_content (JObj kvs))) f = Some (key_flag_set (JObj kvs) f)"
    using clause_names by (subst get_sorted, subst keyed_content_def, subst get_dropped) (auto simp: map_of_keyed_fold)
  show "f \<in> set GROUP_CLAUSES \<Longrightarrow> get (sort_keys (keyed_content (JObj kvs))) f = Some (key_group_sets (JObj kvs) f)"
    using clause_names by (subst get_sorted, subst keyed_content_def, subst get_dropped) (auto simp: map_of_keyed_fold)
  assume "f \<notin> set (CUSTOM_LABEL # UNKEYED @ FLAG_CLAUSES @ GROUP_CLAUSES)"
  then show "get (sort_keys (keyed_content (JObj kvs))) f = map_option (\<lambda>v. sort_keys (drop_vault_custom_labels v)) (map_of kvs f)"
    by (subst get_sorted, subst keyed_content_def, subst get_dropped)
      (auto simp: map_of_keyed_fold map_of_without option.map_comp comp_def)
qed

lemma keyed_same:
  assumes "leaves_ok x" "inj_on sha256_hex {content_preimage x b, content_preimage x b'}"
    and "content_digest x sha256_hex b = content_digest x sha256_hex b'"
  shows "sort_keys (keyed_content b) = sort_keys (keyed_content b')"
proof -
  have "content_preimage x b = content_preimage x b'"
    by (rule inj_onD [OF assms(2)]) (use assms(3) in \<open>simp_all add: content_digest_def\<close>)
  then have "write_canonical x (JObj [(''v'', JStr VERSION), (''body'', keyed_content b)]) @ []
      = write_canonical x (JObj [(''v'', JStr VERSION), (''body'', keyed_content b')]) @ []"
    unfolding content_preimage_def canonical_json_def by simp
  from separatedD [OF canonical_separated [OF assms(1)] this]
  have "sort_keys (JObj [(''v'', JStr VERSION), (''body'', keyed_content b)])
      = sort_keys (JObj [(''v'', JStr VERSION), (''body'', keyed_content b')])"
    by (simp add: delimited_def)
  then have "get (sort_keys (JObj [(''v'', JStr VERSION), (''body'', keyed_content b)])) ''body''
      = get (sort_keys (JObj [(''v'', JStr VERSION), (''body'', keyed_content b')])) ''body''"
    by (rule arg_cong)
  then show ?thesis
    unfolding get_sorted by simp
qed

lemma sort_keys_object: "is_object (sort_keys v) \<longleftrightarrow> is_object v"
  by (cases v) simp_all

lemma keyed_object: "is_object (keyed_content b) \<longleftrightarrow> is_object b"
  by (cases b) (simp_all add: keyed_content_def)

lemma key_sets_inj:
  "key_flag_set b f = key_flag_set b' f \<Longrightarrow> set (flat_flags b f) = set (flat_flags b' f)"
  "key_group_sets b f = key_group_sets b' f \<Longrightarrow> set (map set (flag_group_lists b f)) = set (map set (flag_group_lists b' f))"
proof -
  have inj: "inj JStr" "inj (\<lambda>g. JArr (map JStr g))"
    by (auto simp: inj_def intro: map_injective [OF _ inj_onI])
  show "key_flag_set b f = key_flag_set b' f \<Longrightarrow> set (flat_flags b f) = set (flat_flags b' f)"
    unfolding key_flag_set_def json.inject inj_map_eq_map [OF inj(1)] by (metis set_remdups set_sort)
  have sets: "set ` set (flag_sets gs) = set ` set gs" for gs
    by (simp add: flag_sets_def image_image)
  show "key_group_sets b f = key_group_sets b' f \<Longrightarrow> set (map set (flag_group_lists b f)) = set (map set (flag_group_lists b' f))"
    unfolding key_group_sets_def json.inject inj_map_eq_map [OF inj(2)] set_map by (metis sets)
qed

text \<open>
  C28: A merge never widens who may run a job. Two well-formed bodies with one content digest, on whose texts the hash does not
  collide, are open to the same clients of every fleet, and describe the same cell up to the order of fields and the
  labels of vault sources.
\<close>

theorem digest_same_clients:
  assumes "leaves_ok x" "inj_on sha256_hex {content_preimage x b, content_preimage x b'}"
    and "content_digest x sha256_hex b = content_digest x sha256_hex b'"
    and "\<not> capability_clauses_malformed b" "\<not> capability_clauses_malformed b'"
  shows "job_matches_client y b c tags = job_matches_client y b' c tags
    \<and> map_option (\<lambda>v. sort_keys (drop_vault_custom_labels v)) (get b ''spec'')
      = map_option (\<lambda>v. sort_keys (drop_vault_custom_labels v)) (get b' ''spec'')"
proof (cases "is_object b")
  case True
  note same = keyed_same [OF assms(1-3)]
  with True have "is_object b'"
    by (metis sort_keys_object keyed_object)
  with True obtain kvs kvs' where b: "b = JObj kvs" "b' = JObj kvs'"
    by (metis is_object.elims(2))
  show ?thesis
  proof
    show "job_matches_client y b c tags = job_matches_client y b' c tags"
    proof (rule same_clauses_match [OF assms(4,5)])
      show "set (flat_flags b f) = set (flat_flags b' f)" if "f \<in> set FLAG_CLAUSES" for f
        by (rule key_sets_inj) (use get_keyed(1) [OF that] same in \<open>metis b option.inject\<close>)
      show "set (map set (flag_group_lists b f)) = set (map set (flag_group_lists b' f))" if "f \<in> set GROUP_CLAUSES" for f
        by (rule key_sets_inj) (use get_keyed(2) [OF that] same in \<open>metis b option.inject\<close>)
    qed
    have "''spec'' \<notin> set (CUSTOM_LABEL # UNKEYED @ FLAG_CLAUSES @ GROUP_CLAUSES)"
      by (simp add: CUSTOM_LABEL_def UNKEYED_def FLAG_CLAUSES_def GROUP_CLAUSES_def)
    from get_keyed(3) [OF this] same show "map_option (\<lambda>v. sort_keys (drop_vault_custom_labels v)) (get b ''spec'')
      = map_option (\<lambda>v. sort_keys (drop_vault_custom_labels v)) (get b' ''spec'')"
      by (metis b get.simps(1))
  qed
next
  case False
  with keyed_same [OF assms(1-3)] have "\<not> is_object b'"
    by (metis sort_keys_object keyed_object)
  with False have none: "get b k = None" "get b' k = None" for k
    by (cases b; cases b'; simp)+
  then show ?thesis
    by (simp add: job_matches_client_def clauses_parse_def job_requires_def job_excludes_def job_exclude_clients_def job_any_of_def
        job_not_all_of_def flag_groups_def admit_def client_listed_def capabilities_satisfy_def)
qed

text \<open>Two spellings of one cell: the order of fields and flags, the deadline and a label differ.\<close>

definition one_spelling :: json where
  "one_spelling = JObj [(''spec'', JObj [(''source'', JStr ''vault_file''), (''custom_label'', JStr ''mine'')]),
     (''requires'', JArr [JStr ''b'', JStr ''a'']), (''expires_at'', JStr ''never'')]"

definition other_spelling :: json where
  "other_spelling = JObj [(''requires'', JArr [JStr ''a'', JStr ''b'', JStr ''a'']), (''excludes'', JArr []),
     (''spec'', JObj [(''source'', JStr ''vault_file'')])]"

theorem digest_same_clients_witness:
  "content_digest text_ext id one_spelling = content_digest text_ext id other_spelling
   \<and> job_matches_client text_ext one_spelling (sample_client ''x'' {''a'', ''b''}) (\<lambda>_. None)
     = job_matches_client text_ext other_spelling (sample_client ''x'' {''a'', ''b''}) (\<lambda>_. None)"
proof
  show same: "content_digest text_ext id one_spelling = content_digest text_ext id other_spelling"
    by code_simp
  have "inj_on id {content_preimage text_ext one_spelling, content_preimage text_ext other_spelling}"
    by simp
  moreover have "\<not> capability_clauses_malformed one_spelling" "\<not> capability_clauses_malformed other_spelling"
    by code_simp+
  ultimately show "job_matches_client text_ext one_spelling (sample_client ''x'' {''a'', ''b''}) (\<lambda>_. None)
     = job_matches_client text_ext other_spelling (sample_client ''x'' {''a'', ''b''}) (\<lambda>_. None)"
    using digest_same_clients [OF text_ext_ok _ same] by blast
qed

end
