(* ===== verification/Plan_Reconcile.thy ===== *)
theory Plan_Reconcile
  imports Plan_Teardown Plan_Store Maintenance_Gc Content_Key
begin

text \<open>
  The life of a plan after it is filed: the lapse, reconciliation and garbage collection passes of
  \<open>pipette-pipeline/src/plan_maintenance.rs\<close>. Each run decides the status of every plan from what is
  live, counts its jobs, writes the manifest and collects the cancel marker once nothing can undo the cancellation.

  A plan that fails is skipped and the rest go on with whatever it had read: the passes thread their
  caches as a state that survives an error, \<open>'a rec\<close>. Timing and logging are left out.
\<close>

section \<open>Deciding a status\<close>

definition ingest_may_overwrite :: "plan_record \<Rightarrow> time \<Rightarrow> time \<Rightarrow> bool" where
  "ingest_may_overwrite m now creating_max_age \<longleftrightarrow>
     pm_status m \<in> {Creating, Cancelling, Cancelled} \<and>
     \<not> (0 \<le> now - pm_created_at m \<and> creating_max_age \<le> now - pm_created_at m)"

definition decide_status :: "bool \<Rightarrow> bool \<Rightarrow> bool \<Rightarrow> bool \<Rightarrow> time \<Rightarrow> plan_status \<times> time option" where
  "decide_status ending outstanding_empty retired_this_pass any_matched now =
     (if ending \<and> outstanding_empty \<and> \<not> retired_this_pass then (Cancelled, Some now)
      else if ending then (Cancelling, None)
      else if outstanding_empty then (Complete, Some now)
      else if any_matched then (Active, None)
      else (PendingClients, None))"

record plan_ending =
  e_requested :: bool
  e_stranded :: bool
  e_retired_this_pass :: bool
  e_released_this_pass :: "job_id set"

definition for_plan :: "'a teardown_outcome_scheme \<Rightarrow> plan_id \<Rightarrow> bool \<Rightarrow> plan_ending" where
  "for_plan endings p requested =
     \<lparr>e_requested = requested, e_stranded = p \<in> to_stranded endings, e_retired_this_pass = p \<in> td_perturbed endings,
      e_released_this_pass = snd ` Set.filter (\<lambda>(q, _). q = p) (td_released endings)\<rparr>"

definition is_ending :: "plan_record \<Rightarrow> plan_ending \<Rightarrow> bool" where
  "is_ending m ending \<longleftrightarrow> e_requested ending \<or> e_stranded ending \<or> pm_status m = Cancelling"

definition outstanding_jobs :: "plan_record \<Rightarrow> plan_ending \<Rightarrow> membership \<Rightarrow> job_id set \<Rightarrow> job_id list" where
  "outstanding_jobs m ending membership live_ids =
     filter (\<lambda>j. j \<in> live_ids \<and> map_of (pm_expired_jobs m) j = None
         \<and> (\<not> is_ending m ending \<or> j \<notin> e_released_this_pass ending)
         \<and> (\<not> is_ending m ending \<or> \<not> released_by membership j (pm_plan_id m)))
       (pm_job_ids m)"

section \<open>State that survives an error\<close>

record reconcile_state =
  rs_bodies :: bodies
  rs_settled :: "job_id \<Rightarrow> settled_outcome option"
  rs_failures :: nat
  rs_probes :: nat
  rs_reconciled :: nat

type_synonym 'a rec = "reconcile_state \<Rightarrow> ((err, 'a) result \<times> reconcile_state) io"

definition rec_ret :: "'a \<Rightarrow> 'a rec" where
  "rec_ret a st = io_ret (Inr a, st)"

definition rec_bind :: "'a rec \<Rightarrow> ('a \<Rightarrow> 'b rec) \<Rightarrow> 'b rec" where
  "rec_bind m k st = io_bind (m st) (\<lambda>(r, st'). case r of Inl e \<Rightarrow> io_ret (Inl e, st') | Inr a \<Rightarrow> k a st')"

definition rec_io :: "'a io \<Rightarrow> 'a rec" where
  "rec_io m st = io_bind (attempt m) (\<lambda>r. io_ret (r, st))"

definition rec_get :: "(reconcile_state \<Rightarrow> 'a) \<Rightarrow> 'a rec" where
  "rec_get f st = io_ret (Inr (f st), st)"

definition rec_update :: "(reconcile_state \<Rightarrow> reconcile_state) \<Rightarrow> unit rec" where
  "rec_update f st = io_ret (Inr (), f st)"

fun rec_fold :: "('a \<Rightarrow> 'b \<Rightarrow> 'b rec) \<Rightarrow> 'a list \<Rightarrow> 'b \<Rightarrow> 'b rec" where
  "rec_fold f [] b = rec_ret b"
| "rec_fold f (a # as) b = rec_bind (f a b) (rec_fold f as)"

definition rec_body :: "ext \<Rightarrow> avail_key \<Rightarrow> json option rec" where
  "rec_body x a st =
     io_bind (attempt (cached_body x a (rs_bodies st))) (\<lambda>r.
       io_ret (case r of
           Inl e \<Rightarrow> (Inl e, st)
         | Inr (body, bodies) \<Rightarrow> (Inr body, st\<lparr>rs_bodies := bodies\<rparr>)))"

section \<open>Starvation\<close>

text \<open>The outstanding jobs no worker matches, and whether any other is left.\<close>

definition find_starved ::
  "ext \<Rightarrow> client list \<Rightarrow> fleet_tags \<Rightarrow> (job_id \<Rightarrow> avail_key option) \<Rightarrow> job_id list \<Rightarrow> (job_id list \<times> bool) rec" where
  "find_starved x crew tags avail_by_job outstanding =
     rec_fold (\<lambda>j (starved, any_matched).
         case avail_by_job j of
           None \<Rightarrow> rec_ret (starved, True)
         | Some a \<Rightarrow>
             rec_bind (rec_body x a) (\<lambda>body.
               rec_ret (case body of
                   None \<Rightarrow> (starved, True)
                 | Some b \<Rightarrow>
                     if list_ex (\<lambda>c. job_matches_client x b c tags) crew then (starved, True)
                     else (starved @ [j], any_matched))))
       outstanding ([], False)"

text \<open>The clauses of a body as sets, each in the order of its elements.\<close>

definition requirement_key :: "json \<Rightarrow> starved_group" where
  "requirement_key body =
     (let flat = (\<lambda>field. sort (remdups (flat_flags body field)));
          grouped = (\<lambda>field. flag_sets (flag_group_lists body field)) in
      \<lparr>sg_requires = flat ''requires'', sg_any_of = grouped ''any_of'', sg_clients = flat ''clients'',
       sg_exclude_clients = flat ''exclude_clients'', sg_excludes = flat ''excludes'',
       sg_not_all_of = grouped ''not_all_of'', sg_job_ids = []\<rparr>)"

fun add_to_group :: "starved_group \<Rightarrow> job_id \<Rightarrow> starved_group list \<Rightarrow> starved_group list" where
  "add_to_group key j [] = [key\<lparr>sg_job_ids := [j]\<rparr>]"
| "add_to_group key j (g # gs) =
     (if g\<lparr>sg_job_ids := []\<rparr> = key then g\<lparr>sg_job_ids := sg_job_ids g @ [j]\<rparr> # gs else g # add_to_group key j gs)"

definition group_starved :: "ext \<Rightarrow> job_id list \<Rightarrow> (job_id \<Rightarrow> avail_key option) \<Rightarrow> starved_group list rec" where
  "group_starved x starved_ids avail_by_job =
     rec_fold (\<lambda>j groups.
         case avail_by_job j of
           None \<Rightarrow> rec_ret groups
         | Some a \<Rightarrow>
             rec_bind (rec_body x a) (\<lambda>body.
               rec_ret (case body of None \<Rightarrow> groups | Some b \<Rightarrow> add_to_group (requirement_key b) j groups)))
       starved_ids []"

section \<open>Counting jobs\<close>

fun add_outcome :: "settled_outcome \<Rightarrow> counts \<Rightarrow> counts" where
  "add_outcome Finished c = c\<lparr>n_finished := n_finished c + 1\<rparr>"
| "add_outcome Failed c = c\<lparr>n_failed := n_failed c + 1\<rparr>"

type_synonym settled_jobs = "(job_id \<times> settled_outcome) list"

text \<open>A job that is counted without its record, or one whose record has to be read.\<close>

definition count_known ::
  "plan_record \<Rightarrow> (job_id \<Rightarrow> avail_key option) \<Rightarrow> job_id set \<Rightarrow> (job_id \<Rightarrow> settled_outcome option) \<Rightarrow>
   job_id \<Rightarrow> counts \<times> settled_jobs \<times> job_id list \<Rightarrow> counts \<times> settled_jobs \<times> job_id list" where
  "count_known m avail_by_job leased_ids settled j = (\<lambda>(c, settled_jobs, to_probe).
     if map_of (pm_expired_jobs m) j \<noteq> None then (c\<lparr>n_failed := n_failed c + 1\<rparr>, settled_jobs, to_probe)
     else if avail_by_job j \<noteq> None then (c\<lparr>n_available := n_available c + 1\<rparr>, settled_jobs, to_probe)
     else if j \<in> leased_ids then (c\<lparr>n_running := n_running c + 1\<rparr>, settled_jobs, to_probe)
     else case map_of (pm_settled_jobs m) j of
       Some out \<Rightarrow> (add_outcome out c, settled_jobs, to_probe)
     | None \<Rightarrow>
         (case settled j of
            Some out \<Rightarrow> (add_outcome out c, AList.update j out settled_jobs, to_probe)
          | None \<Rightarrow> (c, settled_jobs, to_probe @ [j])))"

definition count_probed ::
  "job_id \<Rightarrow> counts \<times> settled_jobs \<times> (job_id \<Rightarrow> settled_outcome option) \<times> (job_id \<Rightarrow> settled_outcome option) \<Rightarrow>
   counts \<times> settled_jobs \<times> (job_id \<Rightarrow> settled_outcome option) \<times> (job_id \<Rightarrow> settled_outcome option)" where
  "count_probed j = (\<lambda>(c, settled_jobs, settled, found).
     case found j of
       Some out \<Rightarrow> (add_outcome out c, AList.update j out settled_jobs, settled(j \<mapsto> out), found(j := None))
     | None \<Rightarrow> (c\<lparr>n_cancelled := n_cancelled c + 1\<rparr>, settled_jobs, settled, found))"

definition count_jobs ::
  "plan_record \<Rightarrow> (job_id \<Rightarrow> avail_key option) \<Rightarrow> job_id set \<Rightarrow> (counts \<times> settled_jobs) rec" where
  "count_jobs m avail_by_job leased_ids =
     rec_bind (rec_get rs_settled) (\<lambda>settled.
       let (c, settled_jobs, to_probe) = fold (count_known m avail_by_job leased_ids settled) (pm_job_ids m)
             (\<lparr>n_total = length (pm_job_ids m), n_finished = 0, n_running = 0, n_available = 0, n_failed = 0,
               n_cancelled = 0\<rparr>, pm_settled_jobs m, []) in
       rec_bind (rec_update (\<lambda>st. st\<lparr>rs_probes := rs_probes st + length to_probe\<rparr>)) (\<lambda>_.
       rec_bind (rec_io (find_outcomes to_probe)) (\<lambda>found.
         let (c, settled_jobs, settled, _) = fold count_probed to_probe (c, settled_jobs, settled, found) in
         rec_bind (rec_update (\<lambda>st. st\<lparr>rs_settled := settled\<rparr>)) (\<lambda>_. rec_ret (c, settled_jobs)))))"

section \<open>Reconciling plans\<close>

text \<open>What the run knows when it reconciles.\<close>

record run_view =
  v_membership :: membership
  v_avail :: "avail_key list"
  v_leased_ids :: "job_id set"
  v_live_ids :: "job_id set"
  v_crew :: "client list"
  v_tags :: fleet_tags
  v_now :: time
  v_creating_max_age :: time

definition avail_by_job :: "run_view \<Rightarrow> job_id \<Rightarrow> avail_key option" where
  "avail_by_job v = map_of (rev (map (\<lambda>a. (ak_job_id a, a)) (v_avail v)))"

definition updated_manifest ::
  "plan_record \<Rightarrow> plan_status \<times> time option \<Rightarrow> counts \<times> settled_jobs \<Rightarrow> starved_group list \<Rightarrow> time \<Rightarrow> plan_record" where
  "updated_manifest m decided counted starved now =
     m\<lparr>pm_status := fst decided,
       pm_terminal_at := (case pm_terminal_at m of None \<Rightarrow> snd decided | Some t \<Rightarrow> Some t),
       pm_progress_snapshot := Some \<lparr>computed_at = now, ps_counts = fst counted, ps_starved = starved\<rparr>,
       pm_settled_jobs := snd counted\<rparr>"

text \<open>The cancel marker goes once no ingest can overwrite the latch.\<close>

definition collect_cancel_marker :: "run_view \<Rightarrow> plan_record \<Rightarrow> plan_ending \<Rightarrow> unit rec" where
  "collect_cancel_marker v m ending =
     rec_io (io_when (e_requested ending \<and> \<not> ingest_may_overwrite m (v_now v) (v_creating_max_age v))
       (delete_cancel_marker (pm_plan_id m)))"

definition write_reconciled ::
  "ext \<Rightarrow> run_view \<Rightarrow> plan_record \<Rightarrow> plan_ending \<Rightarrow> plan_status \<times> time option \<Rightarrow> job_id list \<Rightarrow> unit rec" where
  "write_reconciled x v m ending decided starved_ids =
     rec_bind (count_jobs m (avail_by_job v) (v_leased_ids v)) (\<lambda>counted.
     rec_bind (group_starved x starved_ids (avail_by_job v)) (\<lambda>starved.
     rec_bind (rec_io (put_plan x (updated_manifest m decided counted starved (v_now v)))) (\<lambda>_.
     rec_bind (rec_update (\<lambda>st. st\<lparr>rs_reconciled := rs_reconciled st + 1\<rparr>)) (\<lambda>_.
       collect_cancel_marker v m ending))))"

definition reconcile_one_plan :: "ext \<Rightarrow> run_view \<Rightarrow> plan_record \<Rightarrow> plan_ending \<Rightarrow> unit rec" where
  "reconcile_one_plan x v m ending =
     (if is_terminal (pm_status m) then collect_cancel_marker v m ending
      else if pm_status m = Creating \<and> \<not> is_ending m ending then rec_ret ()
      else
        let outstanding = outstanding_jobs m ending (v_membership v) (v_live_ids v) in
        rec_bind (find_starved x (v_crew v) (v_tags v) (avail_by_job v) outstanding) (\<lambda>(starved_ids, any_matched).
          write_reconciled x v m ending
            (decide_status (is_ending m ending) (outstanding = []) (e_retired_this_pass ending) any_matched (v_now v))
            starved_ids))"

definition collect_orphaned_marker :: "plan_id \<Rightarrow> unit io" where
  "collect_orphaned_marker p =
     io_bind (get_plan p) (\<lambda>m. io_when (m = None) (delete_cancel_marker p))"

definition count_failure :: "'a rec \<Rightarrow> reconcile_state \<Rightarrow> reconcile_state io" where
  "count_failure m st =
     io_bind (m st) (\<lambda>(r, st). io_ret (case r of Inl _ \<Rightarrow> st\<lparr>rs_failures := rs_failures st + 1\<rparr> | Inr _ \<Rightarrow> st))"

definition reconcile_plans ::
  "ext \<Rightarrow> run_view \<Rightarrow> plan_record list \<Rightarrow> plan_id list \<Rightarrow> teardown_outcome \<Rightarrow> bodies \<Rightarrow> reconcile_state io" where
  "reconcile_plans x v manifests markers endings bodies =
     io_bind (io_fold (\<lambda>m. count_failure (reconcile_one_plan x v m (for_plan endings (pm_plan_id m) (pm_plan_id m \<in> set markers))))
         manifests
         \<lparr>rs_bodies = bodies, rs_settled = map_of (rev (concat (map pm_settled_jobs manifests))),
          rs_failures = 0, rs_probes = 0, rs_reconciled = 0\<rparr>) (\<lambda>st.
       io_fold (\<lambda>p. count_failure (rec_io (collect_orphaned_marker p)))
         (filter (\<lambda>p. p \<notin> pm_plan_id ` set manifests) markers) st)"

section \<open>Lapses\<close>

text \<open>The latest horizon of each membership, in the order of plan and job.\<close>

definition member_horizons :: "job_plan_marker list \<Rightarrow> ((plan_id \<times> job_id) \<times> expires_at) list" where
  "member_horizons markers =
     map (\<lambda>(p, j). ((p, j), Max (set (map jm_expires_at (filter (\<lambda>m. jm_plan_id m = p \<and> jm_job_id m = j) markers)))))
       (sorted_list_of_set (set (map (\<lambda>m. (jm_plan_id m, jm_job_id m)) markers)))"

definition record_one_lapse ::
  "ext \<Rightarrow> job_plan_marker list \<Rightarrow> plan_id \<Rightarrow> job_id \<Rightarrow> time \<Rightarrow> time \<Rightarrow> plan_record option io" where
  "record_one_lapse x markers p j horizon now =
     io_bind (get_plan p) (\<lambda>stored.
       case stored of
         None \<Rightarrow> io_ret None
       | Some m \<Rightarrow>
           io_bind
             (if map_of (pm_expired_jobs m) j \<noteq> None then io_ret m
              else
                let m' = m\<lparr>pm_expired_jobs := AList.update j \<lparr>ej_horizon = horizon, ej_recorded_at = now\<rparr> (pm_expired_jobs m)\<rparr> in
                io_bind (put_plan x m') (\<lambda>_. io_ret m')) (\<lambda>m.
           io_bind (io_for (map jm_expires_at (filter (\<lambda>k. jm_plan_id k = p \<and> jm_job_id k = j) markers))
               (delete_job_plan_marker x j p)) (\<lambda>_.
             io_ret (Some m))))"

text \<open>The place of each plan in the list of manifests: the last one under its id.\<close>

definition manifest_slots :: "plan_record list \<Rightarrow> plan_id \<Rightarrow> nat option" where
  "manifest_slots manifests = map_of (rev (zip (map pm_plan_id manifests) [0..<length manifests]))"

definition manifest_at :: "plan_record list \<Rightarrow> nat option \<Rightarrow> plan_record option" where
  "manifest_at manifests slot =
     (case slot of None \<Rightarrow> None | Some i \<Rightarrow> if i < length manifests then Some (manifests ! i) else None)"

definition record_lapse ::
  "ext \<Rightarrow> job_plan_marker list \<Rightarrow> plan_id set \<Rightarrow> plan_id set \<Rightarrow> time \<Rightarrow> time \<Rightarrow> (plan_id \<Rightarrow> nat option) \<Rightarrow>
   (plan_id \<times> job_id) \<times> expires_at \<Rightarrow> plan_record list \<times> nat \<Rightarrow> (plan_record list \<times> nat) io" where
  "record_lapse x markers cancel_markers stranded now creating_max_age slots = (\<lambda>((p, j), horizon) (manifests, failures).
     case (instant horizon, manifest_at manifests (slots p)) of
       (Some deadline, Some m) \<Rightarrow>
         if \<not> is_expired horizon now \<or> is_terminal (pm_status m) \<or> pm_status m = Cancelling
            \<or> p \<in> cancel_markers \<or> p \<in> stranded \<or> j \<notin> set (pm_job_ids m)
         then io_ret (manifests, failures)
         else io_bind (attempt (has_record j)) (\<lambda>r.
           case r of
             Inl _ \<Rightarrow> io_ret (manifests, failures + 1)
           | Inr submitted \<Rightarrow>
               if submitted \<or> ingest_may_overwrite m now creating_max_age then io_ret (manifests, failures)
               else io_bind (attempt (record_one_lapse x markers p j deadline now)) (\<lambda>r.
                 io_ret (case r of
                     Inl _ \<Rightarrow> (manifests, failures + 1)
                   | Inr None \<Rightarrow> (manifests, failures)
                   | Inr (Some m) \<Rightarrow> (manifests[the (slots p) := m], failures))))
     | _ \<Rightarrow> io_ret (manifests, failures))"

definition record_member_lapses ::
  "ext \<Rightarrow> plan_record list \<Rightarrow> job_plan_marker list \<Rightarrow> plan_id set \<Rightarrow> plan_id set \<Rightarrow> time \<Rightarrow> time \<Rightarrow>
   (plan_record list \<times> nat) io" where
  "record_member_lapses x manifests markers cancel_markers stranded now creating_max_age =
     io_fold (record_lapse x markers cancel_markers stranded now creating_max_age (manifest_slots manifests))
       (member_horizons markers) (manifests, 0)"

section \<open>Garbage collection\<close>

definition PLAN_INDEX_KEY_PREFIX :: string where "PLAN_INDEX_KEY_PREFIX = ''plans:''"

text \<open>The two-sighting rule with the candidates of the run before and no removals of this run.\<close>

definition confirm_index_key :: "string list \<Rightarrow> string \<Rightarrow> string list \<Rightarrow> bool \<times> string list" where
  "confirm_index_key prior key staged =
     confirm_or_stage
       \<lparr>gc_live_jobs = {}, gc_live_clients = {}, gc_avail_expiries = Map.empty, gc_terminal_jobs = {}, gc_prior = prior\<rparr>
       staged key None"

definition gc_content_key ::
  "job_id set \<Rightarrow> string list \<Rightarrow> time \<Rightarrow> time \<Rightarrow> string \<times> content_key_record \<Rightarrow> string list \<times> nat \<Rightarrow> (string list \<times> nat) io" where
  "gc_content_key live_ids prior now creating_max_age = (\<lambda>(digest, r) (staged, failures).
     if ck_job_id r \<in> live_ids \<or> \<not> past_gate (ck_created_at r) now creating_max_age then io_ret (staged, failures)
     else let (confirmed, staged) = confirm_index_key prior (PLAN_INDEX_KEY_PREFIX @ ''content-keys/v1/'' @ digest) staged in
       if \<not> confirmed then io_ret (staged, failures)
       else io_bind (attempt (delete_content_key digest r)) (\<lambda>res.
         io_ret (staged, case res of Inl _ \<Rightarrow> failures + 1 | Inr _ \<Rightarrow> failures)))"

definition gc_membership_marker ::
  "ext \<Rightarrow> plan_record list \<Rightarrow> job_id set \<Rightarrow> string list \<Rightarrow> time \<Rightarrow> time \<Rightarrow> job_plan_marker \<Rightarrow> string list \<times> nat \<Rightarrow>
   (string list \<times> nat) io" where
  "gc_membership_marker x manifests live_ids prior now creating_max_age marker = (\<lambda>(staged, failures).
     let job_dead = jm_job_id marker \<notin> live_ids;
         plan_disowns_job =
           (case map_of (rev (map (\<lambda>m. (pm_plan_id m, pm_job_ids m)) manifests)) (jm_plan_id marker) of
              None \<Rightarrow> True
            | Some held \<Rightarrow> jm_job_id marker \<notin> set held) in
     if \<not> (job_dead \<or> plan_disowns_job) \<or> \<not> past_gate (jm_written_at marker) now creating_max_age
     then io_ret (staged, failures)
     else let (confirmed, staged) = confirm_index_key prior
              (PLAN_INDEX_KEY_PREFIX @ ''job-plans/'' @ jm_job_id marker @ ''/''
                @ job_plan_marker_filename x (jm_plan_id marker) (jm_expires_at marker)) staged in
       if \<not> confirmed then io_ret (staged, failures)
       else io_bind (attempt (delete_job_plan_marker x (jm_job_id marker) (jm_plan_id marker) (jm_expires_at marker))) (\<lambda>res.
         io_ret (staged, case res of Inl _ \<Rightarrow> failures + 1 | Inr _ \<Rightarrow> failures)))"

definition gc_plan_index ::
  "ext \<Rightarrow> plan_record list \<Rightarrow> job_plan_marker list \<Rightarrow> job_id set \<Rightarrow> string list \<Rightarrow> time \<Rightarrow> time \<Rightarrow> (string list \<times> nat) io" where
  "gc_plan_index x manifests markers live_ids prior now creating_max_age =
     io_bind (attempt list_content_keys) (\<lambda>r.
     let (keys, failures) = (case r of Inr keys \<Rightarrow> (keys, 0) | Inl _ \<Rightarrow> ([], 1)) in
     io_bind (io_fold (gc_content_key live_ids prior now creating_max_age) keys ([], failures))
       (io_fold (gc_membership_marker x manifests live_ids prior now creating_max_age) markers))"

definition collect_pending_source :: "plan_id \<Rightarrow> unit io" where
  "collect_pending_source p =
     io_bind (get_plan p) (\<lambda>m.
     io_bind (io_when (m = None) (delete_plan_source p)) (\<lambda>_.
       delete_pending_source_marker p))"

definition gc_pending_plan_sources :: "string list \<Rightarrow> time \<Rightarrow> time \<Rightarrow> (string list \<times> nat) io" where
  "gc_pending_plan_sources prior now creating_max_age =
     io_bind (attempt list_pending_source_markers) (\<lambda>r.
       case r of
         Inl _ \<Rightarrow> io_ret ([], 1)
       | Inr markers \<Rightarrow>
           io_fold (\<lambda>(p, written_at) (staged, failures).
             if \<not> past_gate written_at now creating_max_age then io_ret (staged, failures)
             else let (confirmed, staged) =
                 confirm_index_key prior (PLAN_INDEX_KEY_PREFIX @ ''plan-sources-pending/'' @ p) staged in
               if \<not> confirmed then io_ret (staged, failures)
               else io_bind (attempt (collect_pending_source p)) (\<lambda>res.
                 io_ret (staged, case res of Inl _ \<Rightarrow> failures + 1 | Inr _ \<Rightarrow> failures))) markers ([], 0))"

end
