(* ===== verification/Plan_Lifecycle.thy ===== *)
theory Plan_Lifecycle
  imports Plan_Reconcile
begin

text \<open>
  What the plan passes keep: the manifest that reconciliation writes, the cancel marker while an ingest
  could still undo a cancellation, and the order in which a lapse is recorded. All of it holds wherever a call fails
  or the process dies, beside other processes that leave the one manifest alone.
\<close>

section \<open>Computations with a state\<close>

lemma within_rec_ret [within_intros]: "within S (rec_ret a st)"
  unfolding rec_ret_def by (rule within_ret)

lemma within_rec_bind [within_intros]:
  "(\<And>st. within S (m st)) \<Longrightarrow> (\<And>a st. within S (k a st)) \<Longrightarrow> within S (rec_bind m k st)"
  unfolding rec_bind_def by (auto intro!: within_intros split: prod.split sum.split)

lemma within_rec_io [within_intros]: "within S m \<Longrightarrow> within S (rec_io m st)"
  unfolding rec_io_def by (intro within_intros)

lemma within_rec_state [within_intros]: "within S (rec_get f st)" "within S (rec_update g st)"
  unfolding rec_get_def rec_update_def by (intro within_intros)+

lemma within_rec_fold: "(\<And>a b st. within S (f a b st)) \<Longrightarrow> within S (rec_fold f as b st)"
  by (induction as arbitrary: b st) (auto intro!: within_intros)

lemma within_rec_body [within_intros]: "within S (rec_body x a st)"
  unfolding rec_body_def cached_body_def get_avail_def
  by (auto intro!: within_intros split: option.split)

lemma within_counting:
  "within S (find_starved x crew tags avail outstanding st)" "within S (group_starved x starved avail st)"
  "within S (count_jobs m avail leased st)"
  unfolding find_starved_def group_starved_def count_jobs_def Let_def
  by (auto intro!: within_intros within_rec_fold split: prod.split option.split)

text \<open>What a computation can return, whatever it reads.\<close>

definition yields :: "'a rec \<Rightarrow> ('a \<Rightarrow> bool) \<Rightarrow> bool" where
  "yields m Q \<longleftrightarrow> (\<forall>st w a st' w'. m st w = (Inr (Inr a, st'), w') \<longrightarrow> Q a)"

lemma yields_any: "yields m (\<lambda>_. True)"
  by (simp add: yields_def)

lemma rec_bind_Inr:
  "rec_bind m k st w = (Inr (Inr b, st'), w') \<Longrightarrow> \<exists>a st1 w1. m st w = (Inr (Inr a, st1), w1) \<and> k a st1 w1 = (Inr (Inr b, st'), w')"
  by (auto simp: rec_bind_def io_bind_def io_ret_def split: prod.splits sum.splits)

lemma yields_bind: "yields m Q \<Longrightarrow> (\<And>a. Q a \<Longrightarrow> yields (k a) S) \<Longrightarrow> yields (rec_bind m k) S"
  unfolding yields_def using rec_bind_Inr by metis

lemma yields_ret: "Q a \<Longrightarrow> yields (rec_ret a) Q"
  by (simp add: yields_def rec_ret_def io_ret_def)

lemma chl_rec_bind:
  assumes "\<And>st. chl A P (m st) (\<lambda>_. P) P" "yields m Q" "\<And>a st. Q a \<Longrightarrow> chl A P (k a st) (\<lambda>_. P) P"
  shows "chl A P (rec_bind m k st) (\<lambda>_. P) P"
proof (rule chlI)
  fix w r w'
  assume w: "sched_ok A w" "P (w_fs w)" and run: "rec_bind m k st w = (r, w')"
  obtain r1 w1 where m: "m st w = (r1, w1)"
    by fastforce
  have ok: "sched_ok A w1" "P (w_fs w1)"
    using chlD [OF assms(1) w m] by (auto split: sum.splits)
  show "sched_ok A w' \<and> (case r of Inr _ \<Rightarrow> P (w_fs w') | Inl _ \<Rightarrow> P (w_fs w'))"
  proof (cases "\<exists>a st1. r1 = Inr (Inr a, st1)")
    case True
    then obtain a st1 where r1: "r1 = Inr (Inr a, st1)"
      by blast
    then have "k a st1 w1 = (r, w')"
      using run m by (simp add: rec_bind_def io_bind_def)
    moreover have "Q a"
      using m r1 assms(2) unfolding yields_def by blast
    ultimately show ?thesis
      using chlD [OF assms(3) ok] by simp
  next
    case False
    then have "w' = w1"
      using run m by (auto simp: rec_bind_def io_bind_def io_ret_def split: sum.splits prod.splits)
    with ok show ?thesis
      by (simp split: sum.split)
  qed
qed

lemma chl_rec_io: "chl A P m (\<lambda>_. P) P \<Longrightarrow> chl A P (rec_io m st) (\<lambda>_. P) P"
  unfolding rec_io_def by (rule chl_bind [OF chl_attempt_keep]) (auto intro: chl_ret)

lemma chl_count_failure: "(\<And>st. chl A P (m st) (\<lambda>_. P) P) \<Longrightarrow> chl A P (count_failure m st) (\<lambda>_. P) P"
  unfolding count_failure_def by (rule chl_bind) (auto intro: chl_ret split: prod.split)

section \<open>The counts partition the jobs\<close>

definition counted_jobs :: "counts \<Rightarrow> nat" where
  "counted_jobs c = n_finished c + n_running c + n_available c + n_failed c + n_cancelled c"

lemma counted_add: "counted_jobs (add_outcome out c) = Suc (counted_jobs c)" "n_total (add_outcome out c) = n_total c"
  by (cases out; simp add: counted_jobs_def)+

lemma count_known_fold:
  "fold (count_known m avail leased settled) js (c, sj, probe) = (c', sj', probe') \<Longrightarrow>
   counted_jobs c' + length probe' = counted_jobs c + length probe + length js \<and> n_total c' = n_total c"
proof (induction js arbitrary: c sj probe)
  case (Cons j js)
  obtain c1 sj1 probe1 where step: "count_known m avail leased settled j (c, sj, probe) = (c1, sj1, probe1)"
    using prod_cases3 by blast
  then have "counted_jobs c1 + length probe1 = Suc (counted_jobs c + length probe) \<and> n_total c1 = n_total c"
    by (auto simp: count_known_def counted_add split: if_splits option.splits) (auto simp: counted_jobs_def)
  with Cons.IH [of c1 sj1 probe1] Cons.prems step show ?case
    by simp
qed simp

lemma count_probed_fold:
  "fold count_probed js (c, sj, settled, found) = (c', sj', settled', found') \<Longrightarrow>
   counted_jobs c' = counted_jobs c + length js \<and> n_total c' = n_total c"
proof (induction js arbitrary: c sj settled found)
  case (Cons j js)
  obtain c1 sj1 settled1 found1 where step: "count_probed j (c, sj, settled, found) = (c1, sj1, settled1, found1)"
    using prod_cases4 by blast
  then have "counted_jobs c1 = Suc (counted_jobs c) \<and> n_total c1 = n_total c"
    by (auto simp: count_probed_def counted_add split: option.splits) (auto simp: counted_jobs_def)
  with Cons.IH [of c1 sj1 settled1 found1] Cons.prems step show ?case
    by simp
qed simp

lemma count_jobs_yields:
  "yields (count_jobs m avail leased) (\<lambda>(c, _). n_total c = length (pm_job_ids m) \<and> counted_jobs c = n_total c)"
  unfolding count_jobs_def
proof (rule yields_bind [OF yields_any])
  fix settled
  let ?zero = "\<lparr>n_total = length (pm_job_ids m), n_finished = 0, n_running = 0, n_available = 0, n_failed = 0, n_cancelled = 0\<rparr>"
  obtain c sj probe where known:
    "fold (count_known m avail leased settled) (pm_job_ids m) (?zero, pm_settled_jobs m, []) = (c, sj, probe)"
    using prod_cases3 by blast
  have total: "counted_jobs c + length probe = length (pm_job_ids m)" "n_total c = length (pm_job_ids m)"
    using count_known_fold [OF known] by (simp_all add: counted_jobs_def)
  have probed: "yields (let (c, sj, settled, _) = fold count_probed probe (c, sj, settled, found) in
      rec_bind (rec_update (\<lambda>st. st\<lparr>rs_settled := settled\<rparr>)) (\<lambda>_. rec_ret (c, sj)))
      (\<lambda>(c, _). n_total c = length (pm_job_ids m) \<and> counted_jobs c = n_total c)" for found
  proof -
    obtain c' sj' settled' found' where run: "fold count_probed probe (c, sj, settled, found) = (c', sj', settled', found')"
      using prod_cases4 by blast
    show ?thesis
      unfolding run Let_def prod.case using count_probed_fold [OF run] total
      by (intro yields_bind [OF yields_any] yields_ret) simp
  qed
  show "yields (let (c, sj, probe) = fold (count_known m avail leased settled) (pm_job_ids m) (?zero, pm_settled_jobs m, []) in
      rec_bind (rec_update (\<lambda>st. st\<lparr>rs_probes := rs_probes st + length probe\<rparr>)) (\<lambda>_.
      rec_bind (rec_io (find_outcomes probe)) (\<lambda>found.
        let (c, sj, settled, _) = fold count_probed probe (c, sj, settled, found) in
        rec_bind (rec_update (\<lambda>st. st\<lparr>rs_settled := settled\<rparr>)) (\<lambda>_. rec_ret (c, sj)))))
      (\<lambda>(c, _). n_total c = length (pm_job_ids m) \<and> counted_jobs c = n_total c)"
    unfolding known Let_def [of "(c, sj, probe)"] prod.case by (intro yields_bind [OF yields_any] probed)
qed

section \<open>One manifest\<close>

text \<open>What other processes may do: anything but write this manifest or another run's staging files.\<close>

definition leaves_manifest :: "plan_id \<Rightarrow> act \<Rightarrow> bool" where
  "leaves_manifest p a =
     (case a of
        A_put q _ \<Rightarrow> fst q \<noteq> D_plans \<or> (ends_with json_suffix (snd q) \<and> q \<noteq> manifest_path p)
      | A_del q \<Rightarrow> fst q \<noteq> D_plans \<or> (ends_with json_suffix (snd q) \<and> q \<noteq> manifest_path p)
      | _ \<Rightarrow> True)"

definition stored :: "plan_id \<Rightarrow> plan_record \<Rightarrow> fs \<Rightarrow> bool" where
  "stored p m s \<longleftrightarrow> (\<exists>f. lookup s (manifest_path p) = Some f \<and> f_content f = C_plan m)"

definition plan_tmp :: "path set" where
  "plan_tmp = {q. fst q = D_plans \<and> \<not> ends_with json_suffix (snd q)}"

lemma tmp_in_plan_tmp: "tmp_sibling (D_plans, []) u \<in> plan_tmp"
  by (auto simp: plan_tmp_def tmp_sibling_def json_suffix_def dest: ends_with_last)

lemma manifest_not_tmp: "manifest_path p \<notin> plan_tmp"
  by (simp add: plan_tmp_def manifest_path_def ends_with_iff)

lemma manifest_other: "queue_job (manifest_path p) = None" "record_job (manifest_path p) = None"
  by (simp_all add: manifest_path_def record_job_def)

lemma lookup_left_alone:
  assumes "leaves_manifest p a" "r = manifest_path p \<or> r \<in> plan_tmp"
  shows "lookup (perform a s) r = lookup s r"
proof -
  have r: "fst r = D_plans"
    using assms(2) by (auto simp: manifest_path_def plan_tmp_def)
  then have other: "queue_job r = None" "record_job r = None"
    by (cases r; simp add: record_job_def)+
  show ?thesis
    using assms other r
    by (cases a) (auto simp: leaves_manifest_def plan_tmp_def intro!: lookup_mv_other split: option.splits)
qed

lemma chl_put_plan:
  assumes I: "upheld A I" "blind plan_tmp I" and Q: "upheld A Q" "blind plan_tmp Q"
    and A: "\<And>a. A a \<Longrightarrow> leaves_manifest p0 a" and p: "pm_plan_id m = p"
    and step: "\<And>s t. I s \<Longrightarrow> stored p m t \<Longrightarrow>
      (\<And>r. r \<noteq> manifest_path p \<Longrightarrow> r \<notin> plan_tmp \<Longrightarrow> lookup t r = lookup s r) \<Longrightarrow> Q t"
  shows "chl A I (put_plan x m) (\<lambda>_. Q) (\<lambda>s. I s \<or> Q s)"
proof -
  let ?t = "tmp_sibling (D_plans, [])" and ?p = "manifest_path p"
  have tmp: "?t u \<noteq> ?p" for u
    using tmp_in_plan_tmp manifest_not_tmp by metis
  show ?thesis
    unfolding put_plan_def p
  proof (rule chl_replace_atomically [OF _ I(1) Q(1)])
    show "upheld A (\<lambda>s. I s \<and> (\<exists>f. lookup s (?t u) = Some f \<and> f_content f = C_plan m))" for u
      using I(1) lookup_left_alone [OF A disjI2 [OF tmp_in_plan_tmp]] by (simp add: upheld_def)
    show "I s \<Longrightarrow> I (put (?t u) c s)" for u s c
      by (rule blindD [OF I(2)]) (use tmp_in_plan_tmp in \<open>auto simp: put_def\<close>)
    show "I s \<Longrightarrow> I (del (?t u) s)" for u s
      by (rule blindD [OF I(2)]) (use tmp_in_plan_tmp in auto)
    show "Q s \<Longrightarrow> Q (del (?t u) s)" for u s
      by (rule blindD [OF Q(2)]) (use tmp_in_plan_tmp in auto)
    show "Q (mv (?t u) ?p s)" if "I s" "lookup s (?t u) = Some f" "f_content f = C_plan m" for u s f
    proof (rule step [OF that(1)])
      show "stored p m (mv (?t u) ?p s)"
        using that tmp [of u] by (auto simp: stored_def lookup_mv)
      show "lookup (mv (?t u) ?p s) r = lookup s r" if "r \<noteq> ?p" "r \<notin> plan_tmp" for r
        by (rule lookup_mv_other) (use that tmp_in_plan_tmp in auto)
    qed
  qed
qed

text \<open>What such a write changes.\<close>

lemma put_effect:
  assumes "stored q m' t" "\<And>r. r \<noteq> manifest_path q \<Longrightarrow> r \<notin> plan_tmp \<Longrightarrow> lookup t r = lookup s r"
  shows "stored i m t \<longleftrightarrow> (if i = q then m = m' else stored i m s)" "fst k \<noteq> D_plans \<Longrightarrow> present t k \<longleftrightarrow> present s k"
proof -
  show "stored i m t \<longleftrightarrow> (if i = q then m = m' else stored i m s)"
    using assms(1) assms(2) [of "manifest_path i"] manifest_not_tmp [of i] by (auto simp: stored_def manifest_path_def)
  have "k \<noteq> manifest_path q" "k \<notin> plan_tmp" if "fst k \<noteq> D_plans"
    using that by (auto simp: manifest_path_def plan_tmp_def)
  then show "fst k \<noteq> D_plans \<Longrightarrow> present t k \<longleftrightarrow> present s k"
    using assms(2) by (simp add: present_def)
qed

lemma chl_get_plan:
  assumes "upheld A I"
  shows "chl A I (get_plan p) (\<lambda>r s. I s \<and> (\<forall>m. r = Some m \<longrightarrow> stored p m s)) I"
proof -
  have "chl A I (read_file (manifest_path p)) (\<lambda>c s. I s \<and> (\<forall>m. c = C_plan m \<longrightarrow> stored p m s)) I"
    by (rule chl_read_file [OF assms]) (auto simp: stored_def)
  then have "chl A I (vanished_is_absent (read_file (manifest_path p))) (\<lambda>c s. I s \<and> (\<forall>m. c = Some (C_plan m) \<longrightarrow> stored p m s)) I"
    unfolding vanished_is_absent_def
    by (rule chl_bind [OF chl_attempt]) (auto intro!: chl_ret chl_raise split: sum.splits)
  then show ?thesis
    unfolding get_plan_def
  proof (rule chl_bind)
    show "chl A (\<lambda>s. I s \<and> (\<forall>m. c = Some (C_plan m) \<longrightarrow> stored p m s)) (case c of None \<Rightarrow> io_ret None
        | Some c \<Rightarrow> io_bind (io_lift (decode_plan c)) (\<lambda>m. io_ret (Some m))) (\<lambda>r s. I s \<and> (\<forall>m. r = Some m \<longrightarrow> stored p m s)) I" for c
    proof (cases c)
      case (Some d)
      then show ?thesis
        by (cases d) (auto intro!: chl_ret chl_bind [OF chl_lift] simp: chl_def io_bind_def io_lift_def io_ret_def)
    qed (auto intro: chl_ret)
  qed
qed

section \<open>What reconciliation writes\<close>

text \<open>
  The manifest a pass writes for a plan: the plan was not terminal, and an ingest did not own it; what ingestion and the
  lapse pass wrote is kept; a plan is complete only when no job of it is live except lapsed ones, and cancelled only
  when it is ending, every live job of it is lapsed or released, and this pass retired none; the five buckets partition its jobs.
\<close>

definition well_reconciled :: "run_view \<Rightarrow> plan_ending \<Rightarrow> plan_record \<Rightarrow> plan_record \<Rightarrow> bool" where
  "well_reconciled v ending m m' \<longleftrightarrow>
     \<not> is_terminal (pm_status m) \<and> (pm_status m = Creating \<longrightarrow> is_ending m ending)
     \<and> m' = m\<lparr>pm_status := pm_status m', pm_terminal_at := pm_terminal_at m', pm_progress_snapshot := pm_progress_snapshot m',
         pm_settled_jobs := pm_settled_jobs m'\<rparr>
     \<and> (pm_status m' = Complete \<longrightarrow> \<not> is_ending m ending \<and>
         (\<forall>j \<in> set (pm_job_ids m). j \<in> v_live_ids v \<longrightarrow> map_of (pm_expired_jobs m) j \<noteq> None))
     \<and> (pm_status m' = Cancelled \<longrightarrow> is_ending m ending \<and> \<not> e_retired_this_pass ending \<and>
         (\<forall>j \<in> set (pm_job_ids m). j \<in> v_live_ids v \<longrightarrow> map_of (pm_expired_jobs m) j \<noteq> None
            \<or> j \<in> e_released_this_pass ending \<or> released_by (v_membership v) j (pm_plan_id m)))
     \<and> (pm_terminal_at m = None \<longrightarrow> (pm_terminal_at m' \<noteq> None \<longleftrightarrow> is_terminal (pm_status m')))
     \<and> (\<exists>snapshot. pm_progress_snapshot m' = Some snapshot \<and> computed_at snapshot = v_now v
         \<and> n_total (ps_counts snapshot) = length (pm_job_ids m)
         \<and> counted_jobs (ps_counts snapshot) = n_total (ps_counts snapshot))"

lemma updated_well_reconciled:
  assumes "\<not> is_terminal (pm_status m)" "pm_status m = Creating \<longrightarrow> is_ending m ending"
    and "n_total (fst counted) = length (pm_job_ids m)" "counted_jobs (fst counted) = n_total (fst counted)"
  shows "well_reconciled v ending m (updated_manifest m (decide_status (is_ending m ending)
    (outstanding_jobs m ending (v_membership v) (v_live_ids v) = []) (e_retired_this_pass ending) any_matched (v_now v)) counted starved (v_now v))"
proof -
  let ?out = "outstanding_jobs m ending (v_membership v) (v_live_ids v)"
  have "?out = [] \<Longrightarrow> \<not> is_ending m ending \<Longrightarrow> \<forall>j \<in> set (pm_job_ids m). j \<in> v_live_ids v \<longrightarrow> map_of (pm_expired_jobs m) j \<noteq> None"
    by (auto simp: outstanding_jobs_def filter_empty_conv)
  moreover have "?out = [] \<Longrightarrow> \<forall>j \<in> set (pm_job_ids m). j \<in> v_live_ids v \<longrightarrow> map_of (pm_expired_jobs m) j \<noteq> None
      \<or> j \<in> e_released_this_pass ending \<or> released_by (v_membership v) j (pm_plan_id m)"
    by (auto simp: outstanding_jobs_def filter_empty_conv)
  ultimately show ?thesis
    using assms unfolding well_reconciled_def updated_manifest_def decide_status_def is_terminal_def by simp
qed

definition kept_or_reconciled :: "run_view \<Rightarrow> plan_ending \<Rightarrow> plan_record \<Rightarrow> inode \<Rightarrow> fs \<Rightarrow> bool" where
  "kept_or_reconciled v ending m f s \<longleftrightarrow>
     lookup s (manifest_path (pm_plan_id m)) = Some f \<or> (\<exists>m'. stored (pm_plan_id m) m' s \<and> well_reconciled v ending m m')"

lemma kept_upheld: "upheld (leaves_manifest (pm_plan_id m)) (kept_or_reconciled v ending m f)"
  using lookup_left_alone [OF _ disjI1 [OF refl]] by (auto simp: upheld_def kept_or_reconciled_def stored_def)

lemma kept_blind: "manifest_path (pm_plan_id m) \<notin> S \<Longrightarrow> blind S (kept_or_reconciled v ending m f)"
  unfolding blind_def kept_or_reconciled_def stored_def by (metis (no_types, lifting))

lemma well_reconciled_id: "well_reconciled v ending m m' \<Longrightarrow> pm_plan_id m' = pm_plan_id m"
proof -
  assume "well_reconciled v ending m m'"
  then have "m' = m\<lparr>pm_status := pm_status m', pm_terminal_at := pm_terminal_at m',
      pm_progress_snapshot := pm_progress_snapshot m', pm_settled_jobs := pm_settled_jobs m'\<rparr>" (is "_ = ?m")
    unfolding well_reconciled_def by (elim conjE)
  then have "pm_plan_id m' = pm_plan_id ?m"
    by (rule arg_cong)
  then show ?thesis
    by simp
qed

lemma kept_put:
  "well_reconciled v ending m m' \<Longrightarrow>
   chl (leaves_manifest (pm_plan_id m)) (kept_or_reconciled v ending m f) (put_plan x m') (\<lambda>_. kept_or_reconciled v ending m f)
     (kept_or_reconciled v ending m f)"
  by (rule chl_conseq [OF chl_put_plan [OF kept_upheld kept_blind kept_upheld kept_blind]])
    (auto simp: manifest_not_tmp well_reconciled_id kept_or_reconciled_def)

lemma cancel_not_manifest: "cancel_marker_path q \<noteq> manifest_path p"
  by (simp add: cancel_marker_path_def manifest_path_def)

lemma within_delete_cancel [within_intros]: "cancel_marker_path p \<in> S \<Longrightarrow> within S (delete_cancel_marker p)"
  unfolding delete_cancel_marker_def by (rule within_remove_idempotent)

lemma within_collect: "within (- {manifest_path p}) (collect_cancel_marker v m ending st)"
  unfolding collect_cancel_marker_def by (intro within_intros) (simp add: cancel_not_manifest)

lemma kept_within:
  "within (- {manifest_path (pm_plan_id m)}) n \<Longrightarrow>
   chl (leaves_manifest (pm_plan_id m)) (kept_or_reconciled v ending m f) n (\<lambda>_. kept_or_reconciled v ending m f)
     (kept_or_reconciled v ending m f)"
  by (rule withinD [OF _ kept_upheld kept_blind]) blast+

lemma within_reconcile_other:
  assumes "pm_plan_id k \<noteq> p"
  shows "within (- {manifest_path p}) (reconcile_one_plan x v k ending st)"
proof -
  have "within (- {manifest_path p}) (put_plan x m)" if "pm_plan_id m = pm_plan_id k" for m
    unfolding put_plan_def that
  proof (rule within_replace)
    show "tmp_sibling (D_plans, []) u \<in> - {manifest_path p}" for u
      using tmp_in_plan_tmp manifest_not_tmp by (metis ComplI singletonD)
    show "manifest_path (pm_plan_id k) \<in> - {manifest_path p}"
      using assms by (simp add: manifest_path_def)
  qed
  then show ?thesis
    unfolding reconcile_one_plan_def write_reconciled_def collect_cancel_marker_def Let_def
    by (auto intro!: within_intros within_counting simp: cancel_not_manifest updated_manifest_def split: prod.split)
qed

lemma chl_write_reconciled:
  assumes "\<not> is_terminal (pm_status m)" "pm_status m = Creating \<longrightarrow> is_ending m ending"
  shows "chl (leaves_manifest (pm_plan_id m)) (kept_or_reconciled v ending m f)
     (write_reconciled x v m ending (decide_status (is_ending m ending)
       (outstanding_jobs m ending (v_membership v) (v_live_ids v) = []) (e_retired_this_pass ending) any_matched (v_now v)) starved_ids st)
     (\<lambda>_. kept_or_reconciled v ending m f) (kept_or_reconciled v ending m f)"
  unfolding write_reconciled_def
proof (rule chl_rec_bind [OF kept_within [OF within_counting(3)] count_jobs_yields])
  fix counted st
  let ?I = "kept_or_reconciled v ending m f" and ?u = "\<lambda>starved. updated_manifest m (decide_status (is_ending m ending)
    (outstanding_jobs m ending (v_membership v) (v_live_ids v) = []) (e_retired_this_pass ending) any_matched (v_now v)) counted starved (v_now v)"
  assume "case counted of (c, _) \<Rightarrow> n_total c = length (pm_job_ids m) \<and> counted_jobs c = n_total c"
  then have "well_reconciled v ending m (?u starved)" for starved
    by (intro updated_well_reconciled assms) (simp_all add: split_beta)
  then show "chl (leaves_manifest (pm_plan_id m)) ?I (rec_bind (group_starved x starved_ids (avail_by_job v)) (\<lambda>starved.
      rec_bind (rec_io (put_plan x (?u starved))) (\<lambda>_.
      rec_bind (rec_update (\<lambda>st. st\<lparr>rs_reconciled := rs_reconciled st + 1\<rparr>)) (\<lambda>_.
        collect_cancel_marker v m ending))) st) (\<lambda>_. ?I) ?I"
    by (intro chl_rec_bind [OF kept_within [OF within_counting(2)] yields_any] chl_rec_bind [OF chl_rec_io [OF kept_put] yields_any]
        chl_rec_bind [OF kept_within [OF within_rec_state(2)] yields_any] kept_within [OF within_collect])
qed

lemma chl_reconcile_one:
  "chl (leaves_manifest (pm_plan_id m)) (kept_or_reconciled v ending m f) (reconcile_one_plan x v m ending st)
     (\<lambda>_. kept_or_reconciled v ending m f) (kept_or_reconciled v ending m f)"
proof -
  have "chl (leaves_manifest (pm_plan_id m)) (kept_or_reconciled v ending m f)
      (rec_bind (find_starved x (v_crew v) (v_tags v) (avail_by_job v) out) (\<lambda>(starved_ids, any_matched).
        write_reconciled x v m ending (decide_status (is_ending m ending) (out = []) (e_retired_this_pass ending) any_matched (v_now v))
          starved_ids) st) (\<lambda>_. kept_or_reconciled v ending m f) (kept_or_reconciled v ending m f)"
    if "\<not> is_terminal (pm_status m)" "pm_status m = Creating \<longrightarrow> is_ending m ending"
      and out: "out = outstanding_jobs m ending (v_membership v) (v_live_ids v)" for out
    unfolding out by (rule chl_rec_bind [OF kept_within [OF within_counting(1)] yields_any], clarify)
      (rule chl_write_reconciled [OF that(1,2)])
  then show ?thesis
    unfolding reconcile_one_plan_def
    using kept_within [OF within_rec_ret] kept_within [OF within_collect] by (auto simp: Let_def)
qed

lemma within_orphaned: "cancel_marker_path p \<in> S \<Longrightarrow> within S (rec_io (collect_orphaned_marker p) st)"
  unfolding collect_orphaned_marker_def by (intro within_intros)

text \<open>The pass keeps what each of its plans and orphaned markers keeps.\<close>

lemma chl_reconcile_plans:
  assumes "\<And>k e st. k \<in> set manifests \<Longrightarrow> e = for_plan endings (pm_plan_id k) (pm_plan_id k \<in> set markers) \<Longrightarrow>
      chl A P (reconcile_one_plan x v k e st) (\<lambda>_. P) P"
    and "\<And>p st. p \<notin> pm_plan_id ` set manifests \<Longrightarrow> chl A P (rec_io (collect_orphaned_marker p) st) (\<lambda>_. P) P"
  shows "chl A P (reconcile_plans x v manifests markers endings bodies) (\<lambda>_. P) P"
  unfolding reconcile_plans_def
proof (rule chl_bind)
  show "chl A P (io_fold (\<lambda>m. count_failure (reconcile_one_plan x v m (for_plan endings (pm_plan_id m) (pm_plan_id m \<in> set markers))))
      manifests st) (\<lambda>_. P) P" for st
    by (intro chl_fold chl_count_failure assms(1)) auto
  show "chl A P (io_fold (\<lambda>p. count_failure (rec_io (collect_orphaned_marker p)))
      (filter (\<lambda>p. p \<notin> pm_plan_id ` set manifests) markers) st) (\<lambda>_. P) P" for st
    by (intro chl_fold chl_count_failure assms(2)) auto
qed

text \<open>
  C17: Reconciliation decides soundly. Whatever fails and wherever the process dies, the stored manifest of a plan is the one from
  before the run or one that the run wrote from it: a terminal plan is never written; a plan becomes complete only
  when no job of it is live except lapsed ones, and cancelled only when every live job is lapsed or released and none was
  retired in this run; what ingestion wrote is kept; and the counts partition the jobs.
\<close>

theorem reconcile_sound:
  assumes "\<forall>k \<in> set manifests. pm_plan_id k = pm_plan_id m \<longrightarrow> k = m"
    and "lookup (w_fs w) (manifest_path (pm_plan_id m)) = Some f" "sched_ok (leaves_manifest (pm_plan_id m)) w"
    and "reconcile_plans x v manifests markers endings bodies w = (r, w')"
  shows "lookup (w_fs w') (manifest_path (pm_plan_id m)) = Some f
    \<or> (\<exists>m'. stored (pm_plan_id m) m' (w_fs w')
        \<and> well_reconciled v (for_plan endings (pm_plan_id m) (pm_plan_id m \<in> set markers)) m m')"
proof -
  let ?e = "for_plan endings (pm_plan_id m) (pm_plan_id m \<in> set markers)"
  let ?A = "leaves_manifest (pm_plan_id m)" and ?I = "kept_or_reconciled v ?e m f"
  have one: "chl ?A ?I (reconcile_one_plan x v k (for_plan endings (pm_plan_id k) (pm_plan_id k \<in> set markers)) st) (\<lambda>_. ?I) ?I"
    if "k \<in> set manifests" for k st
  proof (cases "pm_plan_id k = pm_plan_id m")
    case True
    with assms(1) that have "k = m"
      by blast
    then show ?thesis
      by (simp add: chl_reconcile_one)
  qed (rule kept_within [OF within_reconcile_other])
  have "chl ?A ?I (reconcile_plans x v manifests markers endings bodies) (\<lambda>_. ?I) ?I"
    by (rule chl_reconcile_plans) (use one in \<open>auto intro: kept_within [OF within_orphaned] simp: cancel_not_manifest\<close>)
  from chlD [OF this assms(3) _ assms(4)] assms(2) show ?thesis
    by (auto simp: kept_or_reconciled_def split: sum.splits)
qed

section \<open>The cancel marker\<close>

lemma cancel_marker_other: "queue_job (cancel_marker_path p) = None" "record_job (cancel_marker_path p) = None"
  by (simp_all add: cancel_marker_path_def record_job_def)

text \<open>
  C18: A cancellation cannot be undone by an ingest that is still under way. While an ingest could overwrite the latch of a plan, a
  run of the reconciliation keeps its cancel marker, so the next run finds it and ends the plan again.
\<close>

theorem cancel_marker_kept:
  assumes "\<exists>m \<in> set manifests. pm_plan_id m = p"
    and "\<forall>m \<in> set manifests. pm_plan_id m = p \<longrightarrow> ingest_may_overwrite m (v_now v) (v_creating_max_age v)"
    and "present (w_fs w) (cancel_marker_path p)" "sched_ok (\<lambda>a. a \<noteq> A_del (cancel_marker_path p)) w"
    and "reconcile_plans x v manifests markers endings bodies w = (r, w')"
  shows "present (w_fs w') (cancel_marker_path p)"
proof -
  let ?A = "\<lambda>a. a \<noteq> A_del (cancel_marker_path p)" and ?I = "\<lambda>s. present s (cancel_marker_path p)"
  have up: "upheld ?A ?I"
    using present_perform_other [OF _ cancel_marker_other] by (simp add: upheld_def)
  have keep: "chl ?A ?I n (\<lambda>_. ?I) ?I" if "within (- {cancel_marker_path p}) n" for n :: "'b io"
    using that up by (rule withinD) (rule blind_present, simp)
  have drop: "within (- {cancel_marker_path p}) (collect_cancel_marker v k e st)" if "k \<in> set manifests" for k e st
    using that assms(2) unfolding collect_cancel_marker_def by (cases "pm_plan_id k = p") (auto intro!: within_intros simp: cancel_marker_path_def)
  have "within (- {cancel_marker_path p}) (put_plan x k)" for k
    unfolding put_plan_def by (rule within_replace) (auto simp: cancel_marker_path_def manifest_path_def tmp_sibling_def)
  then have one: "within (- {cancel_marker_path p}) (reconcile_one_plan x v k e st)" if "k \<in> set manifests" for k e st
    using drop [OF that] unfolding reconcile_one_plan_def write_reconciled_def Let_def
    by (auto intro!: within_intros within_counting split: prod.split)
  have "chl ?A ?I (reconcile_plans x v manifests markers endings bodies) (\<lambda>_. ?I) ?I"
  proof (rule chl_reconcile_plans)
    show "chl ?A ?I (reconcile_one_plan x v k e st) (\<lambda>_. ?I) ?I" if "k \<in> set manifests" for k e st
      by (rule keep [OF one [OF that]])
    show "chl ?A ?I (rec_io (collect_orphaned_marker q) st) (\<lambda>_. ?I) ?I" if "q \<notin> pm_plan_id ` set manifests" for q st
      by (rule keep [OF within_orphaned]) (use that assms(1) in \<open>auto simp: cancel_marker_path_def\<close>)
  qed
  from chlD [OF this assms(4,3,5)] show ?thesis
    by (auto split: sum.splits)
qed

section \<open>A lapse is recorded before its marker goes\<close>

text \<open>The plan holds the job, or its manifest says that the job lapsed for it.\<close>

definition member_or_lapsed :: "path \<Rightarrow> plan_id \<Rightarrow> job_id \<Rightarrow> fs \<Rightarrow> bool" where
  "member_or_lapsed k p j s \<longleftrightarrow> present s k \<or> (\<exists>m. stored p m s \<and> map_of (pm_expired_jobs m) j \<noteq> None)"

text \<open>Every manifest is stored under its own id.\<close>

definition well_named :: "fs \<Rightarrow> bool" where
  "well_named s \<longleftrightarrow> (\<forall>q m. stored q m s \<longrightarrow> pm_plan_id m = q)"

fun names_plan :: "act \<Rightarrow> bool" where
  "names_plan (A_put q (C_plan m)) \<longleftrightarrow> q = manifest_path (pm_plan_id m)"
| "names_plan _ \<longleftrightarrow> True"

definition leaves_membership :: "path \<Rightarrow> plan_id \<Rightarrow> act \<Rightarrow> bool" where
  "leaves_membership k p a \<longleftrightarrow> leaves_manifest p a \<and> names_plan a \<and> a \<noteq> A_del k"

definition lapse_inv :: "path \<Rightarrow> plan_id \<Rightarrow> job_id \<Rightarrow> fs \<Rightarrow> bool" where
  "lapse_inv k p j s \<longleftrightarrow> well_named s \<and> member_or_lapsed k p j s"

lemma manifest_path_inj: "manifest_path p = manifest_path q \<longleftrightarrow> p = q"
  by (simp add: manifest_path_def)

lemma stored_perform:
  "stored q m (perform a s) \<Longrightarrow> names_plan a \<Longrightarrow> stored q m s \<or> pm_plan_id m = q"
  using manifest_other [of q]
  by (cases a; cases "queue_job (manifest_path q)")
    (auto simp: stored_def lookup_mv put_def manifest_path_inj split: if_splits option.splits)

lemma lapse_upheld:
  assumes "queue_job k = None" "record_job k = None"
  shows "upheld (leaves_membership k p) (lapse_inv k p j)" "upheld (leaves_membership k p) (\<lambda>s. lapse_inv k p j s \<and> stored p m s)"
proof -
  have same: "leaves_membership k p a \<Longrightarrow> stored p m (perform a s) = stored p m s" for a s m
    using lookup_left_alone [OF _ disjI1 [OF refl]] by (simp add: leaves_membership_def stored_def)
  have named: "leaves_membership k p a \<Longrightarrow> well_named s \<Longrightarrow> well_named (perform a s)" for a s
    using stored_perform unfolding well_named_def leaves_membership_def by blast
  show "upheld (leaves_membership k p) (lapse_inv k p j)"
    using same named present_perform_other [OF _ assms]
    by (auto simp: upheld_def lapse_inv_def member_or_lapsed_def) (auto simp: leaves_membership_def)
  then show "upheld (leaves_membership k p) (\<lambda>s. lapse_inv k p j s \<and> stored p m s)"
    using same by (simp add: upheld_def)
qed

definition lapsed :: "plan_id \<Rightarrow> job_id \<Rightarrow> fs \<Rightarrow> bool" where
  "lapsed p j s \<longleftrightarrow> (\<exists>m. stored p m s \<and> map_of (pm_expired_jobs m) j \<noteq> None)"

lemma lapsed_inv: "well_named s \<Longrightarrow> lapsed p j s \<Longrightarrow> lapse_inv k p j s"
  by (auto simp: lapse_inv_def member_or_lapsed_def lapsed_def)

lemma lapsed_upheld: "upheld (leaves_membership k p) (\<lambda>s. well_named s \<and> lapsed p j s)"
proof -
  have "leaves_membership k p a \<Longrightarrow> stored p m (perform a s) = stored p m s" for a s m
    using lookup_left_alone [OF _ disjI1 [OF refl]] by (simp add: leaves_membership_def stored_def)
  moreover have "leaves_membership k p a \<Longrightarrow> well_named s \<Longrightarrow> well_named (perform a s)" for a s
    using stored_perform unfolding well_named_def leaves_membership_def by blast
  ultimately show ?thesis
    by (simp add: upheld_def lapsed_def)
qed

text \<open>Conditions on manifests do not look at files that are none.\<close>

lemma stored_cong: "(\<And>p. manifest_path p \<notin> S) \<Longrightarrow> (\<And>r. r \<notin> S \<Longrightarrow> lookup t r = lookup s r) \<Longrightarrow> stored p m t = stored p m s"
  by (simp add: stored_def)

lemma plan_conditions_blind:
  assumes "\<And>p. manifest_path p \<notin> S"
  shows "blind S (\<lambda>s. well_named s \<and> lapsed p j s)" "k \<notin> S \<Longrightarrow> blind S (lapse_inv k p j)"
    "k \<notin> S \<Longrightarrow> blind S (\<lambda>s. lapse_inv k p j s \<and> stored p m s)"
proof -
  have eq: "stored q m t = stored q m s" if "\<forall>r. r \<notin> S \<longrightarrow> lookup t r = lookup s r" for q m s t
    using stored_cong [OF assms] that by blast
  show "blind S (\<lambda>s. well_named s \<and> lapsed p j s)"
    unfolding blind_def lapsed_def well_named_def using eq by blast
  show "k \<notin> S \<Longrightarrow> blind S (lapse_inv k p j)" "k \<notin> S \<Longrightarrow> blind S (\<lambda>s. lapse_inv k p j s \<and> stored p m s)"
    unfolding blind_def lapse_inv_def well_named_def member_or_lapsed_def present_def using eq by metis+
qed

lemma lapse_tmp_blind:
  assumes "fst k \<noteq> D_plans"
  shows "blind plan_tmp (lapse_inv k p j)" "blind plan_tmp (\<lambda>s. lapse_inv k p j s \<and> stored p m s)"
  by (rule plan_conditions_blind; use assms manifest_not_tmp in \<open>auto simp: plan_tmp_def\<close>)+

lemma put_other_plan:
  assumes k: "queue_job k = None" "record_job k = None" "fst k \<noteq> D_plans" and q: "pm_plan_id m' = q" "q \<noteq> p"
  shows "chl (leaves_membership k p) (lapse_inv k p j) (put_plan x m') (\<lambda>_. lapse_inv k p j) (lapse_inv k p j)"
proof (rule chl_conseq [OF chl_put_plan [OF lapse_upheld(1) _ lapse_upheld(1), where p = q and p0 = p]])
  fix s t
  assume s: "lapse_inv k p j s" and t: "stored q m' t" "\<And>r. r \<noteq> manifest_path q \<Longrightarrow> r \<notin> plan_tmp \<Longrightarrow> lookup t r = lookup s r"
  show "lapse_inv k p j t"
    using s q put_effect(1) [OF t] put_effect(2) [OF t k(3)]
    unfolding lapse_inv_def well_named_def member_or_lapsed_def by simp
qed (use k q lapse_tmp_blind in \<open>auto simp: leaves_membership_def\<close>)

lemma put_own_plan:
  assumes k: "queue_job k = None" "record_job k = None" "fst k \<noteq> D_plans"
    and m': "pm_plan_id m' = p" "\<And>i. map_of (pm_expired_jobs m) i \<noteq> None \<Longrightarrow> map_of (pm_expired_jobs m') i \<noteq> None"
  shows "chl (leaves_membership k p) (\<lambda>s. lapse_inv k p j s \<and> stored p m s) (put_plan x m')
    (\<lambda>_ s. lapse_inv k p j s \<and> stored p m' s) (lapse_inv k p j)"
proof (rule chl_conseq [OF chl_put_plan [OF lapse_upheld(2) _ lapse_upheld(2), where p = p and p0 = p and m = m']])
  fix s t
  assume s: "lapse_inv k p j s \<and> stored p m s" and t: "stored p m' t" "\<And>r. r \<noteq> manifest_path p \<Longrightarrow> r \<notin> plan_tmp \<Longrightarrow> lookup t r = lookup s r"
  have "m'' = m" if "stored p m'' s" for m''
    using s that by (auto simp: stored_def)
  then show "lapse_inv k p j t \<and> stored p m' t"
    using s t(1) m' put_effect(1) [OF t] put_effect(2) [OF t k(3)]
    unfolding lapse_inv_def well_named_def member_or_lapsed_def by metis
qed (use k m' lapse_tmp_blind in \<open>auto simp: leaves_membership_def\<close>)

text \<open>Dropping the markers of a membership: of another one, or of this one once it has lapsed.\<close>

lemma drop_markers:
  assumes ids: "valid_job_id i" "valid_job_id j" "valid_plan_id q" "valid_plan_id p" and k: "k = job_plan_path x j p e"
  shows "chl (leaves_membership k p) (\<lambda>s. lapse_inv k p j s \<and> ((q, i) = (p, j) \<longrightarrow> lapsed p j s))
    (io_for ds (delete_job_plan_marker x i q)) (\<lambda>_. lapse_inv k p j) (lapse_inv k p j)"
proof (cases "(q, i) = (p, j)")
  case True
  have "within ({D_job_plans} \<times> UNIV) (io_for ds (delete_job_plan_marker x i q))"
    unfolding delete_job_plan_marker_def by (intro within_for within_remove_idempotent) (simp add: job_plan_path_def)
  then have "chl (leaves_membership k p) (\<lambda>s. well_named s \<and> lapsed p j s) (io_for ds (delete_job_plan_marker x i q))
      (\<lambda>_ s. well_named s \<and> lapsed p j s) (\<lambda>s. well_named s \<and> lapsed p j s)"
    by (rule withinD [OF _ lapsed_upheld plan_conditions_blind(1)]) (simp add: manifest_path_def)
  then show ?thesis
    by (rule chl_conseq) (use True in \<open>auto simp: lapsed_inv, auto simp: lapse_inv_def\<close>)
next
  case False
  then have "job_plan_path x i q d \<noteq> k" for d
    using job_plan_path_job [OF ids(1,2)] job_plan_path_eq [OF ids(3,4)] unfolding k by blast
  then have "within ({D_job_plans} \<times> UNIV - {k}) (io_for ds (delete_job_plan_marker x i q))"
    unfolding delete_job_plan_marker_def by (intro within_for within_remove_idempotent) (simp add: job_plan_path_def)
  then have "chl (leaves_membership k p) (lapse_inv k p j) (io_for ds (delete_job_plan_marker x i q))
      (\<lambda>_. lapse_inv k p j) (lapse_inv k p j)"
    by (rule withinD [OF _ lapse_upheld(1) plan_conditions_blind(2)]) (simp_all add: k job_plan_path_other manifest_path_def)
  then show ?thesis
    by (rule chl_conseq) auto
qed

text \<open>Recording the lapse of a stored manifest.\<close>

lemma record_expiry:
  assumes k: "queue_job k = None" "record_job k = None" "fst k \<noteq> D_plans"
    and m': "m' = m\<lparr>pm_expired_jobs := AList.update i v (pm_expired_jobs m)\<rparr>"
  shows "chl (leaves_membership k p) (\<lambda>s. lapse_inv k p j s \<and> stored q m s)
    (if map_of (pm_expired_jobs m) i \<noteq> None then io_ret m else io_bind (put_plan x m') (\<lambda>_. io_ret m'))
    (\<lambda>_ s. lapse_inv k p j s \<and> ((q, i) = (p, j) \<longrightarrow> lapsed p j s)) (lapse_inv k p j)"
proof (cases "pm_plan_id m = q")
  case False
  then have "\<not> (lapse_inv k p j s \<and> stored q m s)" for s
    by (auto simp: lapse_inv_def well_named_def)
  then show ?thesis
    unfolding chl_def by blast
next
  case True
  have put: "chl (leaves_membership k p) (\<lambda>s. lapse_inv k p j s \<and> stored q m s) (put_plan x m')
      (\<lambda>_ s. lapse_inv k p j s \<and> ((q, i) = (p, j) \<longrightarrow> lapsed p j s)) (lapse_inv k p j)"
  proof (cases "q = p")
    case True
    with \<open>pm_plan_id m = q\<close> have "pm_plan_id m' = p" "\<And>i. map_of (pm_expired_jobs m) i \<noteq> None \<Longrightarrow> map_of (pm_expired_jobs m') i \<noteq> None"
      by (auto simp: m' update_conv')
    from put_own_plan [OF k this] show ?thesis
      by (rule chl_conseq) (use True in \<open>auto simp: lapsed_def m' update_conv' intro!: exI [of _ m']\<close>)
  next
    case False
    show ?thesis
      by (rule chl_conseq [OF put_other_plan [OF k _ False]]) (use \<open>pm_plan_id m = q\<close> False in \<open>auto simp: m'\<close>)
  qed
  show ?thesis
    by (auto intro!: chl_ret chl_bind [OF put] simp: lapsed_def)
qed

lemma chl_record_one_lapse:
  assumes ids: "valid_job_id i" "valid_job_id j" "valid_plan_id q" "valid_plan_id p" and k: "k = job_plan_path x j p e"
  shows "chl (leaves_membership k p) (lapse_inv k p j) (record_one_lapse x markers q i horizon now) (\<lambda>_. lapse_inv k p j) (lapse_inv k p j)"
proof -
  have other: "queue_job k = None" "record_job k = None" "fst k \<noteq> D_plans"
    by (simp_all add: k job_plan_path_other) (simp add: job_plan_path_def)
  let ?m = "\<lambda>m. m\<lparr>pm_expired_jobs := AList.update i \<lparr>ej_horizon = horizon, ej_recorded_at = now\<rparr> (pm_expired_jobs m)\<rparr>"
  have "chl (leaves_membership k p) (\<lambda>s. lapse_inv k p j s \<and> stored q m s)
      (io_bind (if map_of (pm_expired_jobs m) i \<noteq> None then io_ret m else io_bind (put_plan x (?m m)) (\<lambda>_. io_ret (?m m))) (\<lambda>m.
       io_bind (io_for (map jm_expires_at (filter (\<lambda>k. jm_plan_id k = q \<and> jm_job_id k = i) markers))
           (delete_job_plan_marker x i q)) (\<lambda>_. io_ret (Some m)))) (\<lambda>_. lapse_inv k p j) (lapse_inv k p j)" for m
    by (rule chl_bind [OF record_expiry [OF other refl]]) (rule chl_bind [OF drop_markers [OF ids k]], rule chl_ret)
  then show ?thesis
    unfolding record_one_lapse_def Let_def
    by (intro chl_bind [OF chl_get_plan [OF lapse_upheld(1) [OF other(1,2)]]]) (auto intro: chl_ret split: option.split)
qed

text \<open>
  C19: No lapse is lost. Wherever the lapse pass fails or dies, a plan that held a job at the start either still has its
  marker of the job or its stored manifest says that the job lapsed for it, so the job is never taken for one the plan released.
\<close>

theorem lapse_recorded_first:
  assumes "valid_job_id j" "valid_plan_id p" "\<forall>k \<in> set markers. valid_job_id (jm_job_id k) \<and> valid_plan_id (jm_plan_id k)"
    and "well_named (w_fs w)" "present (w_fs w) (job_plan_path x j p e)"
    and "sched_ok (leaves_membership (job_plan_path x j p e) p) w"
    and "record_member_lapses x manifests markers cancel_markers stranded now creating_max_age w = (r, w')"
  shows "present (w_fs w') (job_plan_path x j p e) \<or> lapsed p j (w_fs w')"
proof -
  let ?k = "job_plan_path x j p e"
  let ?A = "leaves_membership ?k p" and ?I = "lapse_inv ?k p j"
  have up: "upheld ?A ?I"
    by (rule lapse_upheld) (simp_all add: job_plan_path_other)
  have probe: "within {} (has_record i)" for i
    unfolding has_record_def record_paths_def by (auto intro!: within_intros)
  have probed: "chl ?A ?I (attempt (has_record i)) (\<lambda>_. ?I) ?I" for i
    by (intro chl_attempt_keep withinD [OF probe up] plan_conditions_blind) simp_all
  have lapse: "chl ?A ?I (record_lapse x markers cancel_markers stranded now creating_max_age slots ((q, i), h) acc) (\<lambda>_. ?I) ?I"
    if "((q, i), h) \<in> set (member_horizons markers)" for q i h slots acc
  proof -
    have ids: "valid_job_id i" "valid_plan_id q"
      using that assms(3) by (auto simp: member_horizons_def)
    have one: "chl ?A ?I (attempt (record_one_lapse x markers q i d now)) (\<lambda>_. ?I) ?I" for d
      by (rule chl_attempt_keep) (rule chl_record_one_lapse [OF ids(1) assms(1) ids(2) assms(2) refl])
    show ?thesis
      unfolding record_lapse_def
      by (auto intro!: chl_ret chl_bind [OF probed] chl_bind [OF one] split: prod.split option.split sum.split)
  qed
  have "chl ?A ?I (record_member_lapses x manifests markers cancel_markers stranded now creating_max_age) (\<lambda>_. ?I) ?I"
    unfolding record_member_lapses_def by (rule chl_fold) (use lapse in \<open>auto simp: split_paired_all\<close>)
  from chlD [OF this assms(6) _ assms(7)] assms(4,5) show ?thesis
    by (auto simp: lapse_inv_def member_or_lapsed_def lapsed_def split: sum.splits)
qed

section \<open>Concrete passes\<close>

definition sample_plan :: "plan_status \<Rightarrow> plan_record" where
  "sample_plan st = \<lparr>pm_plan_id = ''plan-1'', pm_status = st, pm_campaign_id = None, pm_created_at = 0, pm_job_ids = [''j1''],
     pm_expired_jobs = [], pm_settled_jobs = [], pm_progress_snapshot = None, pm_terminal_at = None, pm_filed = JNull\<rparr>"

definition plan_file :: "plan_status \<Rightarrow> inode" where
  "plan_file st = \<lparr>f_content = C_plan (sample_plan st), f_mtime = 0\<rparr>"

definition sample_view :: "time \<Rightarrow> run_view" where
  "sample_view now = \<lparr>v_membership = membership_new [], v_avail = [], v_leased_ids = {}, v_live_ids = {}, v_crew = [],
     v_tags = fleet_tags_new [], v_now = now, v_creating_max_age = 10\<rparr>"

definition no_endings :: teardown_outcome where
  "no_endings = \<lparr>td_retired = {}, td_released = {}, td_perturbed = {}, td_failures = 0, to_avail = [], to_leased = [], to_stranded = {}\<rparr>"

text \<open>A plan whose only job has finished, while another plan is filed.\<close>

definition finished_world :: world where
  "finished_world = teardown_world
     [(manifest_path ''plan-1'', plan_file Active),
      (processed_path ''j1'', \<lparr>f_content = C_json (JObj [(''message_type'', JStr ''success'')]), f_mtime = 0\<rparr>)]
     [([], NoFault), ([A_put (manifest_path ''plan-2'') C_torn], NoFault)]"

theorem reconcile_sound_witness:
  "\<exists>m'. stored ''plan-1'' m' (w_fs (snd (reconcile_plans sample_ext (sample_view 100) [sample_plan Active] [] no_endings Map.empty finished_world)))
     \<and> well_reconciled (sample_view 100) (for_plan no_endings ''plan-1'' False) (sample_plan Active) m'"
proof -
  let ?run = "reconcile_plans sample_ext (sample_view 100) [sample_plan Active] [] no_endings Map.empty finished_world"
  have id: "pm_plan_id (sample_plan Active) = ''plan-1''"
    by (simp add: sample_plan_def)
  have start: "lookup (w_fs finished_world) (manifest_path ''plan-1'') = Some (plan_file Active)"
    "sched_ok (leaves_manifest ''plan-1'') finished_world"
    by code_simp+
  have "lookup (w_fs (snd ?run)) (manifest_path ''plan-1'') \<noteq> Some (plan_file Active)"
    by code_simp
  with reconcile_sound [of "[sample_plan Active]" "sample_plan Active" finished_world "plan_file Active" sample_ext "sample_view 100" "[]"
      no_endings Map.empty "fst ?run" "snd ?run"] start show ?thesis
    by (simp add: id)
qed

text \<open>A plan cancelled while it is being filed.\<close>

definition cancelling_world :: world where
  "cancelling_world = teardown_world
     [(manifest_path ''plan-1'', plan_file Creating), (cancel_marker_path ''plan-1'', marker_file)] []"

theorem cancel_marker_kept_witness:
  "present (w_fs (snd (reconcile_plans sample_ext (sample_view 5) [sample_plan Creating] [''plan-1''] no_endings Map.empty cancelling_world)))
     (cancel_marker_path ''plan-1'')"
proof (rule cancel_marker_kept)
  show "\<exists>m \<in> set [sample_plan Creating]. pm_plan_id m = ''plan-1''"
    "\<forall>m \<in> set [sample_plan Creating]. pm_plan_id m = ''plan-1'' \<longrightarrow>
       ingest_may_overwrite m (v_now (sample_view 5)) (v_creating_max_age (sample_view 5))"
    by code_simp+
  show "present (w_fs cancelling_world) (cancel_marker_path ''plan-1'')"
    "sched_ok (\<lambda>a. a \<noteq> A_del (cancel_marker_path ''plan-1'')) cancelling_world"
    by code_simp+
qed (rule prod.collapse [symmetric])

text \<open>A job whose horizon has passed.\<close>

definition lapsing_marker :: job_plan_marker where
  "lapsing_marker = \<lparr>jm_job_id = ''j1'', jm_plan_id = ''plan-1'', jm_expires_at = At 0, jm_written_at = 0\<rparr>"

definition lapsing_world :: world where
  "lapsing_world = teardown_world
     [(manifest_path ''plan-1'', plan_file Active), (job_plan_path sample_ext ''j1'' ''plan-1'' (At 0), marker_file)] []"

theorem lapse_recorded_first_witness:
  "\<not> present (w_fs (snd (record_member_lapses sample_ext [sample_plan Active] [lapsing_marker] {} {} 100 10 lapsing_world)))
       (job_plan_path sample_ext ''j1'' ''plan-1'' (At 0))
   \<and> lapsed ''plan-1'' ''j1'' (w_fs (snd (record_member_lapses sample_ext [sample_plan Active] [lapsing_marker] {} {} 100 10 lapsing_world)))"
proof
  let ?run = "record_member_lapses sample_ext [sample_plan Active] [lapsing_marker] {} {} 100 10 lapsing_world"
  show gone: "\<not> present (w_fs (snd ?run)) (job_plan_path sample_ext ''j1'' ''plan-1'' (At 0))"
    by code_simp
  have named: "well_named (w_fs lapsing_world)"
    by (auto simp: well_named_def stored_def lapsing_world_def teardown_world_def lookup_def manifest_path_def job_plan_path_def
        plan_file_def sample_plan_def)
  have start: "valid_job_id ''j1''" "valid_plan_id ''plan-1''"
    "\<forall>k \<in> set [lapsing_marker]. valid_job_id (jm_job_id k) \<and> valid_plan_id (jm_plan_id k)"
    "present (w_fs lapsing_world) (job_plan_path sample_ext ''j1'' ''plan-1'' (At 0))"
    "sched_ok (leaves_membership (job_plan_path sample_ext ''j1'' ''plan-1'' (At 0)) ''plan-1'') lapsing_world"
    by code_simp+
  from lapse_recorded_first [OF start(1-3) named start(4,5) prod.collapse [symmetric]] gone
  show "lapsed ''plan-1'' ''j1'' (w_fs (snd ?run))"
    by blast
qed

end
