(* ===== verification/Maintenance_Run.thy ===== *)
theory Maintenance_Run
  imports Plan_Lifecycle
begin

text \<open>
  A whole run of \<open>queue-maintenance\<close>: \<open>run\<close> of \<open>pipette-pipeline/src/queue_maintenance.rs\<close>, every
  pass in its order. The plan passes it calls (\<open>plan_maintenance.rs\<close>) are a record of computations:
  \<open>plan_maintenance\<close> is the code's own. In the histories of \<open>Queue_System\<close> they are \<open>detached\<close>: another process, whose
  effect on the queue is in the schedule, and here only what it reports. Metrics and logging are left out, and
  \<open>repair_outcomes\<close>, which does nothing in the local backend.
\<close>

record plan_passes =
  pp_read :: "(plan_id list \<times> plan_record list) io"
  pp_tear_down :: "plan_record list \<Rightarrow> plan_id set \<Rightarrow> membership \<Rightarrow> avail_key list \<Rightarrow> lease list \<Rightarrow> time \<Rightarrow> time \<Rightarrow>
    teardown_outcome io"
  pp_lapses :: "plan_record list \<Rightarrow> job_plan_marker list \<Rightarrow> plan_id set \<Rightarrow> plan_id set \<Rightarrow> time \<Rightarrow> time \<Rightarrow>
    (plan_record list \<times> nat) io"
  pp_reconcile :: "run_view \<Rightarrow> plan_record list \<Rightarrow> plan_id list \<Rightarrow> teardown_outcome \<Rightarrow> bodies \<Rightarrow> reconcile_state io"
  pp_index_gc :: "plan_record list \<Rightarrow> job_plan_marker list \<Rightarrow> job_id set \<Rightarrow> string list \<Rightarrow> time \<Rightarrow> time \<Rightarrow>
    (string list \<times> nat) io"
  pp_source_gc :: "string list \<Rightarrow> time \<Rightarrow> time \<Rightarrow> (string list \<times> nat) io"

text \<open>Markers before manifests, and both before the queue.\<close>

definition read_plans :: "nat \<Rightarrow> (plan_id list \<times> plan_record list) io" where
  "read_plans pages =
     io_bind list_cancel_markers (\<lambda>cancel_markers.
     io_bind (drain_plans pages None []) (\<lambda>manifests.
       io_ret (cancel_markers, manifests)))"

definition plan_maintenance :: "ext \<Rightarrow> nat \<Rightarrow> plan_passes" where
  "plan_maintenance x pages =
     \<lparr>pp_read = read_plans pages, pp_tear_down = tear_down_plans x, pp_lapses = record_member_lapses x,
      pp_reconcile = reconcile_plans x, pp_index_gc = gc_plan_index x, pp_source_gc = gc_pending_plan_sources\<rparr>"

definition fleet_rights_new :: "(client_id \<times> client_permission_set) list \<Rightarrow> fleet_rights" where
  "fleet_rights_new sets = map_of (rev sets)"

section \<open>The passes that end entries\<close>

record settled =
  s_keys :: "avail_key list"
  s_leased :: "lease list"
  s_leased_at_recycle :: "job_id set"
  s_terminal :: "job_id set"
  s_markers :: "job_plan_marker list"
  s_manifests :: "plan_record list"
  s_endings :: teardown_outcome
  s_bodies :: bodies
  s_failures :: nat

definition settle_passes ::
  "maintenance \<Rightarrow> plan_passes \<Rightarrow> plan_id list \<Rightarrow> plan_record list \<Rightarrow> time \<Rightarrow> settled io" where
  "settle_passes m pp cancel_markers manifests now =
     io_bind (settle_expired_leases m now) (\<lambda>(leased_at_recycle, resolved, lease_failures).
     io_bind (collect_all_avail (m_ext m)) (\<lambda>listing.
     io_bind list_leased (\<lambda>leased_keys.
     io_bind (list_all_job_plan_markers (m_ext m)) (\<lambda>markers.
     io_bind (pp_tear_down pp manifests (set cancel_markers) (membership_new markers) (al_keys listing)
         (List.map_filter (ok \<circ> parse_leased_key (m_ext m)) leased_keys) now (m_plan_creating_max m)) (\<lambda>endings.
     io_bind (pp_lapses pp manifests markers (set cancel_markers) (to_stranded endings) now (m_plan_creating_max m))
       (\<lambda>(manifests, lapse_failures).
     io_bind (expire_overdue_jobs m (to_avail endings) now) (\<lambda>(keys, expired, expiry_failures).
     io_bind (retire_unmatchable_jobs m keys (\<lambda>_. None) now) (\<lambda>((keys, retired, retirement_failures), bodies).
     io_bind (escalate_all_denied_jobs m keys bodies now) (\<lambda>((keys, escalated, escalation_failures), bodies).
       io_ret \<lparr>s_keys = keys, s_leased = to_leased endings,
         s_leased_at_recycle = leased_at_recycle,
         s_terminal = expired \<union> retired \<union> escalated \<union> resolved \<union> td_retired endings,
         s_markers = markers, s_manifests = manifests, s_endings = endings, s_bodies = bodies,
         s_failures = lease_failures + td_failures endings + lapse_failures + expiry_failures
           + retirement_failures + escalation_failures\<rparr>)))))))))"

definition live_ids_of :: "settled \<Rightarrow> job_id set" where
  "live_ids_of st =
     set (map ak_job_id (s_keys st)) \<union> set (map l_job_id (s_leased st)) \<union> (s_leased_at_recycle st - s_terminal st)"

section \<open>The index passes\<close>

definition withheld_jobs :: "settled \<Rightarrow> job_id list" where
  "withheld_jobs st =
     uncommitted_jobs (map ak_job_id (s_keys st) @ map l_job_id (s_leased st)) (s_markers st) (s_manifests st)"

definition indexable_leased_avail_keys :: "ext \<Rightarrow> job_id list \<Rightarrow> lease list \<Rightarrow> string list" where
  "indexable_leased_avail_keys x withheld leases =
     remdups (map (\<lambda>l. avail_filename x (l_job_id l) (l_expires_at l))
       (filter (\<lambda>l. l_job_id l \<notin> set withheld) leases))"

definition index_passes ::
  "maintenance \<Rightarrow> fleet \<Rightarrow> client list \<Rightarrow> fleet_tags \<Rightarrow> job_id list \<Rightarrow> settled \<Rightarrow> bodies io" where
  "index_passes m fleet crew tags withheld st =
     (let x = m_ext m; worker_ids = remdups (map client_id crew);
          indexable = filter (\<lambda>a. ak_job_id a \<notin> set withheld) (s_keys st);
          leased_avail = indexable_leased_avail_keys x withheld (s_leased st) in
      io_bind read_eligible_workers (\<lambda>indexed_workers.
      io_bind (track_worker_changes indexed_workers worker_ids) (\<lambda>joined.
      io_bind (index_new_jobs x crew tags indexable leased_avail (s_bodies st)) (\<lambda>bodies.
      io_bind (reindex_flagged_clients x fleet worker_ids joined indexable
          (map l_job_id (s_leased st)) bodies) (\<lambda>bodies.
      io_bind (io_when (set indexed_workers \<noteq> set worker_ids) (write_eligible_workers worker_ids)) (\<lambda>_.
      io_bind (settle_pending_reindex_jobs x fleet worker_ids indexable bodies) (\<lambda>(_, bodies).
        io_ret bodies)))))))"

section \<open>The collecting passes\<close>

text \<open>The deadline of each job with one entry in \<open>avail/\<close>.\<close>

definition avail_expiries_of :: "avail_key list \<Rightarrow> job_id \<Rightarrow> expires_at option" where
  "avail_expiries_of keys j =
     (case filter (\<lambda>a. ak_job_id a = j) keys of [a] \<Rightarrow> Some (ak_expires_at a) | _ \<Rightarrow> None)"

definition gc_passes ::
  "maintenance \<Rightarrow> plan_id list \<Rightarrow> client list \<Rightarrow> string list \<Rightarrow> job_id list \<Rightarrow> settled \<Rightarrow> time \<Rightarrow> string list io" where
  "gc_passes m cancel_markers clients prior withheld st now =
     (let x = m_ext m; expiries = avail_expiries_of (s_keys st) in
      io_bind (list_all_eligible x) (\<lambda>marks.
      io_bind (io_for (filter (\<lambda>(_, j, _). j \<in> set withheld) marks) (\<lambda>(c, j, e). delete_eligible x c j e)) (\<lambda>_.
      let marks = filter (\<lambda>(_, j, _). j \<notin> set withheld) marks in
      io_bind list_all_denied (\<lambda>denied.
      io_bind (reconcile_orphans x \<lparr>gc_live_jobs = live_ids_of st, gc_live_clients = set (map client_id clients),
          gc_avail_expiries = expiries, gc_terminal_jobs = s_terminal st, gc_prior = prior\<rparr> marks denied) (\<lambda>staged.
      let claimable = claimable_markers marks expiries denied now in
      io_bind (attempt (write_backlog x now (count_backlog claimable))) (\<lambda>_.
      io_bind (attempt (write_campaign_backlog x now (count_campaign_backlog claimable
          (job_campaigns (s_markers st) (s_manifests st) (set cancel_markers) (to_stranded (s_endings st)) now)))) (\<lambda>_.
        io_ret staged)))))))"

section \<open>The plan passes at the end\<close>

definition view_of :: "maintenance \<Rightarrow> client list \<Rightarrow> fleet_tags \<Rightarrow> settled \<Rightarrow> time \<Rightarrow> run_view" where
  "view_of m crew tags st now =
     \<lparr>v_membership = membership_new (s_markers st), v_avail = s_keys st, v_leased_ids = set (map l_job_id (s_leased st)),
      v_live_ids = live_ids_of st, v_crew = crew, v_tags = tags, v_now = now,
      v_creating_max_age = m_plan_creating_max m\<rparr>"

definition closing_passes ::
  "maintenance \<Rightarrow> plan_passes \<Rightarrow> plan_id list \<Rightarrow> run_view \<Rightarrow> string list \<Rightarrow> settled \<Rightarrow> bodies \<Rightarrow> time \<Rightarrow>
   (string list \<times> nat) io" where
  "closing_passes m pp cancel_markers view prior st bodies now =
     io_bind (pp_reconcile pp view (s_manifests st) cancel_markers (s_endings st) bodies) (\<lambda>reconciled.
     io_bind (pp_index_gc pp (s_manifests st) (s_markers st) (live_ids_of st) prior now (m_plan_creating_max m))
       (\<lambda>(index_candidates, index_failures).
     io_bind (pp_source_gc pp prior now (m_plan_creating_max m)) (\<lambda>(source_candidates, source_failures).
       io_ret (index_candidates @ source_candidates, rs_failures reconciled + index_failures + source_failures))))"

section \<open>The run\<close>

text \<open>The sightings of the last run are cleared at once; then the plans are read.\<close>

definition begin_run :: "plan_passes \<Rightarrow> (string list \<times> plan_id list \<times> plan_record list) io" where
  "begin_run pp =
     io_bind read_gc_candidates (\<lambda>prior.
     io_bind (write_gc_candidates []) (\<lambda>_.
     io_bind (pp_read pp) (\<lambda>plans. io_ret (prior, plans))))"

definition run_passes ::
  "maintenance \<Rightarrow> fleet \<Rightarrow> (nat \<Rightarrow> (err, (client_id \<times> client_permission_set) list) result) \<Rightarrow>
   plan_passes \<Rightarrow> nat \<Rightarrow> time \<Rightarrow> string list \<Rightarrow> plan_id list \<Rightarrow> plan_record list \<Rightarrow> unit io" where
  "run_passes m fleet permissions pp tmp_max now prior cancel_markers manifests =
     io_bind (settle_passes m pp cancel_markers manifests now) (\<lambda>st.
     io_bind (ask (r_clients fleet)) (\<lambda>(clients, _).
     io_bind (ask (r_tag_markers fleet)) (\<lambda>tag_markers.
     io_bind (ask permissions) (\<lambda>sets.
     let withheld = withheld_jobs st; tags = fleet_tags_new tag_markers;
         crew = workers (fleet_rights_new sets) clients in
     io_bind (index_passes m fleet crew tags withheld st) (\<lambda>bodies.
     io_bind (gc_passes m cancel_markers clients prior withheld st now) (\<lambda>staged.
     io_bind (closing_passes m pp cancel_markers (view_of m crew tags st now) prior st bodies now)
       (\<lambda>(candidates, plan_failures).
     io_bind (write_gc_candidates (remdups (staged @ candidates))) (\<lambda>_.
     io_bind (cleanup_stale_tmp tmp_max) (\<lambda>_.
       if 0 < s_failures st + plan_failures then io_raise E_bail else io_ret ())))))))))"

definition run ::
  "maintenance \<Rightarrow> fleet \<Rightarrow> (nat \<Rightarrow> (err, (client_id \<times> client_permission_set) list) result) \<Rightarrow>
   plan_passes \<Rightarrow> nat \<Rightarrow> unit io" where
  "run m fleet permissions pp tmp_max =
     io_bind utc_now (\<lambda>now.
     io_bind (begin_run pp) (\<lambda>(prior, cancel_markers, manifests).
       run_passes m fleet permissions pp tmp_max now prior cancel_markers manifests))"

section \<open>Under any interference\<close>

text \<open>The plan passes as another process: they do nothing here, and take entries out of the listing only.\<close>

definition detached :: "plan_passes \<Rightarrow> bool" where
  "detached pp \<longleftrightarrow> off_tree (pp_read pp)
     \<and> (\<forall>ms cm mem av ls now gate. off_tree (pp_tear_down pp ms cm mem av ls now gate)
         \<and> (\<forall>w out. fst (pp_tear_down pp ms cm mem av ls now gate w) = Inr out \<longrightarrow> set (to_avail out) \<subseteq> set av))
     \<and> (\<forall>ms mk cm st now gate. off_tree (pp_lapses pp ms mk cm st now gate))
     \<and> (\<forall>v ms cm out bs. off_tree (pp_reconcile pp v ms cm out bs))
     \<and> (\<forall>ms mk live prior now gate. off_tree (pp_index_gc pp ms mk live prior now gate))
     \<and> (\<forall>prior now gate. off_tree (pp_source_gc pp prior now gate))"

context entry_guarantee
begin

definition settled_ok :: "settled \<Rightarrow> bool" where
  "settled_ok st \<longleftrightarrow> list_all avail_ok (s_keys st) \<and> cache_ok (s_bodies st)"

text \<open>What the run needs of the plan passes, with the plans it has read.\<close>

definition passes_ok :: "plan_passes \<Rightarrow> time \<Rightarrow> time \<Rightarrow> plan_id list \<Rightarrow> plan_record list \<Rightarrow> bool" where
  "passes_ok pp now gate cm ms \<longleftrightarrow>
     (\<forall>mem av ls. wf_leases ls \<longrightarrow>
        knows (pp_tear_down pp ms (set cm) mem av ls now gate) (\<lambda>out. set (to_avail out) \<subseteq> set av))
     \<and> (\<forall>mk st. safe (pp_lapses pp ms mk (set cm) st now gate))
     \<and> (\<forall>v ms out bs. safe (pp_reconcile pp v ms cm out bs))
     \<and> (\<forall>ms mk live prior. safe (pp_index_gc pp ms mk live prior now gate))
     \<and> (\<forall>prior. safe (pp_source_gc pp prior now gate))"

lemma knows_off_tree:
  assumes "off_tree m" "\<And>w a. fst (m w) = Inr a \<Longrightarrow> Q a"
  shows "knows m Q"
  unfolding knows_def rg_def
proof (intro allI impI)
  fix w r w'
  assume w: "sched_ok A w \<and> Inv (w_fs w) \<and> anyfs (w_fs w) \<and> m w = (r, w')"
  then have "w_fs w' = w_fs w" "w_sched w' = w_sched w"
    using assms(1) unfolding off_tree_def by (metis snd_conv)+
  with w assms(2) [of w] show "sched_ok A w' \<and> R (w_fs w) (w_fs w') \<and> (\<forall>a. r = Inr a \<longrightarrow> Q a)"
    by (simp add: R_refl sched_ok_def)
qed

lemma safe_off_tree: "off_tree m \<Longrightarrow> safe m"
  by (rule knows_safe [OF knows_off_tree [where Q = "\<lambda>_. True"]]) simp_all

lemma passes_ok_detached:
  assumes "detached pp"
  shows "passes_ok pp now gate cm ms"
proof -
  have "fst (pp_tear_down pp ms (set cm) mem av ls now gate w) = Inr out \<Longrightarrow> set (to_avail out) \<subseteq> set av" for mem av ls w out
    using assms unfolding detached_def by (elim conjE) blast
  then show ?thesis
    unfolding passes_ok_def
    by (intro conjI allI impI knows_off_tree safe_off_tree) (use assms in \<open>simp_all add: detached_def\<close>)
qed

lemma knows_case_prod: "(\<And>a b. p = (a, b) \<Longrightarrow> knows (f a b) Q) \<Longrightarrow> knows (case p of (a, b) \<Rightarrow> f a b) Q"
  by (cases p) simp

lemma wf_parsed: "wf_leases (List.map_filter (ok \<circ> parse_leased_key x) ks)"
  unfolding wf_leases_def list_all_iff by (auto simp: set_map_filter dest: parse_lease_valid)

lemma knows_settle_passes:
  assumes "may_settle m now" "passes_ok pp now (m_plan_creating_max m) cm ms"
  shows "knows (settle_passes m pp cm ms now) settled_ok"
proof -
  have escalate: "knows (io_bind (escalate_all_denied_jobs m keys bodies now)
      (\<lambda>((keys, escalated, fl), bodies). io_ret (f keys escalated fl bodies))) settled_ok"
    if "list_all avail_ok keys" "cache_ok bodies" "\<And>keys e fl bodies. pass_ok ((keys, e, fl), bodies) \<Longrightarrow> settled_ok (f keys e fl bodies)"
    for keys bodies f
    using that by (intro knows_bind [OF knows_escalate_all_denied] knows_case_prod assms(1)) (auto intro!: knows_ret)
  have retire: "knows (io_bind (retire_unmatchable_jobs m keys (\<lambda>_. None) now) (\<lambda>((keys, retired, fl), bodies).
      io_bind (escalate_all_denied_jobs m keys bodies now)
      (\<lambda>((keys, escalated, fl'), bodies). io_ret (f retired fl keys escalated fl' bodies)))) settled_ok"
    if "list_all avail_ok keys"
      "\<And>retired fl keys e fl' bodies. pass_ok ((keys, e, fl'), bodies) \<Longrightarrow> settled_ok (f retired fl keys e fl' bodies)"
    for keys f
    using that
    by (intro knows_bind [OF knows_retire_unmatchable] knows_case_prod cache_ok_empty assms(1))
      (auto simp: pass_ok_def intro!: escalate)
  have tear_down: "knows (pp_tear_down pp ms (set cm) mem av (List.map_filter (ok \<circ> parse_leased_key (m_ext m)) ks)
      now (m_plan_creating_max m)) (\<lambda>out. list_all avail_ok (to_avail out))" if "list_all avail_ok av" for mem av ks
  proof -
    have "knows (pp_tear_down pp ms (set cm) mem av (List.map_filter (ok \<circ> parse_leased_key (m_ext m)) ks)
        now (m_plan_creating_max m)) (\<lambda>out. set (to_avail out) \<subseteq> set av)"
      using assms(2) wf_parsed unfolding passes_ok_def by blast
    then show ?thesis
      by (rule knows_mono) (use that in \<open>auto simp: list_all_iff\<close>)
  qed
  have lapses: "safe (pp_lapses pp ms mk (set cm) st now (m_plan_creating_max m))" for mk st
    using assms(2) unfolding passes_ok_def by blast
  show ?thesis
    unfolding settle_passes_def
    by (intro knows_bind [OF safe_knows [OF safe_settle_expired_leases]] knows_case_prod
        knows_bind [OF knows_collect_all_avail] knows_bind [OF safe_knows [OF safe_todo_reads(5)]]
        knows_bind [OF safe_knows [OF safe_job_plans(3)]] knows_bind [OF tear_down] knows_bind [OF safe_knows [OF lapses]]
        knows_bind [OF knows_expire_overdue_jobs] retire assms(1))
      (auto simp: settled_ok_def pass_ok_def)
qed

lemma safe_index_passes:
  assumes "settled_ok st"
  shows "safe (index_passes m fleet crew tags withheld st)"
proof -
  have keys: "list_all avail_ok (filter (\<lambda>a. ak_job_id a \<notin> set withheld) (s_keys st))" "cache_ok (s_bodies st)"
    using assms by (auto simp: settled_ok_def list_all_iff)
  show ?thesis
    unfolding index_passes_def Let_def
    by (intro safe_bind safe_key_sets safe_track_worker_changes knows_bind_safe [OF knows_index_new_jobs]
        knows_bind_safe [OF knows_reindex_flagged] knows_safe [OF knows_settle_pending_jobs] keys
        safe_when safe_todo_writes safe_prod safe_ret)
qed

lemma safe_gc_passes:
  "may_collect (m_ext m) (set (map client_id clients)) \<Longrightarrow> safe (gc_passes m cm clients prior withheld st now)"
  unfolding gc_passes_def Let_def
  by (intro safe_intros safe_todo_reads safe_todo_writes safe_reconcile_orphans) simp_all

lemma safe_closing_passes:
  assumes "passes_ok pp now (m_plan_creating_max m) cm ms"
  shows "safe (closing_passes m pp cm view prior st bodies now)"
  unfolding closing_passes_def
  by (intro safe_bind safe_prod safe_ret; use assms in \<open>simp add: passes_ok_def\<close>)

lemma knows_ask: "knows (ask f) (\<lambda>a. \<exists>n. f n = Inr a)"
  by (auto simp: knows_def rg_def ask_def R_refl sched_ok_def)

definition may_run :: "maintenance \<Rightarrow> fleet \<Rightarrow> time \<Rightarrow> bool" where
  "may_run m fleet now \<longleftrightarrow> may_settle m now
     \<and> (\<forall>n clients u. r_clients fleet n = Inr (clients, u) \<longrightarrow> may_collect (m_ext m) (set (map client_id clients)))"

text \<open>The passes, with the plans they were given.\<close>

lemma safe_run_passes:
  assumes "may_run m fleet T" "passes_ok pp T (m_plan_creating_max m) cm ms"
  shows "safe (run_passes m fleet permissions pp tmp_max T prior cm ms)"
proof -
  have settle: "may_settle m T" and collect: "r_clients fleet n = Inr (clients, u) \<Longrightarrow>
      may_collect (m_ext m) (set (map client_id clients))" for n clients u
    using assms(1) unfolding may_run_def by blast+
  show ?thesis
    unfolding run_passes_def Let_def
    by (intro safe_bind safe_key_sets safe_todo_writes knows_bind_safe [OF knows_settle_passes [OF settle assms(2)]]
        knows_bind_safe [OF knows_ask] safe_ask safe_prod safe_index_passes safe_gc_passes
        safe_closing_passes [OF assms(2)] safe_cleanup_stale_tmp safe_if safe_raise safe_ret; auto dest: collect)
qed

end

context queue_guarantee
begin

lemma safe_run:
  assumes "detached pp"
  shows "safe (run m fleet permissions pp tmp_max)"
proof -
  have "safe (pp_read pp)"
    by (rule safe_off_tree) (use assms in \<open>simp add: detached_def\<close>)
  then have first: "safe (begin_run pp)"
    unfolding begin_run_def by (intro safe_bind safe_key_sets safe_todo_writes safe_ret)
  have rest: "safe (run_passes m fleet permissions pp tmp_max T prior cm ms)" for T prior cm ms
    by (rule safe_run_passes [OF _ passes_ok_detached [OF assms]]) (simp add: may_run_def may_settle_def may_collect_def)
  show ?thesis
    unfolding run_def by (intro safe_bind safe_now safe_prod first rest)
qed

end

end
