(* ===== verification/Sample_Service.thy ===== *)
theory Sample_Service
  imports Submit_Api Maintenance_Run
begin

text \<open>
  A concrete service on which the properties of whole requests are evaluated: one available job,
  eligible for the client \<open>dev\<close>, one job leased to the client \<open>box\<close>, and the record of a third.
\<close>

definition sample_app :: app where
  "sample_app = \<lparr>a_ext = sample_ext, plan_lease_duration_secs = 3, plan_lost_lease_limit = 2,
     a_orgs = sample_orgs, a_client_tags = (\<lambda>_. Inr []), a_tiebreak = (\<lambda>_. Some 0),
     a_first = (\<lambda>js. case js of j # _ \<Rightarrow> j | [] \<Rightarrow> [])\<rparr>"

definition sample_job :: "job_id \<Rightarrow> json" where
  "sample_job j = JObj [(''job_id'', JStr j), (''requires'', JArr [JStr ''gpu'']), (''spec'', JObj [(''benchmark'', JStr ''mmlu'')])]"

definition sample_queue :: fs where
  "sample_queue = \<lparr>files =
     [((D_avail, ''j1/never.json''), \<lparr>f_content = C_json (sample_job ''j1''), f_mtime = 0\<rparr>),
      ((D_eligible, ''dev/j1.never''), \<lparr>f_content = C_empty, f_mtime = 0\<rparr>),
      ((D_leased, ''box/j4.never.00.json''), \<lparr>f_content = C_json (sample_job ''j4''), f_mtime = 0\<rparr>),
      ((D_incoming, ''j2.json''), \<lparr>f_content = C_json JNull, f_mtime = 0\<rparr>)],
     clock = 0\<rparr>"

text \<open>While a request runs, the scorer writes a record; a call fails, another kills the process.\<close>

definition sample_world :: world where
  "sample_world = \<lparr>w_fs = sample_queue, w_draws = 0,
     w_sched = [([A_record (D_to_do, ''j3.json'') (C_json JNull)], NoFault), ([], FailAfter), ([A_tick 1], NoFault),
       ([], Crash)]\<rparr>"

text \<open>The same, undisturbed.\<close>

definition sample_quiet :: world where
  "sample_quiet = \<lparr>w_fs = sample_queue, w_draws = 0, w_sched = []\<rparr>"

definition sample_device :: client where
  "sample_device = sample_client ''dev'' {''gpu''}"

definition sample_maintenance :: maintenance where
  "sample_maintenance = \<lparr>m_ext = sample_ext, m_catalog = (\<lambda>_. None), m_wording = plain_wording,
     m_lost_lease_limit = 2, m_plan_creating_max = 10 * second\<rparr>"

definition sample_fleet :: fleet where
  "sample_fleet = \<lparr>r_clients = (\<lambda>_. Inr ([sample_device, sample_client ''box'' {}], 0)),
     r_get_client = (\<lambda>_ c. Inr (Some (sample_client c {}))), r_client_tags = (\<lambda>_ _. Inr []), r_tag_markers = (\<lambda>_. Inr [])\<rparr>"

text \<open>Plan passes of another process that reports nothing.\<close>

definition idle_plans :: plan_passes where
  "idle_plans = \<lparr>pp_read = io_ret ([], []),
     pp_tear_down = (\<lambda>ms cm mem av ls now gate. io_ret \<lparr>td_retired = {}, td_released = {}, td_perturbed = {},
       td_failures = 0, to_avail = av, to_leased = ls, to_stranded = {}\<rparr>),
     pp_lapses = (\<lambda>ms mk cm st now gate. io_ret (ms, 0)),
     pp_reconcile = (\<lambda>v ms cm out bs. io_ret \<lparr>rs_bodies = bs, rs_settled = Map.empty, rs_failures = 0, rs_probes = 0,
       rs_reconciled = 0\<rparr>),
     pp_index_gc = (\<lambda>ms mk live prior now gate. io_ret ([], 0)), pp_source_gc = (\<lambda>prior now gate. io_ret ([], 0))\<rparr>"

lemma idle_plans_detached: "detached idle_plans"
  by (simp add: detached_def idle_plans_def off_tree_def io_ret_def)

lemma sample_device_valid: "valid_client_id (client_id sample_device)"
  unfolding sample_device_def by simp code_simp

end
