(* ===== verification/Warehouse.thy ===== *)
theory Warehouse
  imports Crash_Logic "HOL-Library.Sublist"
begin

text \<open>
  The metric warehouse on the local file system: \<open>pipette-core/src/warehouse.rs\<close> and
  \<open>LocalFsWarehouseStore\<close> of \<open>pipette-store-fs/src/lib.rs\<close>. A day partition is a directory of part
  files; a write extends the tail part up to a cap and rolls over to new parts. A Parquet file is
  the rows that were written to it.

  The partition only grows, and by a prefix of the new rows wherever a write fails or dies.
\<close>

section \<open>Day partitions\<close>

definition day :: time where
  "day = 86400 * second"

definition day_partition_is_open :: "time \<Rightarrow> time \<Rightarrow> time \<Rightarrow> bool" where
  "day_partition_is_open submitted_at now lock_age \<longleftrightarrow>
     (let day_start = submitted_at - submitted_at mod day in now - day_start < lock_age)"

definition warehouse_day_partition_dir :: "string \<Rightarrow> client_id \<Rightarrow> string \<Rightarrow> string" where
  "warehouse_day_partition_dir benchmark_id client_id day_key =
     ''benchmark_id='' @ benchmark_id @ ''/client_id='' @ client_id @ ''/day='' @ day_key"

section \<open>Part files\<close>

text \<open>\<open>{:04}\<close>: at least four digits.\<close>

definition pad4 :: "nat \<Rightarrow> string" where
  "pad4 n = replicate (4 - length (nat_str n)) CHR ''0'' @ nat_str n"

definition part_name :: "nat \<Rightarrow> string" where
  "part_name n = ''part-'' @ pad4 n @ ''.parquet''"

text \<open>\<open>str::parse::<usize>\<close>: an optional plus, then digits, on a 64-bit target.\<close>

definition is_digit :: "char \<Rightarrow> bool" where
  "is_digit c \<longleftrightarrow> 48 \<le> (of_char c :: nat) \<and> (of_char c :: nat) \<le> 57"

definition digits_val :: "string \<Rightarrow> nat" where
  "digits_val s = foldl (\<lambda>n c. 10 * n + ((of_char c :: nat) - 48)) 0 s"

definition parse_usize :: "string \<Rightarrow> nat option" where
  "parse_usize s =
     (let ds = (case s of c # r \<Rightarrow> if c = CHR ''+'' then r else s | [] \<Rightarrow> s) in
      if ds \<noteq> [] \<and> list_all is_digit ds \<and> digits_val ds < 2 ^ 64 then Some (digits_val ds) else None)"

definition strip_prefix :: "string \<Rightarrow> string \<Rightarrow> string option" where
  "strip_prefix p s = (if starts_with p s then Some (drop (length p) s) else None)"

definition part_index :: "string \<Rightarrow> nat option" where
  "part_index file_name =
     Option.bind (Option.bind (strip_prefix ''part-'' file_name) (strip_suffix ''.parquet'')) parse_usize"

definition part_path :: "string \<Rightarrow> nat \<Rightarrow> path" where
  "part_path d n = (D_warehouse, d @ ''/'' @ part_name n)"

definition write_parquet_atomic :: "ext \<Rightarrow> string \<Rightarrow> nat \<Rightarrow> json list \<Rightarrow> unit io" where
  "write_parquet_atomic x d n rows = replace_atomically x (D_warehouse, d @ ''/'') (part_path d n) (C_rows rows)"

fun decode_rows :: "content \<Rightarrow> (err, json list) result" where
  "decode_rows (C_rows rows) = Inr rows"
| "decode_rows _ = Inl E_corrupt"

text \<open>\<open>max_by_key\<close>: the last of the greatest.\<close>

fun max_by_index :: "(nat \<times> 'a) list \<Rightarrow> (nat \<times> 'a) option" where
  "max_by_index [] = None"
| "max_by_index (e # es) =
     (case max_by_index es of
        None \<Rightarrow> Some e
      | Some m \<Rightarrow> if fst e \<le> fst m then Some m else Some e)"

definition tail_part :: "string \<Rightarrow> (nat \<times> json list) option io" where
  "tail_part d =
     io_bind (read_dir D_warehouse d) (\<lambda>es.
     io_bind (io_lift (all_readable es)) (\<lambda>es.
       case max_by_index (List.map_filter (\<lambda>(n, _). map_option (\<lambda>i. (i, n)) (part_index n)) es) of
         None \<Rightarrow> io_ret None
       | Some (i, n) \<Rightarrow>
           io_bind (read_file (D_warehouse, d @ ''/'' @ n)) (\<lambda>c.
           io_bind (io_lift (decode_rows c)) (\<lambda>rows. io_ret (Some (i, rows))))))"

text \<open>\<open>slice::chunks\<close>, for a size that is not zero.\<close>

function chunks :: "nat \<Rightarrow> 'a list \<Rightarrow> 'a list list" where
  "chunks n xs = (if n = 0 \<or> xs = [] then [] else take n xs # chunks n (drop n xs))"
  by pat_completeness auto
termination
  by (relation "measure (\<lambda>(n, xs). length xs)") auto

declare chunks.simps [simp del]

fun write_parts :: "ext \<Rightarrow> string \<Rightarrow> nat \<Rightarrow> json list list \<Rightarrow> unit io" where
  "write_parts x d i [] = io_ret ()"
| "write_parts x d i (c # cs) = io_bind (write_parquet_atomic x d i c) (\<lambda>_. write_parts x d (Suc i) cs)"

text \<open>A cap of zero makes \<open>chunks\<close> panic.\<close>

definition write_partition :: "ext \<Rightarrow> string \<Rightarrow> json list \<Rightarrow> nat \<Rightarrow> unit io" where
  "write_partition x d new_rows max_rows_per_part =
     (if new_rows = [] then io_ret ()
      else io_bind (tail_part d) (\<lambda>tail.
        let (next_index, carry) =
          (case tail of
             Some (idx, rows) \<Rightarrow> if length rows < max_rows_per_part then (idx, rows) else (idx + 1, [])
           | None \<Rightarrow> (1, [])) in
        if max_rows_per_part = 0 then io_raise E_bail
        else write_parts x d next_index (chunks max_rows_per_part (carry @ new_rows))))"

definition write_partition_metrics ::
  "ext \<Rightarrow> nat \<Rightarrow> string \<Rightarrow> client_id \<Rightarrow> string \<Rightarrow> json list \<Rightarrow> unit io" where
  "write_partition_metrics x max_rows benchmark_id client_id day_key rows =
     (if rows = [] then io_raise E_bail
      else write_partition x (warehouse_day_partition_dir benchmark_id client_id day_key) rows max_rows)"

text \<open>The sample results of an eval job: one file, replaced as a whole.\<close>

definition write_eval_samples :: "ext \<Rightarrow> job_id \<Rightarrow> json list \<Rightarrow> unit io" where
  "write_eval_samples x j rows =
     (if rows = [] then io_raise E_bail
      else replace_atomically x (D_eval_samples, []) (D_eval_samples, j @ ''.parquet'') (C_rows rows))"

section \<open>Names of parts\<close>

lemma digits_val_snoc: "digits_val (s @ [c]) = 10 * digits_val s + ((of_char c :: nat) - 48)"
  by (simp add: digits_val_def)

lemma digit_char: "n < 10 \<Longrightarrow> is_digit (char_of (48 + n)) \<and> (of_char (char_of (48 + n :: nat)) :: nat) = 48 + n"
  by (simp add: is_digit_def)

lemma nat_str_digits: "nat_str n \<noteq> [] \<and> list_all is_digit (nat_str n) \<and> digits_val (nat_str n) = n"
proof (induction n rule: nat_str.induct)
  case (1 n)
  show ?case
  proof (cases "n < 10")
    case True
    then show ?thesis
      using digit_char [of n] by (simp add: nat_str.simps [of n] digits_val_def)
  next
    case False
    then show ?thesis
      using 1 digit_char [of "n mod 10"] by (simp add: nat_str.simps [of n] digits_val_snoc)
  qed
qed

lemma digits_val_zeros: "digits_val (replicate k CHR ''0'' @ s) = digits_val s"
  by (induction k) (simp_all add: digits_val_def)

lemma pad4_digits: "pad4 n \<noteq> []" "list_all is_digit (pad4 n)" "digits_val (pad4 n) = n"
  using nat_str_digits [of n] by (auto simp: pad4_def digits_val_zeros list_all_iff is_digit_def)

lemma parse_pad4: "n < 2 ^ 64 \<Longrightarrow> parse_usize (pad4 n) = Some n"
proof -
  assume "n < 2 ^ 64"
  moreover have "hd (pad4 n) \<noteq> CHR ''+''"
    using pad4_digits(1,2) [of n] by (cases "pad4 n") (auto simp: is_digit_def)
  ultimately show ?thesis
    using pad4_digits [of n] by (cases "pad4 n") (auto simp: parse_usize_def Let_def)
qed

lemma part_index_name: "n < 2 ^ 64 \<Longrightarrow> part_index (part_name n) = Some n"
proof -
  assume "n < 2 ^ 64"
  moreover have "strip_prefix ''part-'' (part_name n) = Some (pad4 n @ ''.parquet'')"
    by (simp add: strip_prefix_def part_name_def starts_with_def)
  ultimately show ?thesis
    unfolding part_index_def by (simp only: Option.bind.simps strip_suffix_append parse_pad4)
qed

section \<open>A partition as a map from part numbers to rows\<close>

definition rows_of :: "(nat \<rightharpoonup> json list) \<Rightarrow> json list" where
  "rows_of m = concat (map (\<lambda>i. the (m i)) (sorted_list_of_set (dom m)))"

definition holds_parts :: "string \<Rightarrow> (nat \<rightharpoonup> json list) \<Rightarrow> fs \<Rightarrow> bool" where
  "holds_parts d m s \<longleftrightarrow>
     finite (dom m) \<and> (\<forall>i \<in> dom m. i < 2 ^ 64)
     \<and> (\<forall>(n, is_dir) \<in> set (entries s D_warehouse d). part_index n \<noteq> None \<longrightarrow> \<not> is_dir \<and> n \<in> part_name ` dom m)
     \<and> (\<forall>i rows. m i = Some rows \<longrightarrow> map_option f_content (lookup s (part_path d i)) = Some (C_rows rows))"

lemma rows_extend:
  assumes "finite (dom m)" "\<forall>k \<in> dom m. k \<le> i"
  shows "rows_of (m(i \<mapsto> (case m i of None \<Rightarrow> [] | Some r \<Rightarrow> r) @ new)) = rows_of m @ new"
proof -
  let ?I = "dom m - {i}" and ?c = "(case m i of None \<Rightarrow> [] | Some r \<Rightarrow> r)"
  have less: "\<forall>k \<in> set (sorted_list_of_set ?I). k \<le> i"
    using assms by auto
  have split: "sorted_list_of_set (insert i ?I) = sorted_list_of_set ?I @ [i]"
    using assms less by (simp add: sorted_list_of_set.sorted_key_list_of_set_insert_remove sorted_insort_is_snoc)
  have same: "map (\<lambda>k. the ((m(i \<mapsto> v)) k)) (sorted_list_of_set ?I) = map (\<lambda>k. the (m k)) (sorted_list_of_set ?I)" for v
    using assms(1) by (intro map_cong) auto
  have "dom (m(i \<mapsto> v)) = insert i ?I" for v
    by auto
  then have "rows_of (m(i \<mapsto> ?c @ new)) = concat (map (\<lambda>k. the (m k)) (sorted_list_of_set ?I)) @ ?c @ new"
    unfolding rows_of_def by (simp only: split same map_append) simp
  moreover have "rows_of m = concat (map (\<lambda>k. the (m k)) (sorted_list_of_set ?I)) @ ?c"
  proof (cases "m i")
    case None
    then have "?I = dom m"
      by auto
    with None show ?thesis
      by (simp add: rows_of_def)
  next
    case (Some r)
    then have "sorted_list_of_set (dom m) = sorted_list_of_set ?I @ [i]"
      using split by (simp add: insert_absorb domI)
    with Some show ?thesis
      by (simp add: rows_of_def)
  qed
  ultimately show ?thesis
    by simp
qed

text \<open>The other processes leave the warehouse to its one writer.\<close>

fun no_warehouse :: "act \<Rightarrow> bool" where
  "no_warehouse (A_put p c) \<longleftrightarrow> fst p \<noteq> D_warehouse"
| "no_warehouse (A_del p) \<longleftrightarrow> fst p \<noteq> D_warehouse"
| "no_warehouse _ \<longleftrightarrow> True"

lemma perform_warehouse:
  assumes "no_warehouse a"
  shows "lookup (perform a s) (D_warehouse, k) = lookup s (D_warehouse, k)"
proof -
  have "queue_job (D_warehouse, k) = None" "record_job (D_warehouse, k) = None"
    by (simp_all add: record_job_def)
  then show ?thesis
    using assms by (cases a) (auto simp: lookup_mv split: option.splits)
qed

lemma holds_parts_keep:
  assumes "holds_parts d m s"
    and "\<And>n b. (n, b) \<in> set (entries t D_warehouse d) \<Longrightarrow> part_index n \<noteq> None \<Longrightarrow> (n, b) \<in> set (entries s D_warehouse d)"
    and "\<And>i. lookup t (part_path d i) = lookup s (part_path d i)"
  shows "holds_parts d m t"
proof -
  have "\<forall>(n, is_dir) \<in> set (entries t D_warehouse d). part_index n \<noteq> None \<longrightarrow> \<not> is_dir \<and> n \<in> part_name ` dom m"
  proof (clarify, rule conjI)
    fix n b i
    assume "(n, b) \<in> set (entries t D_warehouse d)" "part_index n = Some i"
    with assms(1) assms(2) [of n b] show "\<not> b" "n \<in> part_name ` dom m"
      by (auto simp: holds_parts_def)
  qed
  with assms(1,3) show ?thesis
    by (simp add: holds_parts_def)
qed

lemma holds_parts_cong:
  assumes "holds_parts d m s" "\<And>k. lookup t (D_warehouse, k) = lookup s (D_warehouse, k)"
  shows "holds_parts d m t"
  by (rule holds_parts_keep [OF assms(1)]) (simp_all add: set_entries present_def assms(2) part_path_def)

lemma holds_parts_file: "holds_parts d m s \<Longrightarrow> i \<in> dom m \<Longrightarrow> \<exists>f. lookup s (part_path d i) = Some f \<and> f_content f = C_rows (the (m i))"
  unfolding holds_parts_def by fastforce

lemma upheld_parts: "upheld no_warehouse (holds_parts d m)"
  unfolding upheld_def using holds_parts_cong perform_warehouse by metis

lemma upheld_parts_file:
  "upheld no_warehouse (\<lambda>s. holds_parts d m s \<and> (\<exists>f. lookup s (tmp_sibling (D_warehouse, e) u) = Some f \<and> f_content f = c))"
  unfolding upheld_def tmp_sibling_def fst_conv using upheld_parts [unfolded upheld_def] by (simp add: perform_warehouse)

lemma tmp_not_part: "part_index (fst (entry_of (''.tmp-'' @ r))) = None"
proof -
  obtain h where "fst (entry_of (''.tmp-'' @ r)) = CHR ''.'' # h"
    by (cases "split_once CHR ''/'' r") (auto simp: entry_of_def split_once_None_iff)
  then show ?thesis
    by (simp add: part_index_def strip_prefix_def starts_with_def)
qed

lemma below_append: "below d (d @ ''/'' @ r) = Some r" if "d \<noteq> []"
  using that by (simp add: below_def starts_with_def)

lemma part_name_head: "part_name i \<noteq> ''.tmp-'' @ r" "CHR ''/'' \<notin> set (part_name i)"
  using pad4_digits(2) [of i] by (auto simp: part_name_def list_all_iff is_digit_def)

lemma entries_add:
  "r \<in> set (entries t d sub) \<Longrightarrow> (\<And>k. present t (d, k) \<Longrightarrow> present s (d, k) \<or> k = k0) \<Longrightarrow>
   r \<in> set (entries s d sub) \<or> (\<exists>l. below sub k0 = Some l \<and> r = entry_of l)"
  unfolding set_entries by blast

lemma holds_parts_tmp:
  assumes "holds_parts d m s" "d \<noteq> []"
  shows "holds_parts d m (put (tmp_sibling (D_warehouse, d @ ''/'') u) c s)"
    and "holds_parts d m (del (tmp_sibling (D_warehouse, d @ ''/'') u) s)"
proof -
  let ?k = "d @ ''/'' @ ''.tmp-'' @ u @ ''.tmp''"
  have tmp: "tmp_sibling (D_warehouse, d @ ''/'') u = (D_warehouse, ?k)"
    by (simp add: tmp_sibling_def)
  have other: "part_path d i \<noteq> (D_warehouse, ?k)" for i
    using part_name_head(1) by (auto simp: part_path_def)
  have none: "part_index n = None" if "(n, b) = entry_of l" "below d ?k = Some l" for n b l
    using that below_append [OF assms(2)] tmp_not_part by (metis fst_conv option.inject)
  have new: "(n, b) \<in> set (entries s D_warehouse d)"
    if "(n, b) \<in> set (entries (put (D_warehouse, ?k) c s) D_warehouse d)" "part_index n \<noteq> None" for n b
  proof -
    have "(n, b) \<in> set (entries s D_warehouse d) \<or> (\<exists>l. below d ?k = Some l \<and> (n, b) = entry_of l)"
      by (rule entries_add [OF that(1)]) auto
    then show ?thesis
      using none that(2) by metis
  qed
  show "holds_parts d m (put (tmp_sibling (D_warehouse, d @ ''/'') u) c s)"
    unfolding tmp by (rule holds_parts_keep [OF assms(1) new]) (use other in auto)
  have "(n, b) \<in> set (entries s D_warehouse d)"
    if "(n, b) \<in> set (entries (del (D_warehouse, ?k) s) D_warehouse d)" for n b
    using that by (auto simp: set_entries)
  then show "holds_parts d m (del (tmp_sibling (D_warehouse, d @ ''/'') u) s)"
    unfolding tmp by (rule holds_parts_keep [OF assms(1)]) (use other in auto)
qed

lemma part_path_inj: "i < 2 ^ 64 \<Longrightarrow> j < 2 ^ 64 \<Longrightarrow> part_path d i = part_path d j \<longleftrightarrow> i = j"
  using part_index_name by (auto simp: part_path_def) (metis option.inject)

lemma holds_parts_move:
  assumes "holds_parts d m s" "d \<noteq> []" "i < 2 ^ 64"
    and "lookup s (tmp_sibling (D_warehouse, d @ ''/'') u) = Some f" "f_content f = C_rows rows"
  shows "holds_parts d (m(i \<mapsto> rows)) (mv (tmp_sibling (D_warehouse, d @ ''/'') u) (part_path d i) s)" (is "holds_parts d _ ?t")
proof -
  let ?k = "d @ ''/'' @ ''.tmp-'' @ u @ ''.tmp''"
  have tmp: "tmp_sibling (D_warehouse, d @ ''/'') u = (D_warehouse, ?k)"
    by (simp add: tmp_sibling_def)
  have other: "part_path d n \<noteq> (D_warehouse, ?k)" for n
    using part_name_head(1) by (auto simp: part_path_def)
  have here: "present ?t (D_warehouse, k) \<Longrightarrow> present s (D_warehouse, k) \<or> k = d @ ''/'' @ part_name i" for k
    using assms(4) unfolding tmp by (auto simp: present_def lookup_mv part_path_def split: if_splits)
  have "\<not> b \<and> n \<in> part_name ` dom (m(i \<mapsto> rows))" if e: "(n, b) \<in> set (entries ?t D_warehouse d)" "part_index n \<noteq> None" for n b
  proof -
    have "(n, b) \<in> set (entries s D_warehouse d) \<or> (\<exists>l. below d (d @ ''/'' @ part_name i) = Some l \<and> (n, b) = entry_of l)"
      by (rule entries_add [OF e(1) here])
    then consider "(n, b) \<in> set (entries s D_warehouse d)" | "(n, b) = (part_name i, False)"
      using below_append [OF assms(2)] part_name_head(2) [of i]
      by (auto simp: entry_of_def split_once_None_iff [THEN iffD2])
    then show ?thesis
    proof cases
      case 1
      with assms(1) e(2) show ?thesis
        by (auto simp: holds_parts_def)
    qed simp
  qed
  moreover have "map_option f_content (lookup ?t (part_path d n)) = Some (C_rows r)" if "(m(i \<mapsto> rows)) n = Some r" for n r
  proof (cases "n = i")
    case True
    with that assms(4,5) show ?thesis
      by (simp add: lookup_mv)
  next
    case False
    with that have r: "m n = Some r"
      by simp
    then have "n < 2 ^ 64" "map_option f_content (lookup s (part_path d n)) = Some (C_rows r)"
      using assms(1) by (auto simp: holds_parts_def)
    with False other assms(3,4) show ?thesis
      unfolding tmp by (simp add: lookup_mv part_path_inj)
  qed
  ultimately show ?thesis
    using assms(1,3) unfolding holds_parts_def by auto
qed

lemma chl_write_part:
  assumes "d \<noteq> []" "i < 2 ^ 64"
  shows "chl no_warehouse (holds_parts d m) (write_parquet_atomic x d i rows) (\<lambda>_. holds_parts d (m(i \<mapsto> rows)))
    (\<lambda>s. holds_parts d m s \<or> holds_parts d (m(i \<mapsto> rows)) s)"
  unfolding write_parquet_atomic_def
  by (rule chl_replace_atomically [OF upheld_parts_file upheld_parts upheld_parts])
    ((rule holds_parts_tmp holds_parts_move; (assumption | rule assms))+)

text \<open>What an append leaves, cut short or not: the rows there were, then some of the new ones in order.\<close>

definition grown :: "string \<Rightarrow> nat \<Rightarrow> json list \<Rightarrow> json list \<Rightarrow> fs \<Rightarrow> bool" where
  "grown d cap old new s \<longleftrightarrow>
     (\<exists>m. holds_parts d m s \<and> (\<forall>r \<in> ran m. length r \<le> cap) \<and> (\<exists>w. rows_of m = old @ w \<and> prefix w new))"

definition carry_of :: "(nat \<rightharpoonup> json list) \<Rightarrow> nat \<Rightarrow> json list" where
  "carry_of m i = (case m i of None \<Rightarrow> [] | Some r \<Rightarrow> r)"

lemma grownI:
  "holds_parts d m s \<Longrightarrow> \<forall>r \<in> ran m. length r \<le> cap \<Longrightarrow> rows_of m = old @ w \<Longrightarrow> prefix w new \<Longrightarrow> grown d cap old new s"
  unfolding grown_def by blast

lemma chl_write_parts:
  assumes "d \<noteq> []" "finite (dom m)" "\<forall>k \<in> dom m. k \<le> i" "i + length cs \<le> 2 ^ 64" "\<forall>c \<in> set cs. length c \<le> cap"
    "\<forall>r \<in> ran m. length r \<le> cap" "rows_of m = old @ w" "concat cs = carry_of m i @ new"
    "cs \<noteq> [] \<longrightarrow> prefix (carry_of m i) (hd cs)"
  shows "chl no_warehouse (holds_parts d m) (write_parts x d i cs)
    (\<lambda>_ s. \<exists>m'. holds_parts d m' s \<and> (\<forall>r \<in> ran m'. length r \<le> cap) \<and> rows_of m' = old @ w @ new)
    (grown d cap old (w @ new))"
  using assms(2-)
proof (induction cs arbitrary: m i w new)
  case Nil
  then show ?case
    by (auto intro!: chl_ret)
next
  case (Cons c cs)
  let ?m = "m(i \<mapsto> c)"
  obtain n1 where c: "c = carry_of m i @ n1"
    using Cons.prems(8) by (auto elim: prefixE)
  then have new: "new = n1 @ concat cs"
    using Cons.prems(7) by simp
  have rows: "rows_of ?m = old @ w @ n1"
    using rows_extend [of m i n1] Cons.prems(1,2,6) c by (simp add: carry_of_def)
  have cap: "\<forall>r \<in> ran ?m. length r \<le> cap"
    using Cons.prems(4,5) by (auto simp: ran_def split: if_splits)
  have bound: "i < 2 ^ 64"
    using Cons.prems(3) by simp
  have early: "grown d cap old (w @ new) s" if "holds_parts d m s \<or> holds_parts d ?m s" for s
    using that Cons.prems(5,6) cap rows new by (auto intro: grownI)
  have "chl no_warehouse (holds_parts d m) (write_parquet_atomic x d i c) (\<lambda>_. holds_parts d ?m) (grown d cap old (w @ new))"
    by (rule chl_conseq [OF chl_write_part [OF assms(1) bound]]) (use early in auto)
  moreover have "chl no_warehouse (holds_parts d ?m) (write_parts x d (Suc i) cs)
    (\<lambda>_ s. \<exists>m'. holds_parts d m' s \<and> (\<forall>r \<in> ran m'. length r \<le> cap) \<and> rows_of m' = old @ (w @ n1) @ concat cs)
    (grown d cap old ((w @ n1) @ concat cs))"
  proof (rule Cons.IH [OF _ _ _ _ cap])
    show "finite (dom ?m)"
      using Cons.prems(1) by simp
    show "\<forall>k \<in> dom ?m. k \<le> Suc i"
      using Cons.prems(2) by (auto intro: le_SucI)
    show "rows_of ?m = old @ w @ n1"
      by (rule rows)
    have "Suc i \<notin> dom m"
      using Cons.prems(2) by (metis Suc_n_not_le_n)
    then have "carry_of ?m (Suc i) = []"
      by (simp add: carry_of_def domIff)
    then show "concat cs = carry_of ?m (Suc i) @ concat cs" "cs \<noteq> [] \<longrightarrow> prefix (carry_of ?m (Suc i)) (hd cs)"
      by simp_all
  qed (use Cons.prems(3,4) in simp_all)
  ultimately show ?case
    using new by (simp add: chl_bind)
qed

lemma chunks_facts:
  assumes "0 < n"
  shows "concat (chunks n xs) = xs" "c \<in> set (chunks n xs) \<Longrightarrow> length c \<le> n" "length (chunks n xs) \<le> length xs"
    "xs \<noteq> [] \<Longrightarrow> hd (chunks n xs) = take n xs"
  using assms
proof (induction n xs rule: chunks.induct)
  case (1 n xs)
  { case 1 then show ?case using "1.IH"(1) by (subst chunks.simps) auto }
  { case 2 then show ?case using "1.IH"(2) by (subst (asm) chunks.simps) (auto split: if_splits) }
  { case 3
    show ?case
    proof (cases "xs = []")
      case False
      with 3 have "length (chunks n (drop n xs)) \<le> length xs - n"
        using "1.IH"(3) by auto
      with False 3 show ?thesis
        by (subst chunks.simps) (cases xs; auto)
    qed (simp add: chunks.simps) }
  { case 4 then show ?case by (subst chunks.simps) simp }
qed

lemma length_chunks:
  assumes "length c < n" "new \<noteq> []"
  shows "length (chunks n (c @ new)) \<le> length new"
proof -
  have "chunks n (c @ new) = take n (c @ new) # chunks n (drop (n - length c) new)"
    using assms by (subst chunks.simps) simp
  moreover have "length (chunks n (drop (n - length c) new)) \<le> length new - (n - length c)"
    using chunks_facts(3) [of n "drop (n - length c) new"] assms(1) by simp
  ultimately show ?thesis
    using assms by (cases new) auto
qed

lemma max_by_index_None: "max_by_index es = None \<longleftrightarrow> es = []"
  by (induction es) (auto split: option.splits)

lemma max_by_index_greatest:
  "max_by_index es = Some e \<Longrightarrow> e \<in> set es \<and> (\<forall>a \<in> set es. fst a \<le> fst e)"
proof (induction es arbitrary: e)
  case (Cons a es)
  then show ?case
    by (cases "max_by_index es") (auto simp: max_by_index_None split: if_splits)
qed simp

definition tail_of :: "(nat \<rightharpoonup> json list) \<Rightarrow> (nat \<times> json list) option" where
  "tail_of m = (if dom m = {} then None else Some (Max (dom m), the (m (Max (dom m)))))"

lemma all_readable_Inr: "all_readable es = Inr vs \<Longrightarrow> es = map Inr vs"
  by (induction es arbitrary: vs rule: all_readable.induct) (auto simp: res_bind_Inr_iff)

lemma chl_tail_part:
  assumes "d \<noteq> []"
  shows "chl no_warehouse (holds_parts d m) (tail_part d) (\<lambda>r s. holds_parts d m s \<and> r = tail_of m) (holds_parts d m)"
proof -
  let ?pick = "\<lambda>vs. max_by_index (List.map_filter (\<lambda>(n, _). map_option (\<lambda>i. (i, n)) (part_index n)) vs)"
  let ?found = "\<lambda>vs. ?pick vs = (if dom m = {} then None else Some (Max (dom m), part_name (Max (dom m))))"
  have found: "?found (entries s D_warehouse d)" if s: "holds_parts d m s" for s
  proof -
    let ?L = "List.map_filter (\<lambda>(n, _ :: bool). map_option (\<lambda>i. (i, n)) (part_index n)) (entries s D_warehouse d)"
    have bound: "i < 2 ^ 64" if "i \<in> dom m" for i
      using s that by (auto simp: holds_parts_def)
    have "(i, n) \<in> set ?L \<longleftrightarrow> i \<in> dom m \<and> n = part_name i" for i n
    proof
      assume "(i, n) \<in> set ?L"
      then obtain b where "(n, b) \<in> set (entries s D_warehouse d)" "part_index n = Some i"
        by (auto simp: set_map_filter)
      moreover from this obtain k where "k \<in> dom m" "n = part_name k"
        using s unfolding holds_parts_def by fastforce
      ultimately show "i \<in> dom m \<and> n = part_name i"
        using part_index_name [OF bound] by auto
    next
      assume i: "i \<in> dom m \<and> n = part_name i"
      then have "present s (part_path d i)"
        using s unfolding holds_parts_def present_def by fastforce
      then have "(part_name i, False) \<in> set (entries s D_warehouse d)"
        unfolding set_entries part_path_def using below_append [OF assms] part_name_head(2) [of i]
        by (intro exI [of _ "d @ ''/'' @ part_name i"] exI [of _ "part_name i"])
          (simp add: entry_of_def split_once_None_iff [THEN iffD2])
      with i part_index_name [OF bound] show "(i, n) \<in> set ?L"
        by (force simp: set_map_filter)
    qed
    then have L: "set ?L = (\<lambda>i. (i, part_name i)) ` dom m"
      by auto
    show ?thesis
    proof (cases "?pick (entries s D_warehouse d)")
      case None
      with L show ?thesis
        by (simp add: max_by_index_None)
    next
      case (Some e)
      then have e: "e \<in> set ?L" "\<forall>a \<in> set ?L. fst a \<le> fst e"
        using max_by_index_greatest by blast+
      moreover have "finite (dom m)"
        using s by (simp add: holds_parts_def)
      ultimately have "fst e = Max (dom m)" "dom m \<noteq> {}" "e = (fst e, part_name (fst e))"
        unfolding L by (auto intro!: Max_eqI [symmetric])
      with Some show ?thesis
        by metis
    qed
  qed
  have read: "chl no_warehouse (holds_parts d m) (read_file (D_warehouse, d @ ''/'' @ part_name i))
      (\<lambda>c s. holds_parts d m s \<and> c = C_rows (the (m i))) (holds_parts d m)" if "i \<in> dom m" for i
    by (rule chl_read_file [OF upheld_parts])
      (use that in \<open>auto dest!: holds_parts_file simp: part_path_def\<close>)
  have get: "chl no_warehouse (\<lambda>s. holds_parts d m s \<and> ?found vs)
      (case ?pick vs of None \<Rightarrow> io_ret None
       | Some (i, n) \<Rightarrow> io_bind (read_file (D_warehouse, d @ ''/'' @ n)) (\<lambda>c.
           io_bind (io_lift (decode_rows c)) (\<lambda>rows. io_ret (Some (i, rows)))))
      (\<lambda>r s. holds_parts d m s \<and> r = tail_of m) (holds_parts d m)" for vs
  proof (cases "?found vs")
    case True
    show ?thesis
    proof (cases "dom m = {}")
      case True
      with \<open>?found vs\<close> show ?thesis
        by (auto simp: tail_of_def intro!: chl_ret)
    next
      case False
      let ?i = "Max (dom m)"
      have "chl no_warehouse (holds_parts d m) (io_bind (read_file (D_warehouse, d @ ''/'' @ part_name ?i)) (\<lambda>c.
           io_bind (io_lift (decode_rows c)) (\<lambda>rows. io_ret (Some (?i, rows)))))
        (\<lambda>r s. holds_parts d m s \<and> r = tail_of m) (holds_parts d m)" if "?i \<in> dom m"
        by (rule chl_bind [OF read [OF that]],
            rule chl_bind [where Q = "\<lambda>rows s. holds_parts d m s \<and> rows = the (m ?i)"])
          (use False in \<open>auto intro!: chl_lift chl_ret simp: tail_of_def\<close>)
      moreover have "?i \<in> dom m" if "holds_parts d m s" for s
        using that False by (intro Max_in) (simp_all add: holds_parts_def)
      ultimately show ?thesis
        using \<open>?found vs\<close> False by (cases "?i \<in> dom m") (auto elim: chl_conseq simp: chl_def)
    qed
  qed (simp add: chl_def)
  have "chl no_warehouse (holds_parts d m) (read_dir D_warehouse d)
      (\<lambda>es s. holds_parts d m s \<and> (\<forall>vs. all_readable es = Inr vs \<longrightarrow> ?found vs)) (holds_parts d m)"
    by (rule chl_read_dir [OF upheld_parts]) (use found in \<open>force dest!: all_readable_Inr\<close>)+
  then show ?thesis
    unfolding tail_part_def
    by (rule chl_bind) (rule chl_bind [OF _ get], auto intro: chl_lift)
qed

text \<open>An append that went through.\<close>

definition appended :: "string \<Rightarrow> nat \<Rightarrow> json list \<Rightarrow> fs \<Rightarrow> bool" where
  "appended d cap rows s \<longleftrightarrow> (\<exists>m. holds_parts d m s \<and> (\<forall>r \<in> ran m. length r \<le> cap) \<and> rows_of m = rows)"

lemma chl_write_chunks:
  assumes "d \<noteq> []" "finite (dom m)" "\<forall>r \<in> ran m. length r \<le> cap" "0 < cap" "\<forall>k \<in> dom m. k \<le> i"
    "i + length new \<le> 2 ^ 64" "length (carry_of m i) < cap" "new \<noteq> []"
  shows "chl no_warehouse (holds_parts d m) (write_parts x d i (chunks cap (carry_of m i @ new)))
    (\<lambda>_. appended d cap (rows_of m @ new)) (grown d cap (rows_of m) new)"
proof -
  note ch = chunks_facts [OF \<open>0 < cap\<close>, where xs = "carry_of m i @ new"]
  have "chl no_warehouse (holds_parts d m) (write_parts x d i (chunks cap (carry_of m i @ new)))
    (\<lambda>_ s. \<exists>m'. holds_parts d m' s \<and> (\<forall>r \<in> ran m'. length r \<le> cap) \<and> rows_of m' = rows_of m @ [] @ new)
    (grown d cap (rows_of m) ([] @ new))"
    using assms ch length_chunks [of "carry_of m i" cap new] by (intro chl_write_parts) auto
  then show ?thesis
    by (simp add: appended_def [abs_def])
qed

lemma chl_write_after_tail:
  assumes "d \<noteq> []" "finite (dom m)" "\<forall>r \<in> ran m. length r \<le> cap"
    "\<forall>i \<in> dom m. i + length new < 2 ^ 63" "length new < 2 ^ 63" "new \<noteq> []"
  shows "chl no_warehouse (\<lambda>s. holds_parts d m s \<and> tail = tail_of m)
    (let (next_index, carry) = (case tail of
         Some (idx, rows) \<Rightarrow> if length rows < cap then (idx, rows) else (idx + 1, []) | None \<Rightarrow> (1, []))
     in if cap = 0 then io_raise E_bail else write_parts x d next_index (chunks cap (carry @ new)))
    (\<lambda>_. appended d cap (rows_of m @ new)) (grown d cap (rows_of m) new)"
proof (cases "tail = tail_of m \<and> 0 < cap")
  case True
  note parts = chl_write_chunks [OF assms(1-3) conjunct2 [OF True] _ _ _ assms(6)]
  show ?thesis
  proof (cases "dom m = {}")
    case True
    then have "carry_of m 1 = []" "tail_of m = None"
      by (simp_all add: carry_of_def tail_of_def)
    with parts [of 1 x] \<open>tail = tail_of m \<and> 0 < cap\<close> True assms(5) show ?thesis
      by (auto elim!: chl_conseq)
  next
    case False
    let ?i = "Max (dom m)"
    have i: "?i \<in> dom m" "\<forall>k \<in> dom m. k \<le> ?i"
      using assms(2) False by simp_all
    then have "Suc ?i \<notin> dom m"
      by (metis Suc_n_not_le_n)
    then have carry: "carry_of m ?i = the (m ?i)" "carry_of m (Suc ?i) = []"
      using i(1) by (auto simp: carry_of_def split: option.split)
    have "?i + length new < 2 ^ 63"
      using assms(4) i(1) by blast
    then show ?thesis
      using parts [of ?i x] parts [of "Suc ?i" x] \<open>tail = tail_of m \<and> 0 < cap\<close> False i(2) carry
      by (auto simp: tail_of_def le_SucI elim!: chl_conseq)
  qed
next
  case False
  then show ?thesis
    using assms(3) by (auto simp: chl_def io_raise_def intro: grownI split: prod.splits)
qed

lemma chl_write_partition:
  assumes "d \<noteq> []" "finite (dom m)" "\<forall>r \<in> ran m. length r \<le> cap"
    "\<forall>i \<in> dom m. i + length new < 2 ^ 63" "length new < 2 ^ 63"
  shows "chl no_warehouse (holds_parts d m) (write_partition x d new cap)
    (\<lambda>_. appended d cap (rows_of m @ new)) (grown d cap (rows_of m) new)"
proof (cases "new = []")
  case True
  with assms(3) show ?thesis
    by (auto simp: write_partition_def appended_def intro!: chl_ret)
next
  case False
  have "chl no_warehouse (holds_parts d m) (tail_part d) (\<lambda>r s. holds_parts d m s \<and> r = tail_of m)
      (grown d cap (rows_of m) new)"
    by (rule chl_conseq [OF chl_tail_part [OF assms(1)]]) (use assms(3) in \<open>auto intro: grownI\<close>)
  then show ?thesis
    unfolding write_partition_def if_not_P [OF False]
    by (rule chl_bind) (rule chl_write_after_tail [OF assms False])
qed


text \<open>Three rows into parts of two; the process dies while the second part is staged.\<close>

definition sample_crash :: world where
  "sample_crash = \<lparr>w_fs = \<lparr>files = [], clock = 0\<rparr>, w_draws = 0,
     w_sched = [([], NoFault), ([], NoFault), ([A_tick 1], NoFault), ([], NoFault), ([], Crash)]\<rparr>"


end
