(* ===== verification/Scoring.thy ===== *)
theory Scoring
  imports Submit_Api Warehouse Footprint "HOL-Library.Product_Lexorder"
begin

text \<open>
  The scorer: \<open>pipette-pipeline/src/score.rs\<close>. The fast worker (\<open>run_process_submissions\<close>) takes
  records out of \<open>incoming/\<close>, routes evals to \<open>score-queue/to_do/\<close>, writes the metrics of every other
  record to the warehouse and archives it, then archives the evals that are scored. The slow worker
  (\<open>run_score_eval\<close>) calls the scoring service for \<open>to_do/\<close> and stages \<open>to_finalize/\<close>. A job that fails
  too often is parked.

  What a submission scores to (the parser of stored bodies, the catalog, the metric derivation, the
  scoring service, the run evidence index) is an argument, the record \<open>scorer\<close>: none of it touches
  the file system of the records. The loops over a listing take a bound on the number of pages;
  running out of it is the process being killed.
\<close>

section \<open>What scoring a submission takes and gives\<close>

record scored_job =
  sj_job_id :: job_id
  sj_benchmark_id :: string
  sj_client_id :: client_id
  sj_day_key :: string
  sj_rows :: "json list"
  sj_samples :: "json list option"

datatype score_outcome =
    O_Scored scored_job
  | O_RecordedFailure scored_job
  | O_ArchivedLockedFailure scored_job
  | O_Routed job_id

text \<open>A stored body: a success of a benchmark, or a failure submitted at a time.\<close>

datatype stored = StoredSuccess string | StoredFailure time

record scorer =
  sc_ext :: ext
  sc_chunk_size :: nat
  sc_max_rows :: nat
  sc_lock_age_secs :: nat
  sc_parse :: "json \<Rightarrow> stored option"
  sc_is_eval :: "string \<Rightarrow> bool option"
  sc_success :: "json \<Rightarrow> json option \<Rightarrow> scored_job io"
  sc_failure :: "json \<Rightarrow> scored_job io"
  sc_archive :: "json \<Rightarrow> (err, scored_job) result"
  sc_service :: "json \<Rightarrow> json io"
  sc_evidence :: "(json list \<Rightarrow> unit io) option"
  sc_error_text :: "err \<Rightarrow> string"

definition scorer_ok :: "scorer \<Rightarrow> bool" where
  "scorer_ok sc \<longleftrightarrow>
     (\<forall>b s. off_tree (sc_success sc b s)) \<and> (\<forall>b. off_tree (sc_failure sc b)) \<and> (\<forall>b. off_tree (sc_service sc b))
     \<and> (case sc_evidence sc of None \<Rightarrow> True | Some f \<Rightarrow> \<forall>rows. off_tree (f rows))"

definition submission_is_eval :: "scorer \<Rightarrow> json \<Rightarrow> bool" where
  "submission_is_eval sc body =
     (case sc_parse sc body of Some (StoredSuccess b) \<Rightarrow> sc_is_eval sc b = Some True | _ \<Rightarrow> False)"

section \<open>Listing the records\<close>

definition submission_job_id :: "string \<Rightarrow> job_id option" where
  "submission_job_id file_name =
     (if starts_with ''.'' file_name then None
      else Option.bind (strip_suffix json_suffix file_name) (\<lambda>s. ok (job_id_try_new s)))"

definition list_submission_job_ids :: "dir \<Rightarrow> job_id option \<Rightarrow> nat \<Rightarrow> job_id list io" where
  "list_submission_job_ids d after limit =
     io_bind (dir_seems_there d []) (\<lambda>there.
       if \<not> there then io_ret []
       else io_bind (read_dir d []) (\<lambda>es.
         io_bind (io_lift (all_readable es)) (\<lambda>es.
           io_ret (take limit (sort (filter (\<lambda>j. case after of None \<Rightarrow> True | Some a \<Rightarrow> a < j)
             (List.map_filter (submission_job_id \<circ> fst) (filter (\<lambda>(_, is_dir). \<not> is_dir) es))))))))"

section \<open>Failed attempts\<close>

definition MAX_SCORE_ATTEMPTS :: nat where "MAX_SCORE_ATTEMPTS = 12"

definition attempts_of :: "json option \<Rightarrow> nat" where
  "attempts_of f = (case Option.bind f (\<lambda>v. Option.bind (get v ''attempts'') as_u64) of None \<Rightarrow> 0 | Some n \<Rightarrow> n)"

definition record_failed_attempt :: "scorer \<Rightarrow> score_queue_stage \<Rightarrow> job_id \<Rightarrow> err \<Rightarrow> bool io" where
  "record_failed_attempt sc stage j e =
     io_bind (read_queue Failures j) (\<lambda>f.
     let attempts = attempts_of f + 1 in
     io_bind (enqueue (sc_ext sc) Failures j
         (JObj [(''attempts'', JNum (PosInt attempts)), (''error'', JStr (sc_error_text sc e))])) (\<lambda>_.
     if attempts < MAX_SCORE_ATTEMPTS then io_ret False
     else io_bind (read_queue stage j) (\<lambda>entry.
       case entry of
         None \<Rightarrow> io_ret False
       | Some entry \<Rightarrow>
           io_bind (case stage of
               ToFinalize \<Rightarrow> io_lift (ok_or E_bail (get entry ''submission''))
             | _ \<Rightarrow> io_ret entry) (\<lambda>body.
           io_bind (enqueue (sc_ext sc) Parked j body) (\<lambda>_.
           io_bind (dequeue stage j) (\<lambda>_. io_ret True))))))"

definition count_failed_attempt :: "scorer \<Rightarrow> score_queue_stage \<Rightarrow> job_id \<Rightarrow> err \<Rightarrow> bool io" where
  "count_failed_attempt sc stage j e =
     io_bind (attempt (record_failed_attempt sc stage j e)) (\<lambda>r.
       io_ret (case r of Inr parked \<Rightarrow> parked | Inl _ \<Rightarrow> False))"

definition clear_failed_attempts :: "job_id \<Rightarrow> unit io" where
  "clear_failed_attempts j = io_bind (attempt (dequeue Failures j)) (\<lambda>_. io_ret ())"

section \<open>The fast worker\<close>

definition score_submission :: "scorer \<Rightarrow> submission_record \<Rightarrow> score_outcome io" where
  "score_submission sc rec =
     (if sr_state rec \<noteq> Incoming then io_raise E_bail
      else case sc_parse sc (sr_body rec) of
        None \<Rightarrow> io_raise E_bail
      | Some (StoredFailure submitted_at) \<Rightarrow>
          io_bind utc_now (\<lambda>now.
            if day_partition_is_open submitted_at now (int (sc_lock_age_secs sc) * second)
            then io_bind (sc_failure sc (sr_body rec)) (\<lambda>s. io_ret (O_RecordedFailure s))
            else io_bind (io_lift (sc_archive sc (sr_body rec))) (\<lambda>s. io_ret (O_ArchivedLockedFailure s)))
      | Some (StoredSuccess _) \<Rightarrow>
          io_bind (sc_success sc (sr_body rec) None) (\<lambda>s. io_ret (O_Scored s)))"

definition read_and_score :: "scorer \<Rightarrow> job_id \<Rightarrow> score_outcome io" where
  "read_and_score sc j =
     io_bind (io_map_err E_bail (get_submission j)) (\<lambda>r.
       case r of
         None \<Rightarrow> io_raise E_bail
       | Some rec \<Rightarrow>
           if submission_is_eval sc (sr_body rec)
           then io_bind (enqueue (sc_ext sc) ToDo j (sr_body rec)) (\<lambda>_.
                io_bind (delete_incoming j) (\<lambda>_. io_ret (O_Routed j)))
           else score_submission sc rec)"

definition score_chunk :: "scorer \<Rightarrow> job_id list \<Rightarrow> (score_outcome list \<times> job_id list) io" where
  "score_chunk sc chunk =
     io_fold (\<lambda>j (outcomes, newly_failed).
         io_bind (attempt (read_and_score sc j)) (\<lambda>r.
           io_ret (case r of
               Inr out \<Rightarrow> (outcomes @ [out], newly_failed)
             | Inl _ \<Rightarrow> (outcomes, newly_failed @ [j])))) chunk ([], [])"

fun scored_job_of :: "score_outcome \<Rightarrow> scored_job option" where
  "scored_job_of (O_Scored s) = Some s"
| "scored_job_of (O_RecordedFailure s) = Some s"
| "scored_job_of (O_ArchivedLockedFailure s) = Some s"
| "scored_job_of (O_Routed _) = None"

fun rowless_job :: "score_outcome \<Rightarrow> scored_job option" where
  "rowless_job (O_RecordedFailure s) = (if sj_rows s = [] then Some s else None)"
| "rowless_job _ = None"

fun job_with_rows :: "score_outcome \<Rightarrow> scored_job option" where
  "job_with_rows (O_Scored s) = Some s"
| "job_with_rows (O_RecordedFailure s) = (if sj_rows s = [] then None else Some s)"
| "job_with_rows _ = None"

definition partition_key :: "scored_job \<Rightarrow> string \<times> client_id \<times> string" where
  "partition_key s = (sj_benchmark_id s, sj_client_id s, sj_day_key s)"

text \<open>The rows of each partition, in the order of the \<open>BTreeMap\<close>'s keys.\<close>

definition partitions :: "scored_job list \<Rightarrow> ((string \<times> client_id \<times> string) \<times> json list) list" where
  "partitions jobs =
     map (\<lambda>k. (k, concat (map sj_rows (filter (\<lambda>s. partition_key s = k) jobs))))
       (sort (remdups (map partition_key jobs)))"

definition record_run_evidence :: "scorer \<Rightarrow> json list \<Rightarrow> unit io" where
  "record_run_evidence sc rows = (case sc_evidence sc of None \<Rightarrow> io_ret () | Some f \<Rightarrow> f rows)"

definition write_samples :: "scorer \<Rightarrow> job_id \<Rightarrow> scored_job \<Rightarrow> unit io" where
  "write_samples sc j s =
     (case sj_samples s of None \<Rightarrow> io_ret () | Some rows \<Rightarrow> write_eval_samples (sc_ext sc) j rows)"

text \<open>The three writes of one job, \<open>mark_processed\<close> last; a failure of any defers the job.\<close>

definition commit_job :: "scorer \<Rightarrow> scored_job \<Rightarrow> unit io" where
  "commit_job sc s =
     io_bind (write_samples sc (sj_job_id s) s) (\<lambda>_.
     io_bind (record_run_evidence sc (sj_rows s)) (\<lambda>_.
     mark_processed (sc_ext sc) (sj_job_id s)))"

definition commit_jobs :: "scorer \<Rightarrow> scored_job list \<Rightarrow> job_id list io" where
  "commit_jobs sc committing =
     io_fold (\<lambda>s deferred.
         io_bind (attempt (commit_job sc s)) (\<lambda>r.
           io_ret (case r of Inr _ \<Rightarrow> deferred | Inl _ \<Rightarrow> deferred @ [sj_job_id s]))) committing []"

definition commit_chunk :: "scorer \<Rightarrow> score_outcome list \<Rightarrow> job_id list io" where
  "commit_chunk sc outcomes =
     (let scored = List.map_filter scored_job_of outcomes;
          rowless = List.map_filter rowless_job outcomes in
      io_bind (io_for (partitions (List.map_filter job_with_rows outcomes)) (\<lambda>((b, c, d), rows).
          write_partition_metrics (sc_ext sc) (sc_max_rows sc) b c d rows)) (\<lambda>_.
      let committing = filter (\<lambda>s. sj_job_id s \<notin> sj_job_id ` set rowless) scored in
      io_bind (commit_jobs sc committing) (\<lambda>deferred.
        if committing \<noteq> [] \<and> length deferred = length committing then io_raise E_bail
        else io_ret (deferred @ map sj_job_id rowless))))"

record tally =
  t_routed :: nat
  t_scored :: nat
  t_failures_recorded :: nat
  t_failures_archived :: nat
  t_failed :: nat

fun count_outcome :: "job_id set \<Rightarrow> score_outcome \<Rightarrow> tally \<Rightarrow> tally" where
  "count_outcome deferred (O_Scored s) t =
     (if sj_job_id s \<in> deferred then t else t\<lparr>t_scored := t_scored t + 1\<rparr>)"
| "count_outcome deferred (O_RecordedFailure s) t =
     (if sj_job_id s \<in> deferred then t else t\<lparr>t_failures_recorded := t_failures_recorded t + 1\<rparr>)"
| "count_outcome deferred (O_ArchivedLockedFailure s) t =
     (if sj_job_id s \<in> deferred then t else t\<lparr>t_failures_archived := t_failures_archived t + 1\<rparr>)"
| "count_outcome deferred (O_Routed _) t = t\<lparr>t_routed := t_routed t + 1\<rparr>"

fun process_chunks :: "scorer \<Rightarrow> nat \<Rightarrow> job_id option \<Rightarrow> tally \<Rightarrow> tally io" where
  "process_chunks sc 0 after t = io_raise E_crash"
| "process_chunks sc (Suc pages) after t =
     io_bind (list_submission_job_ids D_incoming after (sc_chunk_size sc)) (\<lambda>chunk.
       if chunk = [] then io_ret t
       else io_bind (score_chunk sc chunk) (\<lambda>(outcomes, newly_failed).
         io_bind (commit_chunk sc outcomes) (\<lambda>deferred.
           let t = fold (count_outcome (set deferred)) outcomes t;
               t = t\<lparr>t_failed := t_failed t + length (remdups deferred) + length newly_failed\<rparr> in
           if length chunk < sc_chunk_size sc then io_ret t
           else process_chunks sc pages (Some (last chunk)) t)))"

text \<open>Archive before dequeue.\<close>

definition finalize_one :: "scorer \<Rightarrow> job_id \<Rightarrow> unit io" where
  "finalize_one sc j =
     io_bind (read_queue ToFinalize j) (\<lambda>payload.
     io_bind (io_lift (ok_or E_bail payload)) (\<lambda>payload.
     io_bind (io_lift (ok_or E_bail (get payload ''submission''))) (\<lambda>body.
     io_bind (io_lift (ok_or E_bail (get payload ''score''))) (\<lambda>score.
       case sc_parse sc body of
         Some (StoredSuccess _) \<Rightarrow>
           io_bind (sc_success sc body (Some score)) (\<lambda>s.
           io_bind (if sj_rows s = [] then io_ret ()
             else write_partition_metrics (sc_ext sc) (sc_max_rows sc)
               (sj_benchmark_id s) (sj_client_id s) (sj_day_key s) (sj_rows s)) (\<lambda>_.
           io_bind (write_samples sc j s) (\<lambda>_.
           io_bind (record_run_evidence sc (sj_rows s)) (\<lambda>_.
           io_bind (write_processed (sc_ext sc) j body) (\<lambda>_.
           dequeue ToFinalize j)))))
       | _ \<Rightarrow> io_raise E_bail))))"

definition finalize_or_count :: "scorer \<Rightarrow> job_id \<Rightarrow> nat \<Rightarrow> nat io" where
  "finalize_or_count sc j finalized =
     io_bind (attempt (finalize_one sc j)) (\<lambda>r.
       case r of
         Inr _ \<Rightarrow> io_bind (clear_failed_attempts j) (\<lambda>_. io_ret (finalized + 1))
       | Inl e \<Rightarrow> io_bind (count_failed_attempt sc ToFinalize j e) (\<lambda>_. io_ret finalized))"

fun finalize_scored_evals :: "scorer \<Rightarrow> nat \<Rightarrow> job_id option \<Rightarrow> nat \<Rightarrow> nat io" where
  "finalize_scored_evals sc 0 after finalized = io_raise E_crash"
| "finalize_scored_evals sc (Suc pages) after finalized =
     io_bind (list_submission_job_ids (stage_dir ToFinalize) after (sc_chunk_size sc)) (\<lambda>chunk.
       if chunk = [] then io_ret finalized
       else io_bind (io_fold (finalize_or_count sc) chunk finalized) (\<lambda>finalized.
         if length chunk < sc_chunk_size sc then io_ret finalized
         else finalize_scored_evals sc pages (Some (last chunk)) finalized))"

definition no_tally :: tally where
  "no_tally = \<lparr>t_routed = 0, t_scored = 0, t_failures_recorded = 0, t_failures_archived = 0, t_failed = 0\<rparr>"

definition run_process_submissions :: "scorer \<Rightarrow> nat \<Rightarrow> (tally \<times> nat) io" where
  "run_process_submissions sc pages =
     io_bind (process_chunks sc pages None no_tally) (\<lambda>t.
     io_bind (finalize_scored_evals sc pages None 0) (\<lambda>finalized. io_ret (t, finalized)))"

section \<open>The slow worker\<close>

definition score_eval_one :: "scorer \<Rightarrow> job_id \<Rightarrow> unit io" where
  "score_eval_one sc j =
     io_bind (read_queue ToFinalize j) (\<lambda>staged.
       if staged \<noteq> None then dequeue ToDo j
       else io_bind (read_queue ToDo j) (\<lambda>body.
         io_bind (io_lift (ok_or E_bail body)) (\<lambda>body.
           case sc_parse sc body of
             Some (StoredSuccess b) \<Rightarrow>
               if sc_is_eval sc b \<noteq> Some True then io_raise E_bail
               else io_bind (sc_service sc body) (\<lambda>score.
                 io_bind (enqueue (sc_ext sc) ToFinalize j (JObj [(''submission'', body), (''score'', score)])) (\<lambda>_.
                 dequeue ToDo j))
           | _ \<Rightarrow> io_raise E_bail)))"

record eval_tally =
  e_scored :: nat
  e_failed :: nat
  e_parked :: nat
  e_service_down :: bool

text \<open>An unreachable service ends the run; a call that timed out also counts against its job.\<close>

fun score_evals :: "scorer \<Rightarrow> job_id list \<Rightarrow> eval_tally \<Rightarrow> eval_tally io" where
  "score_evals sc [] t = io_ret t"
| "score_evals sc (j # js) t =
     io_bind (attempt (score_eval_one sc j)) (\<lambda>r.
       case r of
         Inr _ \<Rightarrow> io_bind (clear_failed_attempts j) (\<lambda>_. score_evals sc js (t\<lparr>e_scored := e_scored t + 1\<rparr>))
       | Inl (E_service timeout) \<Rightarrow>
           io_bind (if timeout then count_failed_attempt sc ToDo j (E_service timeout) else io_ret False) (\<lambda>parked.
             io_ret (t\<lparr>e_parked := e_parked t + of_bool parked, e_service_down := True\<rparr>))
       | Inl e \<Rightarrow>
           io_bind (count_failed_attempt sc ToDo j e) (\<lambda>parked.
             score_evals sc js (t\<lparr>e_failed := e_failed t + 1, e_parked := e_parked t + of_bool parked\<rparr>)))"

fun score_eval_pages :: "scorer \<Rightarrow> nat \<Rightarrow> job_id option \<Rightarrow> eval_tally \<Rightarrow> eval_tally io" where
  "score_eval_pages sc 0 after t = io_raise E_crash"
| "score_eval_pages sc (Suc pages) after t =
     io_bind (list_submission_job_ids (stage_dir ToDo) after (sc_chunk_size sc)) (\<lambda>chunk.
       if chunk = [] then io_ret t
       else io_bind (score_evals sc chunk t) (\<lambda>t.
         if e_service_down t \<or> length chunk < sc_chunk_size sc then io_ret t
         else score_eval_pages sc pages (Some (last chunk)) t))"

definition run_score_eval :: "scorer \<Rightarrow> nat \<Rightarrow> eval_tally io" where
  "run_score_eval sc pages =
     score_eval_pages sc pages None \<lparr>e_scored = 0, e_failed = 0, e_parked = 0, e_service_down = False\<rparr>"

section \<open>Records under any interference\<close>

text \<open>A relation that also admits any record being written, and one that a later stage has overtaken being removed.\<close>

locale score_guarantee = submit_guarantee Inv R A bodyok "\<lambda>_. True" for Inv R A bodyok +
  assumes R_unrecord: "Inv s \<Longrightarrow> record_job p \<noteq> None \<Longrightarrow> overtaken p s \<Longrightarrow> R s (del p s)"
begin

lemma safe_off_tree: "off_tree m \<Longrightarrow> safe m"
  unfolding safe_def off_tree_def by (rule rgI) (metis R_refl sched_ok_def snd_conv)

lemma rg_remove_overtaken:
  assumes "record_job p = Some j" "record_rank p < n"
  shows "rg Inv R A (scored j n) (remove_file p) anyres"
  unfolding remove_file_def
proof (rule rg_sys [OF stable_scored])
  fix bad s r t
  assume s: "Inv s" "scored j n s"
    and run: "(if present s p then (Inr (), del p s) else (Inl K_NotFound, s)) = (r :: (io_kind, unit) result, t)"
  have "overtaken p s"
    using s(2) assms by (auto simp: overtaken_scored scored_iff intro: order.strict_trans1 dest: Suc_leI order.trans)
  then show "R s t \<and> (\<forall>a. r = Inr a \<longrightarrow> True)"
    using R_unrecord [OF s(1), of p] assms(1) run by (auto simp: R_refl split: if_splits)
qed

lemma rg_drop_overtaken:
  assumes "record_job p = Some j" "record_rank p < n"
  shows "rg Inv R A (scored j n) (remove_file_idempotent p) anyres"
  unfolding remove_file_idempotent_def
  by (intro rg_then rg_vanished rg_remove_overtaken [OF assms] safe_ret)

lemma rg_replace: "record_job dest = Some j \<Longrightarrow> rg Inv R A anyfs (replace_atomically x d dest c) (\<lambda>_. scored j (record_rank dest))"
  by (rule rg_replace_record) simp_all

lemma safe_enqueue: "safe (enqueue x stage j b)"
  unfolding enqueue_def safe_def
proof (cases "stage = Failures")
  case True
  then show "rg Inv R A anyfs (replace_atomically x (stage_dir stage, []) (submission_path (stage_dir stage) j) (C_json b)) anyres"
    using safe_replace_other [of "submission_path D_failures j" x "(D_failures, [])" "C_json b"]
    by (simp add: safe_def submission_path_def record_job_def)
next
  case False
  then have "record_job (submission_path (stage_dir stage) j) = Some j"
    by (cases stage) auto
  from rg_replace [OF this] show "rg Inv R A anyfs (replace_atomically x (stage_dir stage, []) (submission_path (stage_dir stage) j) (C_json b)) anyres"
    by (rule rg_conseq) simp_all
qed

lemma rg_enqueue:
  assumes "stage \<noteq> Failures"
  shows "rg Inv R A anyfs (enqueue x stage j b) (\<lambda>_. scored j (record_rank (stage_dir stage, [])))"
proof -
  have "record_job (submission_path (stage_dir stage) j) = Some j"
    using assms by (cases stage) auto
  from rg_replace [OF this] show ?thesis
    unfolding enqueue_def by (simp add: submission_path_def record_rank_def)
qed

lemma rg_dequeue:
  "stage \<noteq> Failures \<Longrightarrow> record_rank (stage_dir stage, []) < n \<Longrightarrow> rg Inv R A (scored j n) (dequeue stage j) anyres"
  unfolding dequeue_def by (rule rg_drop_overtaken) (cases stage; simp add: submission_path_def record_rank_def record_job_def)+

lemma safe_clear: "safe (clear_failed_attempts j)"
  unfolding clear_failed_attempts_def dequeue_def
  by (intro safe_intros safe_remove_idem_other) (simp_all add: submission_path_def record_job_def)

lemma safe_read_queue: "safe (read_queue stage j)"
  unfolding read_queue_def by (rule safe_listings)

lemma safe_record_failed:
  assumes "stage \<in> {ToDo, ToFinalize}"
  shows "safe (record_failed_attempt sc stage j e)"
proof -
  have park: "safe (io_bind (enqueue x Parked j b) (\<lambda>_. io_bind (dequeue stage j) (\<lambda>_. io_ret True)))" for x b
    unfolding safe_def using assms
    by (intro rg_bind [OF rg_enqueue] rg_then rg_dequeue safe_ret) (auto simp: record_rank_def)
  show ?thesis
    unfolding record_failed_attempt_def Let_def
    by (intro safe_intros safe_read_queue safe_enqueue park) (auto intro: safe_intros split: score_queue_stage.split)
qed

lemma safe_count_failed: "stage \<in> {ToDo, ToFinalize} \<Longrightarrow> safe (count_failed_attempt sc stage j e)"
  unfolding count_failed_attempt_def by (intro safe_intros safe_record_failed)

text \<open>The fast worker.\<close>

lemma safe_list_ids: "safe (list_submission_job_ids d after limit)"
  unfolding list_submission_job_ids_def by (intro safe_intros safe_reads safe_dir_seems_there)

lemma safe_get_submission: "safe (get_submission j)"
  unfolding get_submission_def by (intro safe_intros safe_listings)

lemma safe_mark_processed: "safe (mark_processed x j)"
proof -
  have "rg Inv R A anyfs (io_bind (replace_atomically x (D_processed, []) (processed_path j) c)
      (\<lambda>_. remove_file (submission_path D_incoming j))) anyres" for c
    by (rule rg_bind [OF rg_replace [OF record_job_submission(2)]], rule rg_remove_overtaken)
      (simp_all add: submission_path_def processed_path_def record_rank_def record_job_def)
  then show ?thesis
    unfolding mark_processed_def by (intro safe_bind [OF safe_reads(1)]) (simp add: safe_def)
qed

lemma safe_warehouse: "safe (write_partition_metrics x n b c d rows)"
proof -
  have "safe (write_parts x d i cs)" for d i cs
    by (induction cs arbitrary: i)
      (auto simp: write_parquet_atomic_def part_path_def record_job_def intro!: safe_intros safe_replace_other)
  then show ?thesis
    unfolding write_partition_metrics_def write_partition_def tail_part_def Let_def
    by (intro safe_intros safe_reads)
qed

lemma safe_samples: "safe (write_samples sc j s)"
  unfolding write_samples_def write_eval_samples_def
  by (intro safe_intros safe_replace_other) (simp_all add: record_job_def)

lemma safe_evidence: "scorer_ok sc \<Longrightarrow> safe (record_run_evidence sc rows)"
  unfolding record_run_evidence_def scorer_ok_def
  by (auto intro: safe_ret safe_off_tree split: option.splits)

lemma safe_read_and_score:
  assumes "scorer_ok sc"
  shows "safe (read_and_score sc j)"
proof -
  have route: "safe (io_bind (enqueue x ToDo j b) (\<lambda>_. io_bind (delete_incoming j) (\<lambda>_. io_ret r)))" for x b r
    unfolding safe_def delete_incoming_def
    by (intro rg_bind [OF rg_enqueue] rg_then rg_drop_overtaken safe_ret)
      (simp_all add: submission_path_def record_rank_def record_job_def)
  have "safe (sc_success sc b v)" "safe (sc_failure sc b)" for b v
    using assms by (simp_all add: scorer_ok_def safe_off_tree)
  then have "safe (score_submission sc rec)" for rec
    unfolding score_submission_def by (auto intro!: safe_intros split: option.split stored.split)
  then show ?thesis
    unfolding read_and_score_def by (intro safe_intros safe_get_submission route)
qed

lemma safe_commit:
  assumes "scorer_ok sc"
  shows "safe (commit_chunk sc outcomes)"
  unfolding commit_chunk_def commit_jobs_def commit_job_def Let_def
  by (intro safe_intros safe_warehouse safe_samples safe_evidence assms safe_mark_processed)

lemma safe_process_chunks: "scorer_ok sc \<Longrightarrow> safe (process_chunks sc pages after t)"
proof (induction pages arbitrary: after t)
  case (Suc pages)
  then show ?case
    unfolding process_chunks.simps score_chunk_def Let_def
    by (intro safe_intros safe_list_ids safe_read_and_score safe_commit)
qed (simp add: safe_raise)

lemma safe_finalize_one:
  assumes "scorer_ok sc"
  shows "safe (finalize_one sc j)"
proof -
  have last: "safe (io_bind (write_processed x j b) (\<lambda>_. dequeue ToFinalize j))" for x b
    unfolding safe_def write_processed_def
    by (rule rg_bind [OF rg_replace [OF record_job_submission(2)]], rule rg_dequeue)
      (simp_all add: processed_path_def record_rank_def)
  have "safe (sc_success sc b s)" for b s
    using assms by (simp add: scorer_ok_def safe_off_tree)
  then have "safe (io_bind (sc_success sc body (Some score)) (\<lambda>s.
      io_bind (if sj_rows s = [] then io_ret ()
        else write_partition_metrics (sc_ext sc) (sc_max_rows sc)
          (sj_benchmark_id s) (sj_client_id s) (sj_day_key s) (sj_rows s)) (\<lambda>_.
      io_bind (write_samples sc j s) (\<lambda>_. io_bind (record_run_evidence sc (sj_rows s)) (\<lambda>_.
      io_bind (write_processed (sc_ext sc) j body) (\<lambda>_. dequeue ToFinalize j))))))" for body score
    by (intro safe_bind safe_if safe_ret safe_warehouse safe_samples safe_evidence assms last)
  then show ?thesis
    unfolding finalize_one_def
    by (intro safe_bind safe_lift safe_read_queue) (auto intro: safe_raise split: option.split stored.split)
qed

lemma safe_finalize: "scorer_ok sc \<Longrightarrow> safe (finalize_scored_evals sc pages after n)"
proof (induction pages arbitrary: after n)
  case (Suc pages)
  then show ?case
    unfolding finalize_scored_evals.simps finalize_or_count_def
    by (intro safe_intros safe_list_ids safe_finalize_one safe_clear safe_count_failed) simp_all
qed (simp add: safe_raise)

lemma safe_process_submissions: "scorer_ok sc \<Longrightarrow> safe (run_process_submissions sc pages)"
  unfolding run_process_submissions_def by (intro safe_intros safe_process_chunks safe_finalize)

text \<open>The slow worker.\<close>

lemma safe_score_eval_one:
  assumes "scorer_ok sc"
  shows "safe (score_eval_one sc j)"
proof -
  have drop: "rg Inv R A (scored j 2) (dequeue ToDo j) anyres"
    by (rule rg_dequeue) (simp_all add: record_rank_def)
  have stage: "safe (io_bind (enqueue x ToFinalize j b) (\<lambda>_. dequeue ToDo j))" for x b
    unfolding safe_def
    by (rule rg_bind [OF rg_enqueue]) (use drop in \<open>simp_all add: record_rank_def\<close>)
  have "safe (sc_service sc b)" for b
    using assms by (simp add: scorer_ok_def safe_off_tree)
  then have "safe (case sc_parse sc body of
             Some (StoredSuccess b) \<Rightarrow>
               if sc_is_eval sc b \<noteq> Some True then io_raise E_bail
               else io_bind (sc_service sc body) (\<lambda>score.
                 io_bind (enqueue (sc_ext sc) ToFinalize j (JObj [(''submission'', body), (''score'', score)])) (\<lambda>_.
                 dequeue ToDo j))
           | _ \<Rightarrow> io_raise E_bail)" for body
    by (auto intro!: safe_raise safe_bind [of "sc_service sc body"] stage split: option.split stored.split)
  then have score: "safe (io_bind (read_queue ToDo j) (\<lambda>body. io_bind (io_lift (ok_or E_bail body)) (\<lambda>body.
           case sc_parse sc body of
             Some (StoredSuccess b) \<Rightarrow>
               if sc_is_eval sc b \<noteq> Some True then io_raise E_bail
               else io_bind (sc_service sc body) (\<lambda>score.
                 io_bind (enqueue (sc_ext sc) ToFinalize j (JObj [(''submission'', body), (''score'', score)])) (\<lambda>_.
                 dequeue ToDo j))
           | _ \<Rightarrow> io_raise E_bail)))"
    by (intro safe_bind safe_read_queue safe_lift)
  have "rg Inv R A anyfs (read_queue ToFinalize j) (\<lambda>r s. r \<noteq> None \<longrightarrow> scored j 2 s)"
    unfolding read_queue_def using rg_read_staged [of "submission_path D_to_finalize j" j]
    by (simp add: submission_path_def record_rank_def record_job_def)
  then show ?thesis
    unfolding score_eval_one_def safe_def
    by (rule rg_bind) (use drop score in \<open>auto simp: safe_def elim: rg_conseq\<close>)
qed

lemma safe_score_evals: "scorer_ok sc \<Longrightarrow> safe (score_evals sc js t)"
  by (induction js arbitrary: t)
    (auto intro!: safe_ret safe_bind [OF safe_attempt [OF safe_score_eval_one]] safe_bind [OF safe_clear]
      safe_bind [OF safe_count_failed] safe_bind [OF safe_ret] split: sum.split err.split)

lemma safe_score_eval: "scorer_ok sc \<Longrightarrow> safe (run_score_eval sc pages)"
proof -
  assume "scorer_ok sc"
  then have "safe (score_eval_pages sc pages after t)" for after t
    by (induction pages arbitrary: after t) (auto intro!: safe_intros safe_list_ids safe_score_evals)
  then show ?thesis
    by (simp add: run_score_eval_def)
qed

end

interpretation sole: score_guarantee "sole_entry j" "sole_rel j" "unrestored j" "\<lambda>_ _. True" for j
  by unfold_locales (auto simp: sole_rel_def advance_overtaken)

interpretation kept: score_guarantee "kept_inv j b" "kept_rel j b" "kept_act j b" "\<lambda>i v. i = j \<longrightarrow> v = b" for j b
proof unfold_locales
  fix s p
  assume "kept_inv j b s" "record_job p \<noteq> None" "overtaken p s"
  moreover from this have "recorded i s \<Longrightarrow> recorded i (del p s)" "queue_job p = None" for i
    using advance_recorded [OF advance_overtaken] by (auto dest: record_not_queue)
  ultimately show "kept_rel j b s (del p s)"
    by (auto simp: kept_rel_def kept_inv_def in_system_def advance_overtaken intro: hold_del queued_del)
qed

interpretation filed: score_guarantee "\<lambda>_. True" filed_rel "\<lambda>_. True" "\<lambda>_ _. True"
  by unfold_locales (simp add: filed_rel_def advance_overtaken)

section \<open>A scorer of one benchmark\<close>

definition sample_scored :: scored_job where
  "sample_scored = \<lparr>sj_job_id = ''j2'', sj_benchmark_id = ''b'', sj_client_id = ''c'', sj_day_key = ''2026-01-01'',
     sj_rows = [JNull, JBool True], sj_samples = None\<rparr>"

definition sample_scorer :: scorer where
  "sample_scorer = \<lparr>sc_ext = sample_ext, sc_chunk_size = 10, sc_max_rows = 5, sc_lock_age_secs = 100,
     sc_parse = (\<lambda>_. Some (StoredSuccess ''b'')), sc_is_eval = (\<lambda>_. Some False),
     sc_success = (\<lambda>_ _. io_ret sample_scored), sc_failure = (\<lambda>_. io_ret sample_scored),
     sc_archive = (\<lambda>_. Inr sample_scored), sc_service = (\<lambda>_. io_raise (E_service True)), sc_evidence = None,
     sc_error_text = (\<lambda>_. ''down'')\<rparr>"

lemma sample_scorer_ok: "scorer_ok sample_scorer"
  by (simp add: scorer_ok_def sample_scorer_def off_tree_def io_ret_def io_raise_def)

end
