(* ===== verification/Queue_System.thy ===== *)
theory Queue_System
  imports Sample_Service Scoring
begin

text \<open>
  The service as a whole: the requests that act on the job queue, served in any order over one
  file system while other processes act on it, storage calls fail and the process dies.

  A step of \<open>step a A P\<close> is an action of another process allowed by \<open>A\<close>, or a request satisfying
  \<open>P\<close>, run to its end, to an error or to a crash under a schedule of such actions. The locale
  \<open>served\<close> is what a relation needs for every history of such steps to stay in it; each guarantee
  of \<open>Conservation\<close> provides it.
\<close>

section \<open>Requests\<close>

datatype request =
    Claim client
  | Heartbeat client job_id
  | Reclaim client job_id
  | Submit submitter submission bool
  | BatchItem submitter nat "(err, submission \<times> bool) result"
  | Relinquish client_id
  | PurgeClient client_id
  | Maintain maintenance fleet "nat \<Rightarrow> (err, (client_id \<times> client_permission_set) list) result" plan_passes nat
  | ProcessSubmissions scorer nat
  | ScoreEval scorer nat

definition quietly :: "'a io \<Rightarrow> unit io" where
  "quietly m = io_bind m (\<lambda>_. io_ret ())"

fun serve :: "app \<Rightarrow> request \<Rightarrow> unit io" where
  "serve a (Claim c) = quietly (claim a c)"
| "serve a (Heartbeat c j) = quietly (heartbeat a c j)"
| "serve a (Reclaim c j) = quietly (reclaim a c j)"
| "serve a (Submit su s supplied) = quietly (submit_benchmark a su s supplied)"
| "serve a (BatchItem su i prepared) = quietly (process_batch_item a su i prepared)"
| "serve a (Relinquish c) = relinquish_client_leases (a_ext a) c"
| "serve a (PurgeClient c) = purge_client_todo_state c"
| "serve a (Maintain m fleet permissions pp tmp_max) = quietly (run m fleet permissions pp tmp_max)"
| "serve a (ProcessSubmissions sc pages) = quietly (run_process_submissions sc pages)"
| "serve a (ScoreEval sc pages) = quietly (run_score_eval sc pages)"

text \<open>
  What the typed extractors establish before a handler runs: the ids it is given are valid. The plan passes of a
  maintenance run are another process of the history.
\<close>

fun typed :: "request \<Rightarrow> bool" where
  "typed (Claim c) \<longleftrightarrow> valid_client_id (client_id c)"
| "typed (Heartbeat c j) \<longleftrightarrow> valid_client_id (client_id c) \<and> valid_job_id j"
| "typed (Reclaim c j) \<longleftrightarrow> valid_client_id (client_id c) \<and> valid_job_id j"
| "typed (Submit su s supplied) \<longleftrightarrow> valid_client_id (su_client_id su) \<and> valid_job_id (sb_job_id s)"
| "typed (BatchItem su i prepared) \<longleftrightarrow> valid_client_id (su_client_id su)
     \<and> (case prepared of Inl _ \<Rightarrow> True | Inr (s, _) \<Rightarrow> valid_job_id (sb_job_id s))"
| "typed (Relinquish c) \<longleftrightarrow> valid_client_id c"
| "typed (PurgeClient c) \<longleftrightarrow> True"
| "typed (Maintain m fleet permissions pp tmp_max) \<longleftrightarrow> detached pp"
| "typed (ProcessSubmissions sc pages) \<longleftrightarrow> scorer_ok sc"
| "typed (ScoreEval sc pages) \<longleftrightarrow> scorer_ok sc"

text \<open>The requests that may write a record of a job, over an earlier one of it.\<close>

fun records :: "job_id \<Rightarrow> request \<Rightarrow> bool" where
  "records j (Submit su s supplied) \<longleftrightarrow> sb_job_id s = j"
| "records j (BatchItem su i (Inr (s, supplied))) \<longleftrightarrow> sb_job_id s = j"
| "records j _ \<longleftrightarrow> False"

text \<open>The runs of the scorer, which move records.\<close>

fun scores :: "request \<Rightarrow> bool" where
  "scores (ProcessSubmissions sc pages) \<longleftrightarrow> True"
| "scores (ScoreEval sc pages) \<longleftrightarrow> True"
| "scores _ \<longleftrightarrow> False"

section \<open>Histories\<close>

inductive step :: "app \<Rightarrow> (act \<Rightarrow> bool) \<Rightarrow> (request \<Rightarrow> bool) \<Rightarrow> fs \<Rightarrow> fs \<Rightarrow> bool" for a A P where
  others: "A act \<Longrightarrow> step a A P s (perform act s)"
| request: "P req \<Longrightarrow> typed req \<Longrightarrow> sched_ok A w \<Longrightarrow> serve a req w = (r, w') \<Longrightarrow>
    step a A P (w_fs w) (w_fs w')"

abbreviation reaches :: "app \<Rightarrow> (act \<Rightarrow> bool) \<Rightarrow> (request \<Rightarrow> bool) \<Rightarrow> fs \<Rightarrow> fs \<Rightarrow> bool" where
  "reaches a A P \<equiv> (step a A P)\<^sup>*\<^sup>*"

abbreviation any_act :: "act \<Rightarrow> bool" where
  "any_act \<equiv> \<lambda>_. True"

abbreviation any_request :: "request \<Rightarrow> bool" where
  "any_request \<equiv> \<lambda>_. True"

inductive_cases stepE: "step a A P s t"

lemma step_serve: "P req \<Longrightarrow> typed req \<Longrightarrow> sched_ok A w \<Longrightarrow> step a A P (w_fs w) (w_fs (snd (serve a req w)))"
  by (rule step.request [where r = "fst (serve a req w)"]) simp_all

locale served = guarantee Inv R A for Inv R A +
  fixes a :: app
    and P :: "request \<Rightarrow> bool"
  assumes served: "P req \<Longrightarrow> typed req \<Longrightarrow> safe (serve a req)"
begin

lemma step_guarantee:
  assumes "step a A P s t" "Inv s"
  shows "R s t"
  using assms
proof (cases rule: step.cases)
  case (others act)
  with assms(2) show ?thesis
    using R_env by simp
next
  case (request req w r w')
  with assms(2) show ?thesis
    using rgD [OF served [unfolded safe_def], of req w r w'] by simp
qed

text \<open>Rule induction over a history.\<close>

lemma reaches_guarantee:
  assumes "reaches a A P s t" "Inv s"
  shows "R s t"
  using assms
proof (induction rule: rtranclp_induct)
  case base
  show ?case
    by (rule R_refl)
next
  case (step t u)
  then show ?case
    using R_inv R_trans step_guarantee by blast
qed

lemma reaches_inv: "reaches a A P s t \<Longrightarrow> Inv s \<Longrightarrow> Inv t"
  using R_inv reaches_guarantee by blast

end

section \<open>Every request guarantees what its store steps do\<close>

context queue_guarantee
begin

lemma safe_quietly: "safe m \<Longrightarrow> safe (quietly m)"
  unfolding quietly_def by (intro safe_bind safe_ret)

end

context submit_guarantee
begin

lemma safe_serve: "(\<And>j. records j req \<Longrightarrow> mayrec j) \<Longrightarrow> \<not> scores req \<Longrightarrow> typed req \<Longrightarrow> safe (serve a req)"
proof (cases req)
  case (BatchItem su i prepared)
  moreover assume "typed req" "\<And>j. records j req \<Longrightarrow> mayrec j"
  ultimately show ?thesis
    by (auto intro!: safe_quietly safe_batch_item split: sum.splits)
qed (simp_all add: safe_quietly safe_submit safe_claim safe_heartbeat safe_reclaim safe_relinquish safe_purge safe_run)

end

context score_guarantee
begin

lemma safe_serve_all: "typed req \<Longrightarrow> safe (serve a req)"
  by (cases "scores req")
    (auto simp: safe_serve elim!: scores.elims intro!: safe_quietly safe_process_submissions safe_score_eval)

end

interpretation sole: served "sole_entry j" "sole_rel j" "unrestored j" a any_request for j a
  by unfold_locales (simp add: sole.safe_serve_all)

interpretation kept: served "kept_inv j b" "kept_rel j b" "kept_act j b" a any_request for j b a
  by unfold_locales (simp add: kept.safe_serve_all)

interpretation filed: served "\<lambda>_. True" filed_rel any_act a any_request for a
  by unfold_locales (simp add: filed.safe_serve_all)

interpretation intact: served "\<lambda>_. True" "intact_rel r" "intact_act r" a "\<lambda>req. \<not> scores req \<and> (\<forall>j. records j req \<longrightarrow> record_job r \<noteq> Some j)"
  for r a
  by unfold_locales (simp add: intact.safe_serve)

section \<open>A claim under interference\<close>

definition sample_claim :: request where
  "sample_claim = Claim sample_device"

definition sample_after :: fs where
  "sample_after = w_fs (snd (serve sample_app sample_claim sample_world))"

lemma sample_history:
  assumes "P sample_claim" "sched_ok A sample_world"
  shows "reaches sample_app A P sample_queue sample_after"
proof -
  have "typed sample_claim"
    by (simp add: sample_claim_def sample_device_valid)
  then have "step sample_app A P (w_fs sample_world) sample_after"
    unfolding sample_after_def using assms by (intro step_serve)
  then show ?thesis
    by (simp add: sample_world_def r_into_rtranclp)
qed

end
