(* ===== verification/Isolation.thy ===== *)
theory Isolation
  imports Queue_System Frame
begin

text \<open>
  Devices do not reach each other's leases. Every request acts for one client, and the requests
  that act for a client leave alone every lease that is not in that client's partition, so a
  lease stays as it is under every history of requests that act for others.
\<close>

section \<open>The requests of a device leave other leases alone\<close>

context frame
begin

definition apart :: "client_id \<Rightarrow> bool" where
  "apart c \<longleftrightarrow> (\<forall>n. (D_leased, c @ ''/'' @ n) \<noteq> p0) \<and> fst p0 \<noteq> D_avail \<and> (\<forall>p q. q \<noteq> p0 \<longrightarrow> free p q)"

lemma apart_paths:
  assumes "apart c"
  shows "avail_path x j e \<noteq> p0" "leased_path x j e c t \<noteq> p0" "(D_avail, k) \<noteq> p0"
    "free p (avail_path x j e)" "free p (leased_path x j e c t)"
proof -
  show "avail_path x j e \<noteq> p0" "leased_path x j e c t \<noteq> p0" "(D_avail, k) \<noteq> p0"
    using assms by (auto simp: apart_def avail_path_def leased_path_def leased_key_def)
  then show "free p (avail_path x j e)" "free p (leased_path x j e c t)"
    using assms unfolding apart_def by blast+
qed

end

sublocale frame \<subseteq> lease_guarantee Inv R A bodyok "\<lambda>c. valid_client_id c \<and> apart c"
proof unfold_locales
  fix c j x e t
  assume c: "valid_client_id c \<and> apart c" and j: "valid_job_id j"
  show "safe (claim_job x j e c t)" "safe (recycle_lease x j e c t)" "safe (resolve_or_recycle_lease x j e c t)"
    using c j by (auto intro!: frame_moves frame_resolve_or_recycle apart_paths)
  show "safe (renew_lease x j c t)"
    using c j by (intro frame_renew) (auto simp: apart_def intro: apart_paths)
qed simp

context frame
begin

lemma frame_teardown: "apart c \<Longrightarrow> safe (teardown_completed_job x j c)"
  unfolding teardown_completed_job_def
  by (intro safe_intros safe_own_lease frame_deletes frame_delete_avail_by_job) (auto simp: apart_paths)

lemma frame_record_submission: "safe (record_submission x s held)"
  unfolding record_submission_def write_submission_record_def write_incoming_def move_runtime_output_def
  by (auto intro!: safe_intros safe_submission_writes frame_replace split: json.split)

lemma frame_submit:
  assumes "valid_job_id (sb_job_id s)" "valid_client_id (su_client_id su)" "apart (su_client_id su)"
  shows "safe (submit_benchmark a su s supplied)"
  unfolding submit_benchmark_def accept_submission_def Let_def
  by (intro safe_api safe_authorize safe_bind_claim safe_handle_retriable frame_record_submission frame_teardown)
    (simp_all add: assms)

lemma knows_own_keys: "knows (list_leased_for_client c) (\<lambda>ks. \<forall>k \<in> set ks. \<exists>n. k = c @ ''/'' @ n)"
  unfolding list_leased_for_client_def
  by (intro knows_bind [OF safe_knows] safe_listings knows_ret) auto

lemma frame_put_back_own:
  assumes "valid_client_id c" "apart c" "\<forall>k \<in> set ks. \<exists>n. k = c @ ''/'' @ n"
    and "l \<in> set (List.map_filter (ok \<circ> parse_leased_key x) ks)"
  shows "safe (io_bind (internal (resolve_or_recycle_lease x (l_job_id l) (l_expires_at l)
       (l_client_id l) (l_lease_expiry l))) (\<lambda>r. if r = L_Recycled
          then io_bind (delete_recycled_entry_if_recorded (l_job_id l)) (\<lambda>_. io_ret ()) else io_ret ()))"
proof -
  obtain n where l: "parse_leased_key x (c @ ''/'' @ n) = Inr l"
    using assms(3,4) by (auto simp: set_map_filter)
  then have "l_client_id l = c"
    using assms(1) by (auto simp: id_chars parse_leased_key_def res_bind_Inr_iff)
  then show ?thesis
    unfolding delete_recycled_entry_if_recorded_def using parse_lease_valid [OF l] assms(1,2)
    by (intro safe_intros own_resolve safe_submission_reads frame_delete_avail_by_job) (simp_all add: apart_paths)
qed

lemma frame_relinquish:
  assumes "valid_client_id c" "apart c"
  shows "safe (relinquish_client_leases x c)"
proof -
  have "safe (relinquish_passes x c n)" for n
  proof (induction n)
    case 0
    then show ?case
      by (subst relinquish_passes.simps) (auto simp: Let_def intro!: safe_api)
  next
    case (Suc n)
    then show ?case
      by (subst relinquish_passes.simps, auto simp: Let_def
          intro!: knows_bind_safe [OF knows_map_err [OF knows_own_keys]] safe_if safe_ret safe_bind safe_for
            frame_put_back_own [OF assms(1,2)]) blast
  qed
  then show ?thesis
    by (simp add: relinquish_client_leases_def)
qed

end

section \<open>Whom a request acts for\<close>

fun acts_for :: "request \<Rightarrow> client_id option" where
  "acts_for (Claim c) = Some (client_id c)"
| "acts_for (Heartbeat c j) = Some (client_id c)"
| "acts_for (Reclaim c j) = Some (client_id c)"
| "acts_for (Submit su s supplied) = Some (su_client_id su)"
| "acts_for (BatchItem su i prepared) = Some (su_client_id su)"
| "acts_for (Relinquish c) = Some c"
| "acts_for (PurgeClient c) = Some c"
| "acts_for (Maintain m fleet permissions pp tmp_max) = None"
| "acts_for (ProcessSubmissions sc pages) = None"
| "acts_for (ScoreEval sc pages) = None"

context frame
begin

lemma frame_batch_item:
  assumes "\<And>s b. prepared = Inr (s, b) \<Longrightarrow> valid_job_id (sb_job_id s)"
    and "valid_client_id (su_client_id su)" "apart (su_client_id su)"
  shows "safe (process_batch_item a su i prepared)"
  unfolding process_batch_item_def
  by (intro safe_bind safe_attempt knows_bind_safe [OF knows_lift [where Q = "\<lambda>p. prepared = Inr p"]] safe_ret)
    (auto intro: frame_submit assms)

lemma frame_serve:
  assumes "typed req" "acts_for req = Some c" "apart c"
  shows "safe (serve a req)"
proof (cases req)
  case (BatchItem su i prepared)
  with assms have "safe (process_batch_item a su i prepared)"
    by (intro frame_batch_item) auto
  with BatchItem show ?thesis
    by (simp add: quietly_def safe_bind safe_ret)
qed (use assms in \<open>auto simp: quietly_def intro!: safe_bind safe_ret safe_claim safe_heartbeat safe_reclaim
    frame_submit frame_relinquish safe_purge\<close>)

end

text \<open>The client a lease is held by, and the requests that act for another one.\<close>

definition lease_owner :: "path \<Rightarrow> client_id option" where
  "lease_owner r = (if fst r = D_leased then map_option fst (split_once CHR ''/'' (snd r)) else None)"

definition of_others :: "path \<Rightarrow> request \<Rightarrow> bool" where
  "of_others r req \<longleftrightarrow> fst r = D_leased \<and> acts_for req \<noteq> None \<and> acts_for req \<noteq> lease_owner r"

lemma typed_client: "typed req \<Longrightarrow> acts_for req = Some c \<Longrightarrow> (\<exists>d. req = PurgeClient d) \<or> valid_client_id c"
  by (cases req) auto

interpretation spared: served "on_queue r" "same_at r" "spares r" a "of_others r" for r a
proof unfold_locales
  fix req
  assume req: "of_others r req" "typed req"
  then obtain c where c: "acts_for req = Some c" "fst r = D_leased" "lease_owner r \<noteq> Some c"
    by (auto simp: of_others_def)
  show "spared.safe r (serve a req)"
  proof (cases "\<exists>d. req = PurgeClient d")
    case True
    then show ?thesis
      by (auto intro: spared.safe_purge)
  next
    case False
    then have "valid_client_id c"
      using typed_client [OF req(2) c(1)] by blast
    with c(2,3) have "spared.apart r c"
      by (auto simp: spared.apart_def lease_owner_def id_chars)
    with req(2) c(1) show ?thesis
      by (rule spared.frame_serve)
  qed
qed

text \<open>
  C6: Devices cannot touch each other's leases. A leased entry is the same file after every history
  of requests that act for clients other than its holder (claims, heartbeats, reclaims,
  submissions, relinquishments and purges), whatever fails or dies in between, as long as no
  other process acts on that entry.
\<close>

theorem lease_isolation:
  assumes "reaches a (spares r) (\<lambda>req. fst r = D_leased \<and> acts_for req \<noteq> None \<and> acts_for req \<noteq> lease_owner r) s t"
    and "queue_job r = Some j"
  shows "lookup t r = lookup s r"
  using spared.reaches_guarantee [of a r s t] assms unfolding same_at_def on_queue_def of_others_def by simp

theorem lease_isolation_witness:
  "lookup sample_queue (D_leased, ''box/j4.never.00.json'') \<noteq> None
   \<and> lookup sample_after (D_leased, ''box/j4.never.00.json'') = lookup sample_queue (D_leased, ''box/j4.never.00.json'')"
proof
  let ?r = "(D_leased, ''box/j4.never.00.json'')"
  show "lookup sample_queue ?r \<noteq> None"
    by code_simp
  have "lease_owner ?r = Some ''box''"
    by code_simp
  then have "reaches sample_app (spares ?r)
      (\<lambda>req. fst ?r = D_leased \<and> acts_for req \<noteq> None \<and> acts_for req \<noteq> lease_owner ?r) sample_queue sample_after"
    by (intro sample_history) (simp add: sample_claim_def sample_device_def, code_simp)
  moreover have "queue_job ?r = Some ''j4''"
    by code_simp
  ultimately show "lookup sample_after ?r = lookup sample_queue ?r"
    by (rule lease_isolation)
qed

end
