(* ===== verification/Maintenance_Frame.thy ===== *)
theory Maintenance_Frame
  imports Sample_Service
begin

text \<open>
  What a maintenance run leaves alone: the entry of a job that is neither past its time nor
  impossible to match and whose plans go on. The run is the whole of \<open>queue_maintenance.rs\<close>'s \<open>run\<close> with the plan
  passes of \<open>plan_maintenance.rs\<close>, under any interference that leaves the entry and those plans alone.
\<close>

text \<open>
  An entry in its time: an available job before its deadline, a leased one before the lease expires
  and with a client that is still registered. Times count in whole seconds, as in the name.
\<close>

fun in_time :: "time \<Rightarrow> client_id set \<Rightarrow> queue_entry \<Rightarrow> bool" where
  "in_time now live (Q_Avail a) \<longleftrightarrow> \<not> is_expired (cut_deadline (ak_expires_at a)) now"
| "in_time now live (Q_Lease l) \<longleftrightarrow> now \<le> whole_secs (l_lease_expiry l) \<and> l_client_id l \<in> live"

lemma expired_cut: "is_expired e now \<Longrightarrow> is_expired (cut_deadline e) now"
  by (cases e) (auto simp: is_expired_def cut_deadline_def intro: le_less_trans [OF whole_secs_le])

lemma paths_apart: "avail_path x j e \<noteq> leased_path x i f c t"
  by (simp add: avail_path_def leased_path_def)

text \<open>An entry past its time, or of a client that is gone, is another file.\<close>

lemma in_time_apart:
  assumes "stamps_apart x" "entry_ok q" "in_time now live q"
  shows "entry_ok (Q_Lease l) \<Longrightarrow> l_lease_expiry l < now \<or> l_client_id l \<notin> live \<Longrightarrow> entry_path x (Q_Lease l) \<noteq> entry_path x q"
    and "avail_ok a \<Longrightarrow> is_expired (ak_expires_at a) now \<Longrightarrow> entry_path x (Q_Avail a) \<noteq> entry_path x q"
proof -
  assume l: "entry_ok (Q_Lease l)" "l_lease_expiry l < now \<or> l_client_id l \<notin> live"
  show "entry_path x (Q_Lease l) \<noteq> entry_path x q"
  proof (cases q)
    case (Q_Avail b)
    then show ?thesis
      by (simp add: paths_apart [symmetric])
  next
    case (Q_Lease k)
    then show ?thesis
      using leased_key_apart [OF assms(1), of "l_job_id l" "l_job_id k" "l_client_id l" "l_client_id k"
          "l_expires_at l" "l_lease_expiry l" "l_expires_at k" "l_lease_expiry k"] assms(2,3) l
        whole_secs_le [of "l_lease_expiry l"]
      by (auto simp: leased_path_def)
  qed
next
  assume a: "avail_ok a" "is_expired (ak_expires_at a) now"
  show "entry_path x (Q_Avail a) \<noteq> entry_path x q"
  proof (cases q)
    case (Q_Avail b)
    then show ?thesis
      using avail_filename_apart [OF assms(1), of "ak_job_id a" "ak_job_id b" "ak_expires_at a" "ak_expires_at b"]
        assms(2,3) a expired_cut [OF a(2)]
      by (auto simp: avail_path_def)
  qed (simp add: paths_apart)
qed

lemma entry_path_job: "entry_ok q \<Longrightarrow> queue_job (entry_path x q) = Some (entry_job_id q)"
  by (cases q) simp_all

section \<open>The plans of a job go on\<close>

text \<open>
  A manifest that gives teardown no cause to act on the job, whose plans are \<open>M\<close>; a file system that holds only such
  manifests and no cancel marker of those plans; and the actions that keep it so.
\<close>

definition steady :: "plan_id set \<Rightarrow> job_id \<Rightarrow> time \<Rightarrow> time \<Rightarrow> plan_record \<Rightarrow> bool" where
  "steady M j now gate m \<longleftrightarrow> wf_plan m
     \<and> (j \<in> set (pm_job_ids m) \<longrightarrow> pm_plan_id m \<in> M \<and> pm_status m \<notin> {Cancelling, Cancelled}
          \<and> \<not> (pm_status m = Creating \<and> past_gate (pm_created_at m) now gate))"

definition steady_file :: "plan_id set \<Rightarrow> job_id \<Rightarrow> time \<Rightarrow> time \<Rightarrow> path \<Rightarrow> content \<Rightarrow> bool" where
  "steady_file M j now gate p c \<longleftrightarrow>
     (fst p = D_plans \<longrightarrow> (case c of C_plan m \<Rightarrow> steady M j now gate m | _ \<Rightarrow> True))
     \<and> (fst p = D_cancelled \<longrightarrow> fst (entry_of (snd p)) \<notin> M)"

definition calm :: "plan_id set \<Rightarrow> job_id \<Rightarrow> time \<Rightarrow> time \<Rightarrow> fs \<Rightarrow> bool" where
  "calm M j now gate s \<longleftrightarrow>
     list_all (\<lambda>p. case lookup s p of None \<Rightarrow> True | Some f \<Rightarrow> steady_file M j now gate p (f_content f)) (paths s)"

fun calm_act :: "plan_id set \<Rightarrow> job_id \<Rightarrow> time \<Rightarrow> time \<Rightarrow> act \<Rightarrow> bool" where
  "calm_act M j now gate (A_put p c) \<longleftrightarrow> steady_file M j now gate p c"
| "calm_act M j now gate _ \<longleftrightarrow> True"

lemma calm_iff: "calm M j now gate s \<longleftrightarrow> (\<forall>p f. lookup s p = Some f \<longrightarrow> steady_file M j now gate p (f_content f))"
  by (auto simp: calm_def list_all_iff present_iff [symmetric] present_def split: option.splits)

lemma steady_elsewhere:
  "fst p \<noteq> D_plans \<Longrightarrow> fst p \<noteq> D_cancelled \<Longrightarrow> steady_file M j now gate p c"
  "queue_job p \<noteq> None \<Longrightarrow> steady_file M j now gate p c" "record_job p \<noteq> None \<Longrightarrow> steady_file M j now gate p c"
  by (cases p; auto simp: steady_file_def record_job_def)+

lemma calm_steps:
  assumes "calm M j now gate s"
  shows "steady_file M j now gate p c \<Longrightarrow> calm M j now gate (put p c s)" "calm M j now gate (del p s)"
    "(\<And>c. steady_file M j now gate q c) \<Longrightarrow> calm M j now gate (mv p q s)" "calm M j now gate (tick n s)"
  using assms unfolding calm_iff by (auto simp: lookup_mv split: if_splits option.splits)

lemma calm_upheld: "(\<And>a. A a \<Longrightarrow> calm_act M j now gate a) \<Longrightarrow> upheld A (calm M j now gate)"
  unfolding upheld_def
proof (intro allI impI)
  fix a s
  assume A: "\<And>a. A a \<Longrightarrow> calm_act M j now gate a" "A a \<and> calm M j now gate s"
  then have "calm_act M j now gate a"
    by blast
  with A(2) show "calm M j now gate (perform a s)"
    by (cases a) (auto intro!: calm_steps simp: steady_elsewhere split: option.splits)
qed

lemma calm_blind: "(\<And>p. p \<in> S \<Longrightarrow> fst p \<noteq> D_plans \<and> fst p \<noteq> D_cancelled) \<Longrightarrow> blind S (calm M j now gate)"
  unfolding blind_def calm_iff using steady_elsewhere(1) by metis

section \<open>Reading the plans\<close>

lemma chl_read_manifest:
  assumes "upheld A P" "\<And>s. P s \<Longrightarrow> calm M j now gate s"
  shows "chl A P (vanished_is_absent (read_file (D_plans, leaf)))
    (\<lambda>c s. P s \<and> (\<forall>d. c = Some d \<longrightarrow> (\<forall>m. d = C_plan m \<longrightarrow> steady M j now gate m))) P"
proof (rule chl_vanished, rule chl_read_file [OF assms(1)])
  fix s f
  assume "P s" "lookup s (D_plans, leaf) = Some f"
  then have "steady_file M j now gate (D_plans, leaf) (f_content f)"
    using assms(2) calm_iff by blast
  with \<open>P s\<close> show "P s \<and> (\<forall>m. f_content f = C_plan m \<longrightarrow> steady M j now gate m)"
    by (simp add: steady_file_def split: content.splits)
qed

lemma chl_read_page:
  assumes "upheld A P" "\<And>s. P s \<Longrightarrow> calm M j now gate s"
  shows "list_all (steady M j now gate) items \<Longrightarrow>
    chl A P (read_page cs limit items) (\<lambda>r s. P s \<and> list_all (steady M j now gate) (fst r)) P"
proof (induction cs limit items rule: read_page.induct)
  case (2 leaf p is_dir cs limit items)
  let ?next = "\<lambda>c. case map_option decode_plan c of Some (Inr m) \<Rightarrow> items @ [m] | _ \<Rightarrow> items"
  have read: "chl A P (if is_dir then io_raise (E_io K_Other) else vanished_is_absent (read_file (D_plans, leaf)))
      (\<lambda>c s. P s \<and> (\<forall>d. c = Some d \<longrightarrow> (\<forall>m. d = C_plan m \<longrightarrow> steady M j now gate m))) P"
    using chl_read_manifest [OF assms] by (auto intro: chl_raise)
  have step: "list_all (steady M j now gate) (?next c)"
    if "\<forall>d. c = Some d \<longrightarrow> (\<forall>m. d = C_plan m \<longrightarrow> steady M j now gate m)" for c
    using that 2(2) by (cases c; cases "the c") (auto split: sum.splits)
  show ?case
    unfolding read_page.simps
  proof (rule chl_bind [OF read], rule chl_pure)
    fix c
    assume c: "\<forall>d. c = Some d \<longrightarrow> (\<forall>m. d = C_plan m \<longrightarrow> steady M j now gate m)"
    show "chl A P (let items = ?next c in if length items = limit then io_ret (items, if cs = [] then None else Some p)
        else read_page cs limit items) (\<lambda>r s. P s \<and> list_all (steady M j now gate) (fst r)) P"
      using step [OF c] 2(1) [OF refl _ step [OF c]] unfolding Let_def by (auto intro: chl_ret)
  qed
qed (auto intro: chl_ret)

lemma chl_list_plans:
  assumes "upheld A P" "blind {} P" "\<And>s. P s \<Longrightarrow> calm M j now gate s"
  shows "chl A P (list_plans after limit) (\<lambda>r s. P s \<and> list_all (steady M j now gate) (fst r)) P"
  unfolding list_plans_def
  by (rule chl_bind [OF withinD [OF within_dir_seems_there assms(1,2)]])
    (auto intro!: chl_ret chl_read_page assms chl_bind [OF withinD [OF within_read(1) assms(1,2)]] chl_bind [OF withinD [OF within_lift assms(1,2)]])

lemma chl_drain_plans:
  assumes "upheld A P" "blind {} P" "\<And>s. P s \<Longrightarrow> calm M j now gate s"
  shows "list_all (steady M j now gate) listing \<Longrightarrow>
    chl A P (drain_plans pages after listing) (\<lambda>ms s. P s \<and> list_all (steady M j now gate) ms) P"
proof (induction pages after listing rule: drain_plans.induct)
  case (2 pages after listing)
  have page: "chl A P (list_plans after DRAIN_PAGE_SIZE) (\<lambda>r s. P s \<and> list_all (steady M j now gate) (fst r)) P"
    by (rule chl_list_plans) (use assms in auto)
  show ?case
    unfolding drain_plans.simps
    by (rule chl_bind [OF page], rule chl_pure) (auto intro!: chl_ret 2 split: prod.split option.split simp: 2(2))
qed (auto intro: chl_raise)

lemma chl_list_cancel_markers:
  assumes "upheld A P" "blind {} P" "\<And>s. P s \<Longrightarrow> calm M j now gate s"
  shows "chl A P list_cancel_markers (\<lambda>cm s. P s \<and> set cm \<inter> M = {}) P"
proof -
  have list: "chl A P (read_dir D_cancelled []) (\<lambda>es s. P s \<and> (\<forall>n d. Inr (n, d) \<in> set es \<longrightarrow> n \<notin> M)) P"
  proof (rule chl_listing [OF assms(1)], intro allI impI)
    fix s es n d
    assume s: "P s" and "\<And>e. Inr e \<in> set es \<Longrightarrow> e \<in> set (entries s D_cancelled [])" "Inr (n, d) \<in> set es"
    then have "(n, d) \<in> set (entries s D_cancelled [])"
      by blast
    then obtain k f where "((D_cancelled, k), f) \<in> set (files s)" "entry_of k = (n, d)"
      by (auto simp: entries_def set_map_filter below_def)
    then have k: "present s (D_cancelled, k)" "fst (entry_of k) = n"
      by (force simp: present_iff paths_def)+
    then show "n \<notin> M"
      using assms(3) [OF s] calm_iff [of M j now gate s] unfolding present_def by (fastforce simp: steady_file_def)
  qed
  have parse: "chl A P (io_bind (io_lift (parse_flags plan_id_try_new es)) (\<lambda>ps. io_ret (map fst ps))) (\<lambda>cm s. P s \<and> set cm \<inter> M = {}) P"
    if "\<forall>n d. Inr (n, d) \<in> set es \<longrightarrow> n \<notin> M" for es
  proof (rule chl_bind [OF chl_lift, where Q = "\<lambda>ps s. P s \<and> set (map fst ps) \<inter> M = {}"])
    fix ps s
    assume "parse_flags plan_id_try_new es = Inr ps" "P s"
    then show "P s \<and> set (map fst ps) \<inter> M = {}"
      using that parse_flags_mem by (fastforce split: if_splits)
  qed (auto intro!: chl_ret)
  show ?thesis
    unfolding list_cancel_markers_def
    by (rule chl_bind [OF withinD [OF within_dir_exists assms(1,2)]]) (auto intro!: chl_ret chl_bind [OF list] chl_pure parse)
qed

section \<open>The plan passes leave the queue alone\<close>

lemma within_put_plan: "{D_plans} \<times> UNIV \<subseteq> S \<Longrightarrow> within S (put_plan x m)"
  by (rule within_mono [OF within_plans(1) [of "{D_plans}"]]) auto

lemma within_reconcile_plans:
  assumes "{D_plans, D_cancelled} \<times> UNIV \<subseteq> S"
  shows "within S (reconcile_plans x v manifests markers endings bodies)"
proof (rule withinI)
  fix A F
  assume F: "upheld A F" "blind S F"
  have S: "cancel_marker_path p \<in> S" "{D_plans} \<times> UNIV \<subseteq> S" for p
    using assms by (auto simp: cancel_marker_path_def)
  have "within S (reconcile_one_plan x v k e st)" for k e st
    unfolding reconcile_one_plan_def write_reconciled_def collect_cancel_marker_def Let_def
    by (auto intro!: within_intros within_counting within_put_plan S split: prod.split)
  moreover have "within S (rec_io (collect_orphaned_marker p) st)" for p st
    by (rule within_orphaned) (rule S(1))
  ultimately show "chl A F (reconcile_plans x v manifests markers endings bodies) (\<lambda>_. F) F"
    by (intro chl_reconcile_plans withinD [OF _ F])
qed

lemma within_delete_marker [within_intros]: "{D_job_plans} \<times> UNIV \<subseteq> S \<Longrightarrow> within S (delete_job_plan_marker x j p e)"
  unfolding delete_job_plan_marker_def by (rule within_remove_idempotent) (auto simp: job_plan_path_def)

lemma within_record_member_lapses:
  assumes "{D_plans, D_job_plans} \<times> UNIV \<subseteq> S"
  shows "within S (record_member_lapses x manifests markers cancel_markers stranded now gate)"
proof -
  have S: "{D_plans} \<times> UNIV \<subseteq> S" "{D_job_plans} \<times> UNIV \<subseteq> S"
    using assms by auto
  have "within S (has_record i)" for i
    unfolding has_record_def record_paths_def by (auto intro!: within_intros)
  moreover have "within S (record_one_lapse x markers q i h now)" for q i h
    unfolding record_one_lapse_def Let_def
    by (auto intro!: within_intros within_for within_put_plan S split: option.split)
  ultimately show ?thesis
    unfolding record_member_lapses_def record_lapse_def
    by (auto intro!: within_fold within_intros split: prod.split option.split sum.split)
qed

lemma within_gc_plan_index:
  assumes "{D_content_keys, D_job_plans} \<times> UNIV \<subseteq> S"
  shows "within S (gc_plan_index x manifests markers live prior now gate)"
proof -
  have S: "{D_job_plans} \<times> UNIV \<subseteq> S" "content_key_path digest \<in> S" for digest
    using assms by (auto simp: content_key_path_def)
  have "within S (delete_content_key digest r)" for digest r
    unfolding delete_content_key_def by (auto intro!: within_intros within_remove_idempotent within_remove S split: option.split)
  moreover have "within S list_content_keys"
    unfolding list_content_keys_def by (auto intro!: within_intros within_fold split: option.split sum.split)
  ultimately show ?thesis
    unfolding gc_plan_index_def gc_content_key_def gc_membership_marker_def Let_def
    by (auto intro!: within_fold within_intros S split: prod.split option.split sum.split)
qed

lemma within_gc_pending_plan_sources:
  assumes "{D_plan_sources, D_pending_sources} \<times> UNIV \<subseteq> S"
  shows "within S (gc_pending_plan_sources prior now gate)"
proof -
  have S: "source_path p \<in> S" "(D_pending_sources, p) \<in> S" for p
    using assms by (auto simp: source_path_def)
  have "within S list_pending_source_markers"
    unfolding list_pending_source_markers_def by (auto intro!: within_intros within_fold split: option.split sum.split)
  moreover have "within S (collect_pending_source p)" for p
    unfolding collect_pending_source_def delete_plan_source_def delete_pending_source_marker_def
    by (intro within_intros within_remove_idempotent S)
  ultimately show ?thesis
    unfolding gc_pending_plan_sources_def Let_def
    by (auto intro!: within_fold within_intros split: prod.split sum.split)
qed

section \<open>The run\<close>

definition off_job :: "job_id \<Rightarrow> path set" where
  "off_job j = {p. queue_job p \<noteq> Some j}"

lemma owned_blind: "blind (off_job j) (owned_inv r j f)"
  unfolding blind_def owned_inv_def sole_entry_iff present_def off_job_def by (metis mem_Collect_eq)

lemma owned_upheld: "(\<And>a. A a \<Longrightarrow> spares r a \<and> unrestored j a) \<Longrightarrow> upheld A (owned_inv r j f)"
  unfolding upheld_def using owned.R_env owned.R_inv by blast

lemma owned_within:
  assumes "within (off_job j) m" "\<And>w a w'. m w = (Inr a, w') \<Longrightarrow> Q a"
  shows "owned.knows r j f m Q"
  unfolding owned.knows_def rg_def
proof (intro allI impI)
  fix w e w'
  assume w: "sched_ok (\<lambda>a. spares r a \<and> unrestored j a) w \<and> owned_inv r j f (w_fs w) \<and> anyfs (w_fs w) \<and> m w = (e, w')"
  have "chl (\<lambda>a. spares r a \<and> unrestored j a) (owned_inv r j f) m (\<lambda>_. owned_inv r j f) (owned_inv r j f)"
    by (rule withinD [OF assms(1) owned_upheld owned_blind])
  from chlD [OF this, of w e w'] w have "sched_ok (\<lambda>a. spares r a \<and> unrestored j a) w' \<and> owned_inv r j f (w_fs w')"
    by (auto split: sum.splits)
  with w assms(2) show "sched_ok (\<lambda>a. spares r a \<and> unrestored j a) w' \<and> owned_rel r j (w_fs w) (w_fs w') \<and> (\<forall>a. e = Inr a \<longrightarrow> Q a)"
    by (auto simp: owned_inv_def owned_rel_def same_at_def)
qed


lemma owned_passes:
  assumes "valid_job_id j" "list_all (steady M j now gate) ms" "set cm \<inter> M = {}"
  shows "owned.passes_ok r j f (plan_maintenance x pages) now gate cm ms"
proof -
  have "\<forall>m\<in>set ms. wf_plan m \<and> (j \<in> set (pm_job_ids m) \<longrightarrow> teardown_cause m (set cm) now gate = None)"
    using assms(2,3) by (auto simp: list_all_iff steady_def teardown_cause_def)
  then have down: "within (off_job j) (tear_down_plans x ms (set cm) mem av ls now gate)" if "wf_leases ls" for mem av ls
    unfolding off_job_def by (rule within_tear_down [OF assms(1) that])
  have dirs: "({D_plans, D_cancelled, D_job_plans, D_content_keys, D_plan_sources, D_pending_sources} \<times> UNIV) \<subseteq> off_job j"
    by (auto simp: off_job_def)
  show ?thesis
    unfolding owned.passes_ok_def plan_maintenance_def plan_passes.simps
    using dirs
    by (intro conjI allI impI owned_within [OF down] tear_down_outcome owned.knows_safe [OF owned_within [where Q = "\<lambda>_. True"]]
        within_record_member_lapses within_reconcile_plans within_gc_plan_index within_gc_pending_plan_sources) auto
qed

lemma chl_begin_run:
  assumes "\<And>a. A a \<Longrightarrow> spares r a \<and> unrestored j a \<and> calm_act M j now gate a"
  shows "chl A (\<lambda>s. owned_inv r j f s \<and> calm M j now gate s) (begin_run (plan_maintenance x pages))
    (\<lambda>(prior, cm, ms) s. owned_inv r j f s \<and> set cm \<inter> M = {} \<and> list_all (steady M j now gate) ms) (owned_inv r j f)"
proof -
  let ?P = "\<lambda>s. owned_inv r j f s \<and> calm M j now gate s"
  have up: "upheld A ?P"
    by (intro upheld_conj owned_upheld calm_upheld) (use assms in blast)+
  have blind: "blind S ?P" if "S \<subseteq> {D_todo} \<times> UNIV" for S
    using that by (intro blind_conj calm_blind blind_mono [OF owned_blind]) (auto simp: off_job_def)
  have cand: "within {gc_candidates_path} read_gc_candidates" "within {gc_candidates_path} (write_gc_candidates [])"
    unfolding read_gc_candidates_def write_gc_candidates_def read_key_set_def write_key_set_def
    by (auto intro!: within_intros within_write_file)
  have todo: "{gc_candidates_path} \<subseteq> {D_todo} \<times> UNIV"
    by (simp add: gc_candidates_path_def)
  have read: "chl A ?P (read_plans pages) (\<lambda>(cm, ms) s. ?P s \<and> set cm \<inter> M = {} \<and> list_all (steady M j now gate) ms) ?P"
    unfolding read_plans_def
    by (rule chl_bind [OF chl_list_cancel_markers [OF up blind]], simp, blast, rule chl_pure,
        rule chl_bind [OF chl_drain_plans [OF up blind]], simp, blast, simp) (auto intro!: chl_ret)
  have "chl A ?P (begin_run (plan_maintenance x pages))
      (\<lambda>(prior, cm, ms) s. ?P s \<and> set cm \<inter> M = {} \<and> list_all (steady M j now gate) ms) ?P"
    unfolding begin_run_def plan_maintenance_def plan_passes.simps
    by (rule chl_bind [OF withinD [OF cand(1) up blind [OF todo]]], rule chl_bind [OF withinD [OF cand(2) up blind [OF todo]]],
        rule chl_bind [OF read]) (auto intro!: chl_ret)
  then show ?thesis
    by (rule chl_conseq) auto
qed


lemma owned_may_run:
  assumes "stamps_apart (m_ext m)" "entry_ok q" "in_time now live q"
    and "f_content f = C_json b" "retire_rule b = None" "clients_only_roster b = None"
    and live: "\<And>n clients u. r_clients fleet n = Inr (clients, u) \<Longrightarrow> live \<subseteq> set (map client_id clients)"
  shows "owned.may_run (entry_job_id q) f (entry_path (m_ext m) q) m fleet now"
proof -
  let ?x = "m_ext m" and ?j = "entry_job_id q" and ?p = "entry_path (m_ext m) q"
  have job: "avail_ok a \<Longrightarrow> entry_path ?x (Q_Avail a) = ?p \<Longrightarrow> ak_job_id a = ?j" for a
    using entry_path_job [OF assms(2), of ?x] entry_path_job [of "Q_Avail a" ?x] by simp
  have "owned.may_settle ?j f ?p m now"
    unfolding owned.may_settle_def using in_time_apart [OF assms(1-3)] job assms(4-6) by auto
  moreover have "owned.may_collect ?p ?x (set (map client_id clients))"
    if "r_clients fleet n = Inr (clients, u)" for n clients u
    unfolding owned.may_collect_def using in_time_apart(1) [OF assms(1-3)] live [OF that] by blast
  ultimately show ?thesis
    unfolding owned.may_run_def by blast
qed



text \<open>The job of a running plan, beside a plan that is being cancelled; while the run goes on another plan is cancelled.\<close>

definition planned_queue :: fs where
  "planned_queue = sample_queue\<lparr>files := files sample_queue @
     [(manifest_path ''plan-1'', plan_file Active),
      (manifest_path ''plan-2'', \<lparr>f_content = C_plan ((sample_plan Cancelling)\<lparr>pm_plan_id := ''plan-2'', pm_job_ids := [''j4'']\<rparr>), f_mtime = 0\<rparr>),
      (cancel_marker_path ''plan-2'', \<lparr>f_content = C_empty, f_mtime = 0\<rparr>)]\<rparr>"

definition planned_world :: world where
  "planned_world = sample_world\<lparr>w_fs := planned_queue,
     w_sched := ([A_put (cancel_marker_path ''plan-3'') C_empty], NoFault) # w_sched sample_world\<rparr>"


end
