(* ===== verification/Queue_Spec.thy ===== *)
theory Queue_Spec
  imports Todo_Store
begin

text \<open>
  The queue as a map, and the directory tree that implements it. A job is available until a deadline
  or leased to a client until a time, with its body; the operations of the store change
  that map. \<open>holds x q s\<close> relates a map to a file system: the two queue directories hold exactly
  the files the map gives, each under its name. The undisturbed store operations simulate the
  operations on the map, with the same answers.
\<close>

section \<open>The abstract queue\<close>

datatype entry = Available expires_at json | Leased expires_at client_id time json

type_synonym queue = "job_id \<Rightarrow> entry option"

datatype qop =
    OpPublish job_id expires_at json
  | OpClaim job_id expires_at client_id time
  | OpRenew job_id client_id time
  | OpRecycle job_id expires_at client_id time
  | OpRedate job_id expires_at expires_at
  | OpDeleteAvail job_id expires_at
  | OpDeleteLease job_id expires_at client_id time
  | OpGetAvail job_id expires_at
  | OpGetLeased job_id expires_at client_id time

datatype answer =
    AClaim claim_result
  | ARenew renew_lease_result
  | ARecycle recycle_result
  | ARedate redate_result
  | ADone
  | ABody "json option"

text \<open>The lease expiry of a name counts in whole seconds.\<close>

fun perform_op :: "qop \<Rightarrow> queue \<Rightarrow> answer \<times> queue" where
  "perform_op (OpPublish j e b) q = (ADone, q(j \<mapsto> Available e b))"
| "perform_op (OpClaim j e c t) q =
     (case q j of
        Some (Available d b) \<Rightarrow>
          if d = e then (AClaim (Claimed b), q(j \<mapsto> Leased e c (whole_secs t) b)) else (AClaim ClaimGone, q)
      | _ \<Rightarrow> (AClaim ClaimGone, q))"
| "perform_op (OpRenew j c t) q =
     (case q j of
        Some (Leased e d _ b) \<Rightarrow>
          if d = c then (ARenew (Renewed e), q(j \<mapsto> Leased e c (whole_secs t) b)) else (ARenew WrongClient, q)
      | _ \<Rightarrow> (ARenew RenewNotFound, q))"
| "perform_op (OpRecycle j e c t) q =
     (case q j of
        Some (Leased d a u b) \<Rightarrow>
          if d = e \<and> a = c \<and> u = t then (ARecycle Recycled, q(j \<mapsto> Available e b)) else (ARecycle RecycleGone, q)
      | _ \<Rightarrow> (ARecycle RecycleGone, q))"
| "perform_op (OpRedate j e to) q =
     (case q j of
        Some (Available d b) \<Rightarrow>
          if d = e then (ARedate Redated, q(j \<mapsto> Available to b)) else (ARedate RedateGone, q)
      | _ \<Rightarrow> (ARedate RedateGone, q))"
| "perform_op (OpDeleteAvail j e) q =
     (case q j of Some (Available d b) \<Rightarrow> (ADone, if d = e then q(j := None) else q) | _ \<Rightarrow> (ADone, q))"
| "perform_op (OpDeleteLease j e c t) q =
     (case q j of
        Some (Leased d a u b) \<Rightarrow> (ADone, if d = e \<and> a = c \<and> u = t then q(j := None) else q)
      | _ \<Rightarrow> (ADone, q))"
| "perform_op (OpGetAvail j e) q =
     (ABody (case q j of Some (Available d b) \<Rightarrow> if d = e then Some b else None | _ \<Rightarrow> None), q)"
| "perform_op (OpGetLeased j e c t) q =
     (ABody (case q j of
        Some (Leased d a u b) \<Rightarrow> if d = e \<and> a = c \<and> u = t then Some b else None
      | _ \<Rightarrow> None), q)"

text \<open>The store operation of each.\<close>

fun store_op :: "ext \<Rightarrow> qop \<Rightarrow> answer io" where
  "store_op x (OpPublish j e b) = io_bind (write_tmp j b) (\<lambda>_. io_bind (promote_avail x j e) (\<lambda>_. io_ret ADone))"
| "store_op x (OpClaim j e c t) = io_bind (claim_job x j e c t) (\<lambda>r. io_ret (AClaim r))"
| "store_op x (OpRenew j c t) = io_bind (renew_lease x j c t) (\<lambda>r. io_ret (ARenew r))"
| "store_op x (OpRecycle j e c t) = io_bind (recycle_lease x j e c t) (\<lambda>r. io_ret (ARecycle r))"
| "store_op x (OpRedate j e to) = io_bind (redate_avail x j e to) (\<lambda>r. io_ret (ARedate r))"
| "store_op x (OpDeleteAvail j e) = io_bind (delete_avail x j e) (\<lambda>_. io_ret ADone)"
| "store_op x (OpDeleteLease j e c t) = io_bind (delete_lease x j e c t) (\<lambda>_. io_ret ADone)"
| "store_op x (OpGetAvail j e) = io_bind (get_avail x j e) (\<lambda>b. io_ret (ABody b))"
| "store_op x (OpGetLeased j e c t) = io_bind (get_leased x j e c t) (\<lambda>b. io_ret (ABody b))"

text \<open>
  The arguments the callers pass: valid ids, deadlines and times that names can carry; and a
  job is published once, under an id without an entry.
\<close>

fun op_ok :: "qop \<Rightarrow> bool" where
  "op_ok (OpPublish j e b) \<longleftrightarrow> valid_job_id j \<and> key_deadline e"
| "op_ok (OpClaim j e c t) \<longleftrightarrow> valid_job_id j \<and> key_deadline e \<and> valid_client_id c \<and> in_years t"
| "op_ok (OpRenew j c t) \<longleftrightarrow> valid_job_id j \<and> valid_client_id c \<and> in_years t"
| "op_ok (OpRecycle j e c t) \<longleftrightarrow> valid_job_id j \<and> key_deadline e \<and> valid_client_id c \<and> key_time t"
| "op_ok (OpRedate j e to) \<longleftrightarrow> valid_job_id j \<and> key_deadline e \<and> key_deadline to"
| "op_ok (OpDeleteAvail j e) \<longleftrightarrow> valid_job_id j \<and> key_deadline e"
| "op_ok (OpDeleteLease j e c t) \<longleftrightarrow> valid_job_id j \<and> key_deadline e \<and> valid_client_id c \<and> key_time t"
| "op_ok (OpGetAvail j e) \<longleftrightarrow> valid_job_id j \<and> key_deadline e"
| "op_ok (OpGetLeased j e c t) \<longleftrightarrow> valid_job_id j \<and> key_deadline e \<and> valid_client_id c \<and> key_time t"

fun enabled :: "qop \<Rightarrow> queue \<Rightarrow> bool" where
  "enabled (OpPublish j e b) q \<longleftrightarrow> q j = None"
| "enabled _ q \<longleftrightarrow> True"

text \<open>A sequence of operations.\<close>

fun perform_ops :: "qop list \<Rightarrow> queue \<Rightarrow> answer list \<times> queue" where
  "perform_ops [] q = ([], q)"
| "perform_ops (op # ops) q =
     (let (a, q') = perform_op op q; (as, q'') = perform_ops ops q' in (a # as, q''))"

fun ops_ok :: "qop list \<Rightarrow> queue \<Rightarrow> bool" where
  "ops_ok [] q \<longleftrightarrow> True"
| "ops_ok (op # ops) q \<longleftrightarrow> op_ok op \<and> enabled op q \<and> ops_ok ops (snd (perform_op op q))"

section \<open>The tree that implements it\<close>

fun entry_file :: "ext \<Rightarrow> job_id \<Rightarrow> entry \<Rightarrow> path" where
  "entry_file x j (Available e b) = avail_path x j e"
| "entry_file x j (Leased e c t b) = leased_path x j e c t"

fun entry_body :: "entry \<Rightarrow> json" where
  "entry_body (Available e b) = b"
| "entry_body (Leased e c t b) = b"

fun wf_entry :: "job_id \<Rightarrow> entry \<Rightarrow> bool" where
  "wf_entry j (Available e b) \<longleftrightarrow> valid_job_id j \<and> key_deadline e"
| "wf_entry j (Leased e c t b) \<longleftrightarrow> valid_job_id j \<and> key_deadline e \<and> valid_client_id c \<and> key_time t"

text \<open>What the map says a path of a queue directory holds.\<close>

definition expected :: "ext \<Rightarrow> queue \<Rightarrow> path \<Rightarrow> content option" where
  "expected x q p =
     Option.bind (queue_job p) (\<lambda>j. Option.bind (q j) (\<lambda>en.
       if entry_file x j en = p then Some (C_json (entry_body en)) else None))"

definition holds :: "ext \<Rightarrow> queue \<Rightarrow> fs \<Rightarrow> bool" where
  "holds x q s \<longleftrightarrow>
     (\<forall>j en. q j = Some en \<longrightarrow> wf_entry j en)
     \<and> (\<forall>p. fst p \<in> {D_avail, D_leased} \<longrightarrow> map_option f_content (lookup s p) = expected x q p)"

lemma entry_file_job: "wf_entry j en \<Longrightarrow> queue_job (entry_file x j en) = Some j"
  by (cases en) simp_all

lemma entry_file_inj:
  assumes "ext_ok x" "wf_entry j a" "wf_entry j b" "entry_file x j a = entry_file x j b"
  shows "(\<exists>e u v. a = Available e u \<and> b = Available e v) \<or> (\<exists>e c t u v. a = Leased e c t u \<and> b = Leased e c t v)"
proof (cases a; cases b)
  fix e u f v
  assume *: "a = Available e u" "b = Available f v"
  then have "parse_avail_filename x (avail_filename x j e) = parse_avail_filename x (avail_filename x j f)"
    using assms(4) by (simp add: avail_path_def)
  with * show ?thesis
    using assms(1-3) by simp
next
  fix e c t u f d s v
  assume *: "a = Leased e c t u" "b = Leased f d s v"
  then have "parse_leased_key x (leased_key x j e c t) = parse_leased_key x (leased_key x j f d s)"
    using assms(4) by (simp add: leased_path_def)
  with * show ?thesis
    using assms(1-3) by (simp add: key_time_def)
qed (use assms(4) in \<open>auto simp: avail_path_def leased_path_def\<close>)

lemma entry_file_dir [simp]: "fst (entry_file x j en) = D_avail \<or> fst (entry_file x j en) = D_leased"
  by (cases en) (simp_all add: avail_path_def leased_path_def)

lemma holds_wf: "holds x q s \<Longrightarrow> q j = Some en \<Longrightarrow> wf_entry j en"
  unfolding holds_def by blast

lemma holds_at:
  assumes "holds x q s" "wf_entry j en"
  shows "map_option f_content (lookup s (entry_file x j en)) =
    (case q j of None \<Rightarrow> None
     | Some a \<Rightarrow> if entry_file x j a = entry_file x j en then Some (C_json (entry_body a)) else None)"
proof -
  have "map_option f_content (lookup s (entry_file x j en)) = expected x q (entry_file x j en)"
    using assms(1) entry_file_dir [of x j en] unfolding holds_def by blast
  then show ?thesis
    by (simp add: expected_def entry_file_job [OF assms(2)] split: option.split)
qed

lemma holds_entry:
  assumes "holds x q s" "q j = Some en"
  shows "\<exists>f. lookup s (entry_file x j en) = Some f \<and> f_content f = C_json (entry_body en)"
  using holds_at [OF assms(1) holds_wf [OF assms]] assms(2) by simp

text \<open>The same entry up to its body.\<close>

fun same_name :: "entry \<Rightarrow> entry \<Rightarrow> bool" where
  "same_name (Available e _) (Available f _) \<longleftrightarrow> e = f"
| "same_name (Leased e c t _) (Leased f d u _) \<longleftrightarrow> e = f \<and> c = d \<and> t = u"
| "same_name _ _ \<longleftrightarrow> False"

lemma holds_absent:
  assumes "ext_ok x" "holds x q s" "wf_entry j en" "\<And>a. q j = Some a \<Longrightarrow> \<not> same_name a en"
  shows "lookup s (entry_file x j en) = None"
proof -
  have "entry_file x j a \<noteq> entry_file x j en" if "q j = Some a" for a
    using entry_file_inj [OF assms(1) holds_wf [OF assms(2) that] assms(3)] assms(4) [OF that] by fastforce
  then show ?thesis
    using holds_at [OF assms(2,3)] by (auto split: option.splits)
qed

lemma expected_other: "queue_job p \<noteq> Some j \<Longrightarrow> expected x (q(j := v)) p = expected x q p"
  by (cases "queue_job p") (auto simp: expected_def)

lemma holds_move:
  assumes "holds x q s" "q j = Some a" "wf_entry j b" "entry_body b = entry_body a"
  shows "holds x (q(j \<mapsto> b)) (mv (entry_file x j a) (entry_file x j b) s)"
proof -
  obtain f where f: "lookup s (entry_file x j a) = Some f" "f_content f = C_json (entry_body a)"
    using holds_entry [OF assms(1,2)] by blast
  have old: "map_option f_content (lookup s p) = expected x q p" if "fst p \<in> {D_avail, D_leased}" for p
    using assms(1) that unfolding holds_def by blast
  have "map_option f_content (lookup (mv (entry_file x j a) (entry_file x j b) s) p) = expected x (q(j \<mapsto> b)) p"
    if p: "fst p \<in> {D_avail, D_leased}" for p
  proof (cases "queue_job p = Some j")
    case True
    then show ?thesis
      using f old [OF p] assms(2,4) by (auto simp: lookup_mv expected_def)
  next
    case False
    then have "p \<noteq> entry_file x j a" "p \<noteq> entry_file x j b"
      using entry_file_job [OF assms(3)] entry_file_job [OF holds_wf [OF assms(1,2)]] by auto
    with False f old [OF p] show ?thesis
      by (simp add: lookup_mv expected_other)
  qed
  with assms(1,3) show ?thesis
    unfolding holds_def by auto
qed

lemma holds_delete:
  assumes "holds x q s" "q j = Some a"
  shows "holds x (q(j := None)) (del (entry_file x j a) s)"
proof -
  have "map_option f_content (lookup (del (entry_file x j a) s) p) = expected x (q(j := None)) p"
    if p: "fst p \<in> {D_avail, D_leased}" for p
  proof -
    have old: "map_option f_content (lookup s p) = expected x q p"
      using assms(1) p unfolding holds_def by blast
    have job: "queue_job (entry_file x j a) = Some j"
      by (rule entry_file_job [OF holds_wf [OF assms]])
    show ?thesis
    proof (cases "queue_job p = Some j")
      case True
      then show ?thesis
        using old assms(2) by (auto simp: expected_def)
    next
      case False
      with job old show ?thesis
        by (auto simp: expected_other)
    qed
  qed
  with assms(1) show ?thesis
    unfolding holds_def by auto
qed

lemma holds_insert:
  assumes "holds x q s" "q j = None" "wf_entry j en" "lookup s (D_tmp, n) = Some f" "f_content f = C_json (entry_body en)"
  shows "holds x (q(j \<mapsto> en)) (mv (D_tmp, n) (entry_file x j en) s)"
proof -
  have "map_option f_content (lookup (mv (D_tmp, n) (entry_file x j en) s) p) = expected x (q(j \<mapsto> en)) p"
    if p: "fst p \<in> {D_avail, D_leased}" for p
  proof -
    have old: "map_option f_content (lookup s p) = expected x q p"
      using assms(1) p unfolding holds_def by blast
    have tmp: "p \<noteq> (D_tmp, n)"
      using p by auto
    show ?thesis
    proof (cases "queue_job p = Some j")
      case True
      then show ?thesis
        using old tmp assms(2,4,5) by (auto simp: expected_def lookup_mv)
    next
      case False
      then show ?thesis
        using entry_file_job [OF assms(3), of x] old tmp assms(4) by (auto simp: expected_other lookup_mv)
    qed
  qed
  with assms(1,3) show ?thesis
    unfolding holds_def by auto
qed

lemma holds_put:
  assumes "holds x q s" "fst p \<notin> {D_avail, D_leased}"
  shows "holds x q (put p c s)"
proof -
  have "lookup (put p c s) r = lookup s r" if "fst r \<in> {D_avail, D_leased}" for r
    using assms(2) that by auto
  with assms(1) show ?thesis
    unfolding holds_def by simp
qed

section \<open>The operations simulate\<close>

text \<open>One answer and one successor, undisturbed, that the map agrees with.\<close>

definition simulates :: "ext \<Rightarrow> qop \<Rightarrow> queue \<Rightarrow> world \<Rightarrow> bool" where
  "simulates x op q w \<longleftrightarrow>
     (\<exists>w'. store_op x op w = (Inr (fst (perform_op op q)), w') \<and> holds x (snd (perform_op op q)) (w_fs w')
       \<and> w_sched w' = [])"

lemma renames_run:
  assumes "ext_ok x" "holds x q (w_fs w)" "w_sched w = []" "wf_entry j en" "wf_entry j to"
    and "\<And>a. q j = Some a \<Longrightarrow> same_name a en \<Longrightarrow> same_name b to \<and> entry_body b = entry_body a"
  shows "\<exists>w'. vanished_is_absent (rename_file (entry_file x j en) (entry_file x j to)) w =
      (Inr (if \<exists>a. q j = Some a \<and> same_name a en then Some () else None), w')
    \<and> w_sched w' = []
    \<and> holds x (if \<exists>a. q j = Some a \<and> same_name a en then q(j \<mapsto> b) else q) (w_fs w')"
proof -
  have names: "same_name a b \<Longrightarrow> entry_file x j a = entry_file x j b" for a b
    by (cases "(a, b)" rule: same_name.cases) simp_all
  show ?thesis
  proof (cases "\<exists>a. q j = Some a \<and> same_name a en")
    case True
    then obtain a where a: "q j = Some a" "same_name a en"
      by blast
    with assms(6) have b: "same_name b to" "entry_body b = entry_body a"
      by blast+
    have "wf_entry j b"
      using b(1) assms(5) by (cases "(b, to)" rule: same_name.cases) simp_all
    moreover have "present (w_fs w) (entry_file x j en)"
      using holds_entry [OF assms(2) a(1)] names [OF a(2)] by (auto simp: present_def)
    ultimately show ?thesis
      using holds_move [OF assms(2) a(1) _ b(2)] True assms(3) names [OF a(2)] names [OF b(1)]
      by (auto simp: quiet)
  next
    case False
    then have "lookup (w_fs w) (entry_file x j en) = None"
      by (intro holds_absent [OF assms(1,2,4)]) blast
    with False assms(2,3) show ?thesis
      by (auto simp: quiet present_def)
  qed
qed

lemma read_run:
  assumes "ext_ok x" "holds x q (w_fs w)" "w_sched w = []" "wf_entry j en"
  shows "read_body (entry_file x j en) w =
    (Inr (case q j of None \<Rightarrow> None | Some a \<Rightarrow> if same_name a en then Some (entry_body a) else None), w)"
proof (cases "\<exists>a. q j = Some a \<and> same_name a en")
  case True
  then obtain a where a: "q j = Some a" "same_name a en"
    by blast
  then have "entry_file x j a = entry_file x j en"
    by (cases "(a, en)" rule: same_name.cases) simp_all
  with holds_entry [OF assms(2) a(1)] a assms(3) show ?thesis
    by (auto simp: read_body_def quiet)
next
  case False
  then have "lookup (w_fs w) (entry_file x j en) = None"
    by (intro holds_absent [OF assms(1,2,4)]) blast
  with False assms(3) show ?thesis
    by (auto simp: read_body_def quiet split: option.split)
qed

lemma remove_run:
  assumes "ext_ok x" "holds x q (w_fs w)" "w_sched w = []" "wf_entry j en"
  shows "\<exists>w'. remove_file_idempotent (entry_file x j en) w = (Inr (), w') \<and> w_sched w' = []
    \<and> holds x (if \<exists>a. q j = Some a \<and> same_name a en then q(j := None) else q) (w_fs w')"
proof (cases "\<exists>a. q j = Some a \<and> same_name a en")
  case True
  then obtain a where a: "q j = Some a" "same_name a en"
    by blast
  then have "entry_file x j a = entry_file x j en"
    by (cases "(a, en)" rule: same_name.cases) simp_all
  with holds_delete [OF assms(2) a(1)] holds_entry [OF assms(2) a(1)] True assms(3) show ?thesis
    by (auto simp: quiet present_def)
next
  case False
  then have "lookup (w_fs w) (entry_file x j en) = None"
    by (intro holds_absent [OF assms(1,2,4)]) blast
  with False assms(2,3) show ?thesis
    by (auto simp: quiet present_def del_absent)
qed

text \<open>The operations that name their entry.\<close>

lemma simulates_reads:
  assumes "ext_ok x" "holds x q (w_fs w)" "w_sched w = []"
  shows "op_ok (OpGetAvail j e) \<Longrightarrow> simulates x (OpGetAvail j e) q w"
    and "op_ok (OpGetLeased j e c t) \<Longrightarrow> simulates x (OpGetLeased j e c t) q w"
  using read_run [OF assms, of j "Available e JNull"] read_run [OF assms, of j "Leased e c t JNull"] assms(2,3)
  by (auto simp: simulates_def get_avail_def get_leased_def quiet split: option.split entry.split)

lemma simulates_deletes:
  assumes "ext_ok x" "holds x q (w_fs w)" "w_sched w = []"
  shows "op_ok (OpDeleteAvail j e) \<Longrightarrow> simulates x (OpDeleteAvail j e) q w"
    and "op_ok (OpDeleteLease j e c t) \<Longrightarrow> simulates x (OpDeleteLease j e c t) q w"
  using remove_run [OF assms, of j "Available e JNull"] remove_run [OF assms, of j "Leased e c t JNull"]
  by (auto simp: simulates_def delete_avail_def delete_lease_def io_bind_def io_ret_def split: option.splits entry.splits if_splits)

lemma leased_file: "ext_ok x \<Longrightarrow> in_years t \<Longrightarrow> leased_path x j e c t = entry_file x j (Leased e c (whole_secs t) b)"
  by (simp add: leased_path_def leased_key_whole_secs)

lemma simulates_recycle:
  assumes "ext_ok x" "holds x q (w_fs w)" "w_sched w = []" "op_ok (OpRecycle j e c t)"
  shows "simulates x (OpRecycle j e c t) q w"
proof -
  let ?b = "Available e (case q j of Some a \<Rightarrow> entry_body a | None \<Rightarrow> JNull)"
  show ?thesis
    using renames_run [OF assms(1-3), of j "Leased e c t JNull" "Available e JNull" ?b] assms(4)
    by (auto simp: simulates_def recycle_lease_def io_bind_def io_ret_def split: option.splits entry.splits if_splits)
qed

lemma simulates_redate:
  assumes "ext_ok x" "holds x q (w_fs w)" "w_sched w = []" "op_ok (OpRedate j e to)"
  shows "simulates x (OpRedate j e to) q w"
proof -
  let ?b = "Available to (case q j of Some a \<Rightarrow> entry_body a | None \<Rightarrow> JNull)"
  show ?thesis
    using renames_run [OF assms(1-3), of j "Available e JNull" "Available to JNull" ?b] assms(4)
    by (auto simp: simulates_def redate_avail_def io_bind_def io_ret_def split: option.splits entry.splits if_splits)
qed

lemma simulates_claim:
  assumes "ext_ok x" "holds x q (w_fs w)" "w_sched w = []" "op_ok (OpClaim j e c t)"
  shows "simulates x (OpClaim j e c t) q w"
proof -
  let ?to = "\<lambda>b. Leased e c (whole_secs t) b"
  have dest: "leased_path x j e c t = entry_file x j (?to b)" for b
    using assms(1,4) by (intro leased_file) simp_all
  have wf: "wf_entry j (?to b)" for b
    using assms(4) by (simp add: key_time_whole_secs)
  show ?thesis
  proof (cases "\<exists>b. q j = Some (Available e b)")
    case True
    then obtain b where b: "q j = Some (Available e b)"
      by blast
    obtain f where f: "lookup (w_fs w) (avail_path x j e) = Some f" "f_content f = C_json b"
      using holds_entry [OF assms(2) b] by auto
    let ?s = "mv (avail_path x j e) (leased_path x j e c t) (w_fs w)"
    have "holds x (q(j \<mapsto> ?to b)) ?s"
      using holds_move [OF assms(2) b wf] dest by simp
    moreover have "lookup ?s (leased_path x j e c t) = Some f"
      using f by (simp add: lookup_mv)
    ultimately show ?thesis
      using b f assms(3) by (auto simp: simulates_def claim_job_def quiet present_def)
  next
    case False
    then have "lookup (w_fs w) (entry_file x j (Available e JNull)) = None"
      using assms(4) by (intro holds_absent [OF assms(1,2)]) (auto elim: same_name.elims)
    with False assms(2,3) show ?thesis
      by (auto simp: simulates_def claim_job_def quiet present_def split: option.split entry.split)
  qed
qed

text \<open>A renewal finds its entry in a listing of the client's partition.\<close>

definition lease_leaf :: "ext \<Rightarrow> job_id \<Rightarrow> expires_at \<Rightarrow> time \<Rightarrow> string" where
  "lease_leaf x j e t = j @ ''.'' @ show_expires_at x e @ ''.'' @ fmt_ts x t @ json_suffix"

lemma leased_path_leaf: "leased_path x j e c t = (D_leased, c @ ''/'' @ lease_leaf x j e t)"
  by (simp add: leased_path_def leased_key_def lease_leaf_def)

lemma lease_leaf_chars:
  assumes "ext_ok x" "wf_entry j (Leased e c t b)"
  shows "CHR ''/'' \<notin> set (lease_leaf x j e t)"
  using assms by (auto simp: lease_leaf_def id_chars show_expires_at_chars fmt_ts_chars key_time_def json_suffix_def)

lemma holds_leased_iff:
  assumes "holds x q s"
  shows "present s (D_leased, k) \<longleftrightarrow>
    (\<exists>j e c t b. q j = Some (Leased e c t b) \<and> k = c @ ''/'' @ lease_leaf x j e t)"
proof
  assume "present s (D_leased, k)"
  moreover have "map_option f_content (lookup s (D_leased, k)) = expected x q (D_leased, k)"
    using assms unfolding holds_def by simp
  ultimately have "expected x q (D_leased, k) \<noteq> None"
    by (metis option.map_disc_iff present_def)
  then obtain j en where en: "q j = Some en" "entry_file x j en = (D_leased, k)"
    by (auto simp: expected_def bind_eq_Some_conv split: if_splits)
  moreover obtain e c t b where "en = Leased e c t b"
    using en(2) by (cases en) (auto simp: avail_path_def)
  ultimately have "q j = Some (Leased e c t b)" "k = c @ ''/'' @ lease_leaf x j e t"
    by (simp_all add: leased_path_leaf)
  then show "\<exists>j e c t b. q j = Some (Leased e c t b) \<and> k = c @ ''/'' @ lease_leaf x j e t"
    by blast
next
  assume "\<exists>j e c t b. q j = Some (Leased e c t b) \<and> k = c @ ''/'' @ lease_leaf x j e t"
  then show "present s (D_leased, k)"
    using holds_entry [OF assms] by (fastforce simp: present_def leased_path_leaf)
qed

lemma partition_entries:
  assumes "ext_ok x" "holds x q s" "valid_client_id c"
  shows "r \<in> set (entries s D_leased c) \<longleftrightarrow>
    (\<exists>j e t b. q j = Some (Leased e c t b) \<and> r = (lease_leaf x j e t, False))"
proof -
  have c: "c \<noteq> []" "CHR ''/'' \<notin> set c"
    using assms(3) by (simp_all add: id_chars valid_client_id_def)
  have under: "below c (d @ ''/'' @ lease_leaf x j e t) = Some l \<longleftrightarrow> d = c \<and> l = lease_leaf x j e t"
    if "q j = Some (Leased e d t b)" for j e d t b l
  proof -
    have "CHR ''/'' \<notin> set d"
      using holds_wf [OF assms(2) that] by (simp add: id_chars)
    then have "starts_with (c @ ''/'') (d @ ''/'' @ lease_leaf x j e t) \<longleftrightarrow> d = c"
      using c(2) first_part_eq [of "CHR ''/''" d c] by (auto simp: starts_with_iff)
    with c(1) show ?thesis
      by (auto simp: below_def)
  qed
  have leaf: "entry_of (lease_leaf x j e t) = (lease_leaf x j e t, False)" if "q j = Some (Leased e d t b)" for j e d t b
    using lease_leaf_chars [OF assms(1) holds_wf [OF assms(2) that]] 
    by (simp add: entry_of_def split_once_None_iff [THEN iffD2])
  have "r \<in> set (entries s D_leased c) \<longleftrightarrow>
      (\<exists>j e d t b. q j = Some (Leased e d t b) \<and> (\<exists>l. below c (d @ ''/'' @ lease_leaf x j e t) = Some l \<and> r = entry_of l))"
    unfolding set_entries holds_leased_iff [OF assms(2)] by blast
  also have "\<dots> \<longleftrightarrow> (\<exists>j e t b. q j = Some (Leased e c t b) \<and> r = (lease_leaf x j e t, False))"
  proof (intro iffI; elim exE conjE)
    fix j e d t b l
    assume q: "q j = Some (Leased e d t b)" and l: "below c (d @ ''/'' @ lease_leaf x j e t) = Some l" "r = entry_of l"
    then show "\<exists>j e t b. q j = Some (Leased e c t b) \<and> r = (lease_leaf x j e t, False)"
      using under [OF q] leaf [OF q] by metis
  next
    fix j e t b
    assume q: "q j = Some (Leased e c t b)" and r: "r = (lease_leaf x j e t, False)"
    then have "below c (c @ ''/'' @ lease_leaf x j e t) = Some (lease_leaf x j e t)" "r = entry_of (lease_leaf x j e t)"
      using under [OF q] leaf [OF q] by metis+
    with q show "\<exists>j e d t b. q j = Some (Leased e d t b)
        \<and> (\<exists>l. below c (d @ ''/'' @ lease_leaf x j e t) = Some l \<and> r = entry_of l)"
      by blast
  qed
  finally show ?thesis .
qed

lemma partition_names:
  assumes "ext_ok x" "holds x q s" "valid_client_id c"
  shows "n \<in> set (map fst (entries s D_leased c)) \<longleftrightarrow>
    (\<exists>j e t b. q j = Some (Leased e c t b) \<and> n = lease_leaf x j e t)"
proof -
  have "n \<in> set (map fst (entries s D_leased c)) \<longleftrightarrow> (\<exists>r. r \<in> set (entries s D_leased c) \<and> n = fst r)"
    unfolding set_map image_iff Bex_def ..
  then show ?thesis
    unfolding partition_entries [OF assms] by (metis fst_conv)
qed

lemma starts_lease_leaf:
  assumes "valid_job_id i" "valid_job_id j"
  shows "starts_with (j @ ''.'') (lease_leaf x i e t) \<longleftrightarrow> i = j"
  using first_part_eq [of "CHR ''.''" i j] assms
  by (auto simp: starts_with_iff lease_leaf_def id_chars)

lemma own_leaf_run:
  assumes "ext_ok x" "holds x q s" "valid_job_id j" "valid_client_id c"
  shows "own_leaf x j c (entries s D_leased c) =
    (case q j of Some (Leased e d t b) \<Rightarrow> if d = c then Some (lease_leaf x j e t, e) else None | _ \<Rightarrow> None)"
proof -
  define f where "f n = map_option (\<lambda>l. (n, l_expires_at l)) (ok (parse_leased_key x (c @ ''/'' @ n)))" for n
  define L where "L = List.map_filter f (filter (starts_with (j @ ''.'')) (map fst (entries s D_leased c)))"
  have own: "own_leaf x j c (entries s D_leased c) = (case L of [] \<Rightarrow> None | r # _ \<Rightarrow> Some r)"
    unfolding own_leaf_def L_def f_def ..
  have "f (lease_leaf x i e t) = Some (lease_leaf x i e t, e)" if "q i = Some (Leased e c t b)" for i e t b
    using parse_lease_name [OF assms(1), of i e c t] holds_wf [OF assms(2) that]
    by (simp add: f_def leased_key_def lease_leaf_def key_time_def del: parse_lease_name)
  moreover have "starts_with (j @ ''.'') (lease_leaf x i e t) \<longleftrightarrow> i = j" if "q i = Some (Leased e c t b)" for i e t b
    using holds_wf [OF assms(2) that] assms(3) by (simp add: starts_lease_leaf)
  moreover have "r \<in> set L \<longleftrightarrow> (\<exists>n. (\<exists>i e t b. q i = Some (Leased e c t b) \<and> n = lease_leaf x i e t)
      \<and> starts_with (j @ ''.'') n \<and> f n = Some r)" for r
    unfolding partition_names [OF assms(1,2,4), symmetric] by (auto simp: L_def set_map_filter)
  ultimately have L: "r \<in> set L \<longleftrightarrow> (\<exists>e t b. q j = Some (Leased e c t b) \<and> r = (lease_leaf x j e t, e))" for r
    by (smt (verit) option.inject)
  show ?thesis
  proof (cases L)
    case Nil
    then have "q j \<noteq> Some (Leased e c t b)" for e t b
      using L [of "(lease_leaf x j e t, e)"] by auto
    with Nil own show ?thesis
      by (auto split: option.split entry.split)
  next
    case (Cons r rs)
    then obtain e t b where "q j = Some (Leased e c t b)" "r = (lease_leaf x j e t, e)"
      using L [of r] by auto
    with Cons own show ?thesis
      by simp
  qed
qed

text \<open>And learns from a listing of the other partitions that the job is leased to another client.\<close>

lemma root_entries:
  assumes "ext_ok x" "holds x q s"
  shows "r \<in> set (entries s D_leased []) \<longleftrightarrow> (\<exists>j e c t b. q j = Some (Leased e c t b) \<and> r = (c, True))"
proof -
  have dirs: "entry_of (c @ ''/'' @ lease_leaf x j e t) = (c, True)" if "q j = Some (Leased e c t b)" for j e c t b
    using holds_wf [OF assms(2) that] by (simp add: entry_of_def id_chars)
  have "r \<in> set (entries s D_leased []) \<longleftrightarrow>
      (\<exists>j e c t b. q j = Some (Leased e c t b) \<and> r = entry_of (c @ ''/'' @ lease_leaf x j e t))"
    unfolding set_entries holds_leased_iff [OF assms(2)] below_def if_True option.inject simp_thms by blast
  then show ?thesis
    using dirs by metis
qed

lemma readable_Inr [simp]: "readable (map Inr es) = es"
  unfolding readable_def by (rule map_filter_all_Some) simp

lemma elsewhere_fold:
  assumes "w_sched w = []"
  shows "io_fold (\<lambda>(partition, is_dir) found.
      if \<not> is_dir \<or> partition = c \<or> found then io_ret found
      else io_bind (read_readable D_leased partition) (\<lambda>ls. io_ret (list_ex P ls))) rs b w =
    (Inr (b \<or> (\<exists>(p, is_dir) \<in> set rs. is_dir \<and> p \<noteq> c \<and> list_ex P (entries (w_fs w) D_leased p))), w)"
  using assms
  by (induction rs arbitrary: b) (auto simp: quiet read_readable_def readable_Inr)

lemma elsewhere_run:
  assumes "ext_ok x" "holds x q (w_fs w)" "w_sched w = []" "valid_job_id j"
  shows "leased_elsewhere j c w = (Inr (\<exists>e d t b. q j = Some (Leased e d t b) \<and> d \<noteq> c), w)"
proof -
  let ?P = "\<lambda>(n, is_dir). \<not> is_dir \<and> starts_with (j @ ''.'') n"
  have "list_ex ?P (entries (w_fs w) D_leased d) \<longleftrightarrow> (\<exists>e t b. q j = Some (Leased e d t b))"
    if "q i = Some (Leased f d u a)" for i f d u a
  proof -
    have "valid_client_id d"
      using holds_wf [OF assms(2) that] by simp
    then have "list_ex ?P (entries (w_fs w) D_leased d) \<longleftrightarrow>
        (\<exists>i e t b. q i = Some (Leased e d t b) \<and> starts_with (j @ ''.'') (lease_leaf x i e t))"
      unfolding list_ex_iff Bex_def partition_entries [OF assms(1,2) \<open>valid_client_id d\<close>]
      by (metis (no_types, lifting) case_prod_conv)
    then show ?thesis
      using holds_wf [OF assms(2)] assms(4) by (metis starts_lease_leaf wf_entry.simps(2))
  qed
  then have "(\<exists>(p, is_dir) \<in> set (entries (w_fs w) D_leased []). is_dir \<and> p \<noteq> c \<and> list_ex ?P (entries (w_fs w) D_leased p))
      \<longleftrightarrow> (\<exists>e d t b. q j = Some (Leased e d t b) \<and> d \<noteq> c)"
    unfolding Bex_def root_entries [OF assms(1,2)] by fastforce
  then show ?thesis
    using elsewhere_fold [OF assms(3)] assms(3)
    by (simp add: leased_elsewhere_def quiet readable_Inr)
qed

lemma simulates_renew:
  assumes "ext_ok x" "holds x q (w_fs w)" "w_sched w = []" "op_ok (OpRenew j c t)"
  shows "simulates x (OpRenew j c t) q w"
proof -
  have own: "own_leaf x j c (entries (w_fs w) D_leased c) =
      (case q j of Some (Leased e d t b) \<Rightarrow> if d = c then Some (lease_leaf x j e t, e) else None | _ \<Rightarrow> None)"
    using own_leaf_run [OF assms(1,2)] assms(4) by simp
  have listing: "read_readable D_leased c w = (Inr (entries (w_fs w) D_leased c), w)"
    using assms(3) by (simp add: read_readable_def quiet)
  show ?thesis
  proof (cases "\<exists>e u b. q j = Some (Leased e c u b)")
    case True
    then obtain e u b where q: "q j = Some (Leased e c u b)"
      by blast
    let ?to = "Leased e c (whole_secs t) b"
    have dest: "leased_path x j e c t = entry_file x j ?to"
      using assms(1,4) by (intro leased_file) simp_all
    have "wf_entry j ?to"
      using holds_wf [OF assms(2) q] assms(4) by (simp add: key_time_whole_secs)
    then have "holds x (q(j \<mapsto> ?to)) (mv (leased_path x j e c u) (leased_path x j e c t) (w_fs w))"
      using holds_move [OF assms(2) q, of ?to] dest by simp
    moreover have "present (w_fs w) (leased_path x j e c u)"
      using holds_entry [OF assms(2) q] by (auto simp: present_def)
    then have "renew_lease x j c t w =
        (Inr (Renewed e), w\<lparr>w_fs := mv (leased_path x j e c u) (leased_path x j e c t) (w_fs w)\<rparr>)"
      using own q assms(3) unfolding renew_lease_def leased_path_leaf [of x j e c u]
      by (simp add: quiet listing)
    ultimately show ?thesis
      using q assms(3) by (simp add: simulates_def quiet)
  next
    case False
    have "leased_elsewhere j c w = (Inr (\<exists>e d t b. q j = Some (Leased e d t b) \<and> d \<noteq> c), w)"
      using assms(4) by (intro elsewhere_run [OF assms(1-3)]) simp
    moreover have "own_leaf x j c (entries (w_fs w) D_leased c) = None"
      using own False by (auto split: option.splits entry.splits)
    ultimately have "renew_lease x j c t w =
        (Inr (if \<exists>e d t b. q j = Some (Leased e d t b) \<and> d \<noteq> c then WrongClient else RenewNotFound), w)"
      unfolding renew_lease_def by (simp add: listing quiet)
    with False assms(2,3) show ?thesis
      by (auto simp: simulates_def quiet split: option.splits entry.splits)
  qed
qed

lemma simulates_publish:
  assumes "ext_ok x" "holds x q (w_fs w)" "w_sched w = []" "op_ok (OpPublish j e b)" "q j = None"
  shows "simulates x (OpPublish j e b) q w"
proof -
  let ?s = "put (D_tmp, tmp_filename j) (C_json b) (w_fs w)"
  have "holds x (q(j \<mapsto> Available e b)) (mv (D_tmp, tmp_filename j) (entry_file x j (Available e b)) ?s)"
    using holds_insert [OF holds_put [OF assms(2)] assms(5), of "(D_tmp, tmp_filename j)" "Available e b"]
      assms(4) by simp
  then show ?thesis
    using assms(3)
    by (simp add: simulates_def write_tmp_def promote_avail_def io_map_err_def attempt_def quiet present_def)
qed

lemma store_op_simulates:
  assumes "ext_ok x" "holds x q (w_fs w)" "w_sched w = []" "op_ok op" "enabled op q"
  shows "simulates x op q w"
  using assms(4,5)
  by (cases op) (simp_all only: simulates_reads [OF assms(1-3)] simulates_deletes [OF assms(1-3)]
      simulates_recycle [OF assms(1-3)] simulates_redate [OF assms(1-3)] simulates_claim [OF assms(1-3)]
      simulates_renew [OF assms(1-3)] simulates_publish [OF assms(1-3)] enabled.simps)


text \<open>A job published, claimed by one client, asked for by another, renewed and given back.\<close>

definition sample_ops :: "qop list" where
  "sample_ops =
     [OpPublish ''j1'' Never (JStr ''a''), OpClaim ''j1'' Never ''dev'' (2 * second), OpRenew ''j1'' ''box'' second,
      OpRenew ''j1'' ''dev'' (3 * second), OpRecycle ''j1'' Never ''dev'' (3 * second), OpGetAvail ''j1'' Never]"


end
