(* ===== verification/Archive_Order.thy ===== *)
theory Archive_Order
  imports Scoring
begin

text \<open>
  The order of writes of the fast scoring worker: a record leaves \<open>incoming/\<close> only after its rows
  are in the warehouse.
\<close>

section \<open>Partitions do not overlap\<close>

definition tree_of :: "string \<Rightarrow> path set" where
  "tree_of d = {(D_warehouse, k) | k. prefix (d @ ''/'') k}"

definition apart :: "string \<Rightarrow> string \<Rightarrow> bool" where
  "apart d e \<longleftrightarrow> \<not> prefix (d @ ''/'') (e @ ''/'') \<and> \<not> prefix (e @ ''/'') (d @ ''/'')"

definition plain_key :: "string \<times> client_id \<times> string \<Rightarrow> bool" where
  "plain_key k \<longleftrightarrow> (case k of (b, c, y) \<Rightarrow> CHR ''/'' \<notin> set b \<and> CHR ''/'' \<notin> set c \<and> CHR ''/'' \<notin> set y)"

definition key_dir :: "string \<times> client_id \<times> string \<Rightarrow> string" where
  "key_dir k = (case k of (b, c, y) \<Rightarrow> warehouse_day_partition_dir b c y)"

lemma within_write_partition: "within (tree_of d) (write_partition x d rows cap)"
proof -
  have "within (tree_of d) (write_parquet_atomic x d i rows)" for i rows
    unfolding write_parquet_atomic_def
    by (rule within_replace) (simp_all add: tree_of_def tmp_sibling_def part_path_def)
  then have "within (tree_of d) (write_parts x d i cs)" for i cs
    by (induction cs arbitrary: i) (auto intro!: within_intros)
  then show ?thesis
    unfolding write_partition_def tail_part_def Let_def
    by (auto intro!: within_intros split: option.split)
qed

lemma blind_parts:
  assumes "apart d e" "d \<noteq> []"
  shows "blind (tree_of e) (holds_parts d m)"
  unfolding blind_def
proof (intro allI impI, elim conjE)
  fix s t
  assume s: "holds_parts d m s" and same: "\<forall>p. p \<notin> tree_of e \<longrightarrow> lookup t p = lookup s p"
  have out: "(D_warehouse, d @ ''/'' @ l) \<notin> tree_of e" for l
    using assms(1) prefix_same_cases [of "e @ ''/''" "d @ ''/'' @ l" "d @ ''/''"] by (auto simp: tree_of_def apart_def)
  have k: "k = d @ ''/'' @ l" if "below d k = Some l" for k l
  proof -
    have "take (Suc (length d)) k = d @ ''/''" "l = drop (Suc (length d)) k"
      using that assms(2) by (auto simp: below_def starts_with_def split: if_splits)
    then have "take (Suc (length d)) k @ drop (Suc (length d)) k = (d @ ''/'') @ l"
      by simp
    then show ?thesis
      by simp
  qed
  have at: "lookup t (D_warehouse, d @ ''/'' @ l) = lookup s (D_warehouse, d @ ''/'' @ l)" for l
    using same out by blast
  have "(n, b) \<in> set (entries s D_warehouse d)" if "(n, b) \<in> set (entries t D_warehouse d)" for n b
  proof -
    from that obtain k l where "present t (D_warehouse, k)" "below d k = Some l" "(n, b) = entry_of l"
      unfolding set_entries by blast
    moreover from this have "present s (D_warehouse, k)"
      using k at by (metis present_def)
    ultimately show ?thesis
      unfolding set_entries by blast
  qed
  then show "holds_parts d m t"
    by (rule holds_parts_keep [OF s]) (use at in \<open>simp_all add: part_path_def\<close>)
qed

lemma key_dir_apart:
  assumes "plain_key k" "plain_key l" "k \<noteq> l"
  shows "apart (key_dir k) (key_dir l)"
proof -
  have three: "count_list (key_dir k @ ''/'') CHR ''/'' = 3" if "plain_key k" for k
    using that by (auto simp: key_dir_def plain_key_def warehouse_day_partition_dir_def count_notin split: prod.splits)
  have same: "key_dir k = key_dir l" if "prefix (key_dir k @ ''/'') (key_dir l @ ''/'')" "plain_key k" "plain_key l" for k l
  proof -
    from that(1) obtain z where z: "key_dir l @ ''/'' = (key_dir k @ ''/'') @ z"
      by (rule prefixE)
    have "count_list z CHR ''/'' = 0"
      using three [OF that(2)] three [OF that(3)] unfolding z by simp
    then have "z = []"
      using z by (cases z rule: rev_cases) auto
    with z show ?thesis
      by simp
  qed
  have "(b, c, y) = (b', c', y')" if "key_dir (b, c, y) = key_dir (b', c', y')" "plain_key (b, c, y)" "plain_key (b', c', y')"
    for b c y b' c' y'
  proof -
    have eq: "b @ CHR ''/'' # ''client_id='' @ c @ CHR ''/'' # ''day='' @ y =
        b' @ CHR ''/'' # ''client_id='' @ c' @ CHR ''/'' # ''day='' @ y'"
      using that(1) by (simp add: key_dir_def warehouse_day_partition_dir_def)
    have plain: "CHR ''/'' \<notin> set b" "CHR ''/'' \<notin> set b'" "CHR ''/'' \<notin> set c" "CHR ''/'' \<notin> set c'"
      using that(2,3) by (simp_all add: plain_key_def)
    from first_part_eq [OF plain(1,2) eq] have "b = b'"
      "c @ CHR ''/'' # ''day='' @ y = c' @ CHR ''/'' # ''day='' @ y'"
      by simp_all
    with first_part_eq [OF plain(3,4) this(2)] show ?thesis
      by simp
  qed
  then have "k = l" if "key_dir k = key_dir l" "plain_key k" "plain_key l" for k l
    using that by (cases k; cases l) blast
  with same assms show ?thesis
    unfolding apart_def by metis
qed

section \<open>The commit of a chunk\<close>

text \<open>Nobody else writes to the warehouse or takes the record away.\<close>

fun lone_scorer :: "path \<Rightarrow> act \<Rightarrow> bool" where
  "lone_scorer r (A_unrecord p) \<longleftrightarrow> p \<noteq> r"
| "lone_scorer r a \<longleftrightarrow> no_warehouse a"

definition written :: "string \<Rightarrow> json list \<Rightarrow> json list \<Rightarrow> fs \<Rightarrow> bool" where
  "written d old rows s \<longleftrightarrow> (\<exists>m a b. holds_parts d m s \<and> rows_of m = old @ a @ rows @ b)"

lemma lone_scorer_warehouse: "lone_scorer r a \<Longrightarrow> no_warehouse a"
  by (cases a) simp_all

lemma upheld_record: "record_job r \<noteq> None \<Longrightarrow> upheld (lone_scorer r) (\<lambda>s. present s r)"
  unfolding upheld_def
proof (intro allI impI, elim conjE)
  fix a s
  assume "record_job r \<noteq> None" "lone_scorer r a" "present s r"
  moreover from this have "queue_job r = None"
    using queue_not_record by (cases "queue_job r") auto
  ultimately show "present (perform a s) r"
    by (cases a) (auto simp: present_def lookup_mv split: option.splits)
qed

lemma upheld_parts_lone: "upheld (lone_scorer r) (holds_parts d m)"
  by (rule upheld_mono [OF upheld_parts]) (rule lone_scorer_warehouse)

lemma upheld_written: "upheld (lone_scorer r) (written d old rows)"
  using upheld_parts_lone unfolding upheld_def written_def by metis

lemma blind_written: "(\<And>m. blind S (holds_parts d m)) \<Longrightarrow> blind S (written d old rows)"
  unfolding blind_def written_def by metis

lemma blind_outside: "fst ` S \<inter> {D_warehouse} = {} \<Longrightarrow> blind S (holds_parts d m)"
  unfolding blind_def by (metis holds_parts_cong disjoint_iff fst_conv image_eqI singletonI)

lemma within_commit_job:
  assumes "scorer_ok sc"
  shows "within ({D_incoming, D_processed, D_eval_samples} \<times> UNIV) (commit_job sc s)"
  unfolding commit_job_def write_samples_def write_eval_samples_def record_run_evidence_def
  using assms by (auto intro!: within_intros within_records within_dir_replace
      simp: scorer_ok_def within_off_tree split: option.split)

lemma within_commit_jobs:
  assumes "scorer_ok sc"
  shows "within ({D_incoming, D_processed, D_eval_samples} \<times> UNIV) (commit_jobs sc js)"
  unfolding commit_jobs_def by (auto intro!: within_intros within_fold within_commit_job assms)

lemma within_write_metrics: "within (tree_of (key_dir k)) (case k of (b, c, y) \<Rightarrow> write_partition_metrics x cap b c y rows)"
  using within_write_partition by (auto simp: write_partition_metrics_def key_dir_def intro: within_intros split: prod.split)

lemma partitions_split:
  assumes "s \<in> set jobs"
  obtains ks ls a b where
    "partitions jobs = map (\<lambda>k. (k, concat (map sj_rows (filter (\<lambda>s. partition_key s = k) jobs))))
       (ks @ partition_key s # ls)"
    "partition_key s \<notin> set ks \<union> set ls" "set ks \<union> set ls \<subseteq> partition_key ` set jobs"
    "concat (map sj_rows (filter (\<lambda>t. partition_key t = partition_key s) jobs)) = a @ sj_rows s @ b"
proof -
  let ?K = "sort (remdups (map partition_key jobs))"
  obtain ks ls where K: "?K = ks @ partition_key s # ls"
    using assms split_list [of "partition_key s" ?K] by auto
  have "distinct ?K"
    by simp
  moreover have "set ?K = partition_key ` set jobs"
    by simp
  ultimately have "partition_key s \<notin> set ks \<union> set ls" "set ks \<union> set ls \<subseteq> partition_key ` set jobs"
    unfolding K by auto
  moreover obtain js ls' where "filter (\<lambda>t. partition_key t = partition_key s) jobs = js @ s # ls'"
    using assms split_list [of s "filter (\<lambda>t. partition_key t = partition_key s) jobs"] by auto
  ultimately show ?thesis
    using K that by (simp add: partitions_def)
qed

lemma io_bind_assoc: "io_bind (io_bind m k) h = io_bind m (\<lambda>a. io_bind (k a) h)"
  by (rule ext) (simp add: io_bind_def split: prod.split sum.split)

lemma io_for_append: "io_for (as @ bs) f = io_bind (io_for as f) (\<lambda>_. io_for bs f)"
  by (induction as) (simp_all add: io_bind_assoc, simp add: io_bind_def io_ret_def)

lemma chl_for_keep: "(\<And>a. a \<in> set as \<Longrightarrow> chl A F (f a) (\<lambda>_. F) F) \<Longrightarrow> chl A F (io_for as f) (\<lambda>_. F) F"
  by (induction as) (auto intro!: chl_ret chl_bind [where Q = "\<lambda>_. F"])

lemma key_dir_nonempty: "key_dir k \<noteq> []"
  by (simp add: key_dir_def warehouse_day_partition_dir_def split: prod.split)

lemma chl_own_partition:
  assumes "record_job r \<noteq> None" "fst r \<noteq> D_warehouse" "finite (dom m)" "\<forall>r \<in> ran m. length r \<le> cap"
    "\<forall>i \<in> dom m. i + length (a @ rows @ b) < 2 ^ 63" "length (a @ rows @ b) < 2 ^ 63"
  shows "chl (lone_scorer r) (\<lambda>s. present s r \<and> holds_parts (key_dir k) m s)
    (case k of (bid, c, y) \<Rightarrow> write_partition_metrics x cap bid c y (a @ rows @ b))
    (\<lambda>_. written (key_dir k) (rows_of m) rows) (\<lambda>s. present s r)"
proof (cases k)
  case (fields bid c y)
  let ?w = "write_partition x (key_dir k) (a @ rows @ b) cap"
  have here: "chl (lone_scorer r) (\<lambda>s. present s r) ?w (\<lambda>_ s. present s r) (\<lambda>s. present s r)"
    by (rule withinD [OF within_write_partition upheld_record [OF assms(1)] blind_present])
      (use assms(2) in \<open>auto simp: tree_of_def\<close>)
  have rows: "chl (lone_scorer r) (holds_parts (key_dir k) m) ?w
      (\<lambda>_. appended (key_dir k) cap (rows_of m @ a @ rows @ b)) (grown (key_dir k) cap (rows_of m) (a @ rows @ b))"
    by (rule chl_restrict [OF within_write_partition chl_write_partition [OF key_dir_nonempty assms(3-6)]])
      (rule lone_scorer_warehouse)
  have "chl (lone_scorer r) (\<lambda>s. present s r \<and> holds_parts (key_dir k) m s) ?w
      (\<lambda>_. written (key_dir k) (rows_of m) rows) (\<lambda>s. present s r)"
    by (rule chl_conseq [OF chl_conj [OF here rows]]) (auto simp: appended_def written_def)
  then show ?thesis
    using fields by (auto simp: write_partition_metrics_def key_dir_def intro: chl_raise)
qed

lemma chl_write_partitions:
  assumes "record_job r \<noteq> None" "fst r \<noteq> D_warehouse" "finite (dom m)" "\<forall>r \<in> ran m. length r \<le> cap"
    "\<forall>i \<in> dom m. i + length (a @ rows @ b) < 2 ^ 63" "length (a @ rows @ b) < 2 ^ 63"
    and keys: "k \<notin> set ks \<union> set ls" "\<forall>l \<in> insert k (set ks \<union> set ls). plain_key l" "g k = a @ rows @ b"
  shows "chl (lone_scorer r) (\<lambda>s. present s r \<and> holds_parts (key_dir k) m s)
    (io_for (map (\<lambda>k. (k, g k)) (ks @ k # ls)) (\<lambda>((b, c, d), rows). write_partition_metrics x cap b c d rows))
    (\<lambda>_. written (key_dir k) (rows_of m) rows) (\<lambda>s. present s r \<or> written (key_dir k) (rows_of m) rows s)"
    (is "chl ?A ?P (io_for (map ?g _) ?f) ?Q ?E")
proof -
  have split: "?f (l, rows) = (case l of (b, c, y) \<Rightarrow> write_partition_metrics x cap b c y rows)" for l rows
    by (cases l) simp
  have apart: "apart (key_dir k) (key_dir l)" if "l \<in> set ks \<union> set ls" for l
    using that keys(1,2) key_dir_apart by (metis insertCI)
  have other: "chl ?A F (?f (?g l)) (\<lambda>_. F) F"
    if "l \<in> set ks \<union> set ls" "upheld ?A F" "blind (tree_of (key_dir l)) F" for l F
    unfolding split by (rule withinD [OF within_write_metrics that(2,3)])
  have before: "chl ?A ?P (io_for (map ?g ks) ?f) (\<lambda>_. ?P) ?P"
  proof (rule chl_for_keep)
    fix e
    assume "e \<in> set (map ?g ks)"
    then obtain l where l: "l \<in> set ks" "e = ?g l"
      by auto
    have "blind (tree_of (key_dir l)) ?P"
      using assms(2) l(1) apart key_dir_nonempty
      by (intro blind_conj blind_present blind_parts) (auto simp: tree_of_def)
    then show "chl ?A ?P (?f e) (\<lambda>_. ?P) ?P"
      unfolding l(2) using l(1) assms(1) by (intro other upheld_conj upheld_record upheld_parts_lone) auto
  qed
  have after: "chl ?A (?Q ()) (io_for (map ?g ls) ?f) ?Q (?Q ())"
  proof (rule chl_for_keep)
    fix e
    assume "e \<in> set (map ?g ls)"
    then obtain l where l: "l \<in> set ls" "e = ?g l"
      by auto
    then show "chl ?A (?Q ()) (?f e) (\<lambda>_. ?Q ()) (?Q ())"
      unfolding l(2) using l(1) apart key_dir_nonempty
      by (intro other upheld_written blind_written blind_parts) auto
  qed
  have own: "chl ?A ?P (?f (?g k)) ?Q (\<lambda>s. present s r)"
    unfolding split keys(3) by (rule chl_own_partition [OF assms(1-6)])
  have "chl ?A ?P (io_bind (?f (?g k)) (\<lambda>_. io_for (map ?g ls) ?f)) ?Q ?E"
    by (rule chl_bind [OF chl_conseq [OF own] chl_conseq [OF after]]) auto
  then have "chl ?A ?P (io_bind (io_for (map ?g ks) ?f) (\<lambda>_. io_bind (?f (?g k)) (\<lambda>_. io_for (map ?g ls) ?f))) ?Q ?E"
    by (intro chl_bind [OF chl_conseq [OF before]]) auto
  then show ?thesis
    by (simp only: map_append io_for_append list.map io_for.simps)
qed

text \<open>
  C9: A result is archived only after its metrics are in the warehouse. Whatever call fails and
  wherever the worker dies while it commits a chunk, when the record of a scored job has left
  \<open>incoming/\<close> its rows are in its day partition, whole and after the rows that were there, so a job
  of which rows are missing is scored again by the next run.
\<close>

theorem archived_after_written:
  assumes "scorer_ok sc" "commit_chunk sc outcomes w = (res, w')"
    and job: "s \<in> set (List.map_filter job_with_rows outcomes)"
    and "present (w_fs w) (submission_path D_incoming (sj_job_id s))"
      "sched_ok (lone_scorer (submission_path D_incoming (sj_job_id s))) w"
    and plain: "\<forall>t \<in> set (List.map_filter job_with_rows outcomes). plain_key (partition_key t)"
    and parts: "holds_parts (key_dir (partition_key s)) m (w_fs w)" "\<forall>r \<in> ran m. length r \<le> sc_max_rows sc"
      "\<forall>i \<in> insert 0 (dom m). i + length (concat (map sj_rows (filter (\<lambda>t. partition_key t = partition_key s)
         (List.map_filter job_with_rows outcomes)))) < 2 ^ 63"
  shows "present (w_fs w') (submission_path D_incoming (sj_job_id s)) \<or>
    written (key_dir (partition_key s)) (rows_of m) (sj_rows s) (w_fs w')"
proof -
  let ?r = "submission_path D_incoming (sj_job_id s)" and ?k = "partition_key s"
  let ?W = "written (key_dir ?k) (rows_of m) (sj_rows s)" and ?A = "lone_scorer (submission_path D_incoming (sj_job_id s))"
  let ?P = "\<lambda>s. present s ?r \<and> holds_parts (key_dir ?k) m s" and ?E = "\<lambda>s. present s ?r \<or> ?W s"
  let ?g = "\<lambda>k. concat (map sj_rows (filter (\<lambda>s. partition_key s = k) (List.map_filter job_with_rows outcomes)))"
  have r: "record_job ?r \<noteq> None" "fst ?r \<noteq> D_warehouse"
    by (simp_all add: submission_path_def record_job_def)
  obtain ks ls a b where split: "partitions (List.map_filter job_with_rows outcomes) = map (\<lambda>k. (k, ?g k)) (ks @ ?k # ls)"
      "?k \<notin> set ks \<union> set ls" "set ks \<union> set ls \<subseteq> partition_key ` set (List.map_filter job_with_rows outcomes)"
      "?g ?k = a @ sj_rows s @ b"
    by (rule partitions_split [OF job])
  have fin: "finite (dom m)"
    using parts(1) by (simp add: holds_parts_def)
  have "chl ?A ?P (io_for (partitions (List.map_filter job_with_rows outcomes)) (\<lambda>((b, c, d), rows).
      write_partition_metrics (sc_ext sc) (sc_max_rows sc) b c d rows)) (\<lambda>_. ?W) ?E"
    unfolding split(1)
  proof (rule chl_write_partitions [where a = a and b = b and g = ?g, OF r fin parts(2) _ _ split(2) _ split(4)])
    show "\<forall>i \<in> dom m. i + length (a @ sj_rows s @ b) < 2 ^ 63" "length (a @ sj_rows s @ b) < 2 ^ 63"
      using parts(3) unfolding split(4) by auto
    show "\<forall>l \<in> insert ?k (set ks \<union> set ls). plain_key l"
      using split(3) plain job by blast
  qed
  moreover have "chl ?A ?W (io_bind (commit_jobs sc js) (\<lambda>deferred.
      if js \<noteq> [] \<and> length deferred = length js then io_raise E_bail else io_ret (f deferred))) (\<lambda>_. ?W) ?E" for js f
    by (rule chl_conseq [OF withinD [OF within_bind [OF within_commit_jobs [OF assms(1)]]
          upheld_written blind_written [OF blind_outside]]]) (auto intro: within_intros)
  ultimately have "chl ?A ?P (commit_chunk sc outcomes) (\<lambda>_. ?W) ?E"
    unfolding commit_chunk_def Let_def by (rule chl_bind)
  from chlD [OF this assms(5) _ assms(2)] assms(4) parts(1) show ?thesis
    by (auto split: sum.splits)
qed

text \<open>One scored job; the worker dies while the part file is staged, or after it.\<close>

definition sample_commit :: world where
  "sample_commit = \<lparr>w_fs = \<lparr>files = [(submission_path D_incoming ''j2'', \<lparr>f_content = C_json JNull, f_mtime = 0\<rparr>)], clock = 0\<rparr>,
     w_draws = 0, w_sched = [([], NoFault), ([A_tick 1], NoFault), ([], NoFault), ([], NoFault), ([], NoFault), ([], Crash)]\<rparr>"

theorem archived_after_written_witness:
  "present (w_fs (snd (commit_chunk sample_scorer [O_Scored sample_scored] sample_commit))) (submission_path D_incoming ''j2'')
   \<or> written (key_dir (partition_key sample_scored)) [] [JNull, JBool True]
       (w_fs (snd (commit_chunk sample_scorer [O_Scored sample_scored] sample_commit)))"
proof -
  obtain res w' where run: "commit_chunk sample_scorer [O_Scored sample_scored] sample_commit = (res, w')"
    by fastforce
  have j: "sj_job_id sample_scored = ''j2''" "sj_rows sample_scored = [JNull, JBool True]"
    by (simp_all add: sample_scored_def)
  have "holds_parts (key_dir (partition_key sample_scored)) Map.empty (w_fs sample_commit)"
    by (simp add: holds_parts_def sample_commit_def entries_def submission_path_def)
  moreover have "present (w_fs sample_commit) (submission_path D_incoming (sj_job_id sample_scored))"
    by (simp add: j sample_commit_def present_def lookup_def)
  moreover have "sched_ok (lone_scorer (submission_path D_incoming (sj_job_id sample_scored))) sample_commit"
    by (simp add: sample_commit_def sched_ok_def)
  moreover have "plain_key (partition_key sample_scored)"
    by (simp add: plain_key_def partition_key_def sample_scored_def)
  ultimately show ?thesis
    using archived_after_written [OF sample_scorer_ok run, of sample_scored Map.empty] j
    unfolding run by (simp add: map_filter_simps rows_of_def)
qed

end
