(* ===== verification/Record_Probe.thy ===== *)
theory Record_Probe
  imports Resolution Crash_Logic
begin

text \<open>
  The probes for the record of a job, \<open>has_record\<close> and \<open>find_job\<close>, against records that move while
  they look. \<open>has_record\<close> finds a record that moves along the stages it probes; a record parked
  from \<open>to_finalize/\<close> moves against that order and can be missed, and so can one that is archived
  between the reads of \<open>find_job\<close>.
\<close>

lemma chl_try_exists:
  assumes "upheld A P" "\<And>s. P s \<Longrightarrow> Q (present s p) s"
  shows "chl A P (try_exists p) Q (\<lambda>_. True)"
  unfolding try_exists_def by (rule chl_sys [OF assms(1)]) (use assms(2) in auto)

text \<open>Nobody parks the job.\<close>

fun no_parking :: "job_id \<Rightarrow> act \<Rightarrow> bool" where
  "no_parking j (A_record p c) \<longleftrightarrow> p \<noteq> submission_path D_parked j"
| "no_parking j _ \<longleftrightarrow> True"

lemma record_job_cases:
  assumes "record_job p = Some j"
  obtains "p = submission_path D_incoming j" | "p = submission_path D_to_do j" | "p = submission_path D_parked j"
    | "p = submission_path D_to_finalize j" | "p = processed_path j"
  using assms by (cases p) (auto simp: record_job_def submission_path_def processed_path_def strip_suffix_Some_iff split: if_splits)

lemma record_rank_path [simp]:
  "record_rank (submission_path D_incoming j) = 0" "record_rank (submission_path D_to_do j) = 1"
  "record_rank (submission_path D_to_finalize j) = 2" "record_rank (submission_path D_parked j) = 3"
  "record_rank (processed_path j) = 3"
  by (simp_all add: record_rank_def submission_path_def processed_path_def)

lemma scored_next:
  "scored j 0 s \<Longrightarrow> \<not> present s (submission_path D_incoming j) \<Longrightarrow> scored j 1 s"
  "scored j 1 s \<Longrightarrow> \<not> present s (submission_path D_to_do j) \<Longrightarrow> scored j 2 s"
  "scored j 2 s \<Longrightarrow> \<not> present s (submission_path D_parked j) \<Longrightarrow> \<not> present s (submission_path D_to_finalize j) \<Longrightarrow>
   present s (processed_path j)"
proof -
  have next_rank: "scored j n s" if "scored j m s" "\<And>p. present s p \<Longrightarrow> record_job p = Some j \<Longrightarrow> m \<le> record_rank p \<Longrightarrow> n \<le> record_rank p" for m n
    using that unfolding scored_iff by blast
  show "scored j 0 s \<Longrightarrow> \<not> present s (submission_path D_incoming j) \<Longrightarrow> scored j 1 s"
    by (erule next_rank) (auto elim!: record_job_cases)
  show "scored j 1 s \<Longrightarrow> \<not> present s (submission_path D_to_do j) \<Longrightarrow> scored j 2 s"
    by (erule next_rank) (auto elim!: record_job_cases)
  assume "scored j 2 s" "\<not> present s (submission_path D_parked j)" "\<not> present s (submission_path D_to_finalize j)"
  moreover from this(1) obtain p where "present s p" "record_job p = Some j" "2 \<le> record_rank p"
    unfolding scored_iff by blast
  ultimately show "present s (processed_path j)"
    by (elim record_job_cases) auto
qed

lemma upheld_scored: "upheld A (scored j n)"
  by (auto simp: upheld_def intro: advanceD advance_perform)

lemma upheld_not_parked: "upheld (no_parking j) (\<lambda>s. \<not> present s (submission_path D_parked j))"
  unfolding upheld_def
proof (intro allI impI, elim conjE)
  fix a s
  let ?r = "submission_path D_parked j"
  assume a: "no_parking j a" and s: "\<not> present s ?r"
  have "record_job ?r \<noteq> None"
    by (simp add: submission_path_def record_job_def)
  moreover have "intact_act ?r a \<or> a = A_unrecord ?r"
    using a by (cases a) auto
  ultimately show "\<not> present (perform a s) ?r"
    using s lookup_perform [of ?r a s] by (auto simp: present_def)
qed

lemma upheld_processed: "upheld A (\<lambda>s. present s (processed_path j))"
  unfolding upheld_def
proof (intro allI impI, elim conjE)
  fix a s
  let ?r = "processed_path j"
  assume s: "present s ?r"
  have r: "record_job ?r \<noteq> None"
    by (simp add: processed_path_def record_job_def)
  have "record_rank q \<le> 3" for q
    by (simp add: record_rank_def split: dir.split)
  then have "\<not> overtaken ?r s"
    by (auto simp: overtaken_def list_ex_iff not_less)
  moreover have "intact_act ?r a \<or> a = A_unrecord ?r \<or> (\<exists>c. a = A_record ?r c)"
    by (cases a) auto
  ultimately show "present (perform a s) ?r"
    using s r lookup_perform [of ?r a s] by (auto simp: present_def)
qed

text \<open>
  C12: The probe that decides whether a lease is settled or its job runs again never misses a record
  that moves along the stages of scoring while it looks, in any number of moves: when a job has a
  record, and nobody parks it meanwhile, a probe that answers at all answers yes.
\<close>

theorem has_record_complete:
  assumes "recorded j (w_fs w)" "sched_ok (no_parking j) w" "has_record j w = (Inr b, w')"
  shows b
proof -
  let ?A = "no_parking j" and ?E = "\<lambda>_ :: fs. True"
  have probe: "chl ?A P (io_bind (try_exists p) (\<lambda>b. if b then io_ret True else any_exists ps)) (\<lambda>b _. b) ?E"
    if "upheld ?A P" "\<And>s. P s \<Longrightarrow> \<not> present s p \<Longrightarrow> S s" "chl ?A S (any_exists ps) (\<lambda>b _. b) ?E" for P S p ps
  proof (rule chl_bind [where Q = "\<lambda>b s. b \<or> S s"])
    show "chl ?A P (try_exists p) (\<lambda>b s. b \<or> S s) ?E"
      by (rule chl_try_exists [OF that(1)]) (use that(2) in blast)
    show "chl ?A (\<lambda>s. b \<or> S s) (if b then io_ret True else any_exists ps) (\<lambda>b _. b) ?E" for b
      using that(3) by (auto intro: chl_ret)
  qed
  have last: "chl ?A (\<lambda>_. False) (any_exists []) (\<lambda>b _. b) ?E"
    by (simp add: chl_def)
  have "chl ?A (\<lambda>s. present s (processed_path j)) (any_exists [processed_path j]) (\<lambda>b _. b) ?E"
    unfolding any_exists.simps(2) by (rule probe [OF upheld_processed _ last]) blast
  then have "chl ?A (\<lambda>s. scored j 2 s \<and> \<not> present s (submission_path D_parked j))
      (any_exists [submission_path D_to_finalize j, processed_path j]) (\<lambda>b _. b) ?E"
    unfolding any_exists.simps(2) [of "submission_path D_to_finalize j"]
    by (rule probe [rotated 2]) (use upheld_scored upheld_not_parked in \<open>auto simp: upheld_def intro: scored_next\<close>)
  then have "chl ?A (scored j 2)
      (any_exists [submission_path D_parked j, submission_path D_to_finalize j, processed_path j]) (\<lambda>b _. b) ?E"
    unfolding any_exists.simps(2) [of "submission_path D_parked j"]
    by (rule probe [OF upheld_scored, rotated]) simp
  then have "chl ?A (scored j 1) (any_exists [submission_path D_to_do j, submission_path D_parked j,
      submission_path D_to_finalize j, processed_path j]) (\<lambda>b _. b) ?E"
    unfolding any_exists.simps(2) [of "submission_path D_to_do j"]
    by (rule probe [OF upheld_scored, rotated]) (rule scored_next(2))
  then have "chl ?A (scored j 0) (has_record j) (\<lambda>b _. b) ?E"
    unfolding has_record_def record_paths_def any_exists.simps(2) [of "submission_path D_incoming j"]
    by (rule probe [OF upheld_scored, rotated]) (rule scored_next(1))
  from chlD [OF this assms(2) _ assms(3)] assms(1) show ?thesis
    by (simp add: recorded_scored)
qed

text \<open>A record that is archived while the probe is under way.\<close>

definition moving_record :: world where
  "moving_record = \<lparr>w_fs = \<lparr>files = [(submission_path D_incoming ''j1'', \<lparr>f_content = C_json JNull, f_mtime = 0\<rparr>)], clock = 0\<rparr>,
     w_draws = 0, w_sched =
       [([A_record (submission_path D_to_do ''j1'') (C_json JNull), A_unrecord (submission_path D_incoming ''j1'')], NoFault),
        ([A_record (submission_path D_to_finalize ''j1'') (C_json JNull), A_unrecord (submission_path D_to_do ''j1'')], NoFault),
        ([], NoFault),
        ([A_record (processed_path ''j1'') (C_json JNull), A_unrecord (submission_path D_to_finalize ''j1'')], NoFault)]\<rparr>"

theorem has_record_complete_witness: "fst (has_record ''j1'' moving_record) = Inr True"
proof -
  obtain b w' where run: "has_record ''j1'' moving_record = (Inr b, w')"
  proof -
    have "\<not> isl (fst (has_record ''j1'' moving_record))"
      by code_simp
    then show ?thesis
      using that by (metis isl_def prod.collapse sum.exhaust_sel)
  qed
  have "recorded ''j1'' (w_fs moving_record)" "sched_ok (no_parking ''j1'') moving_record"
    by code_simp+
  from has_record_complete [OF this run] show ?thesis
    by (simp add: run)
qed

section \<open>A record that moves against the order of the probe\<close>

text \<open>
  \<open>record_failed_attempt\<close> parks a job from \<open>to_finalize/\<close> by writing \<open>parked/\<close> and then removing
  \<open>to_finalize/\<close>. When that falls between the probes of the two, the answer is no although the job has a record
  in every state on the way, and the lease of the finished job is recycled: its job runs again.
\<close>

definition parking :: "act list" where
  "parking = [A_record (submission_path D_parked ''j1'') (C_json JNull), A_unrecord (submission_path D_to_finalize ''j1'')]"

definition parked_meanwhile :: world where
  "parked_meanwhile = \<lparr>w_fs = \<lparr>files =
       [(submission_path D_to_finalize ''j1'', \<lparr>f_content = C_json JNull, f_mtime = 0\<rparr>),
        (leased_path sample_ext ''j1'' Never ''c1'' 0, \<lparr>f_content = C_json JNull, f_mtime = 0\<rparr>)], clock = 0\<rparr>,
     w_draws = 0, w_sched = [([], NoFault), ([], NoFault), ([], NoFault), (parking, NoFault)]\<rparr>"

text \<open>
  C13: The probe can miss a record. A record that is parked from \<open>to_finalize/\<close> between two probes of
  \<open>has_record\<close> is reported missing, and the lease of the finished job is recycled, although the job has a
  record before, between and after the two writes of the parking.
\<close>

theorem has_record_misses_parked:
  "fst (has_record ''j1'' parked_meanwhile) = Inr False
   \<and> list_all (\<lambda>n. recorded ''j1'' (fold perform (take n parking) (w_fs parked_meanwhile))) [0, 1, 2]
   \<and> fst (resolve_or_recycle_lease sample_ext ''j1'' Never ''c1'' 0 parked_meanwhile) = Inr L_Recycled"
proof (intro conjI)
  show "fst (has_record ''j1'' parked_meanwhile) = Inr False"
    by code_simp
  show "list_all (\<lambda>n. recorded ''j1'' (fold perform (take n parking) (w_fs parked_meanwhile))) [0, 1, 2]"
    by code_simp
  show "fst (resolve_or_recycle_lease sample_ext ''j1'' Never ''c1'' 0 parked_meanwhile) = Inr L_Recycled"
    by code_simp
qed

text \<open>
  \<open>find_job\<close> reads \<open>processed/\<close> before the stages of scoring, so it misses a record that is
  finalized after that read: \<open>processed/\<close> is written first and \<open>to_finalize/\<close> removed then. The check that
  follows the recycling of a relinquished lease rests on this answer.
\<close>

definition finalizing :: "act list" where
  "finalizing = [A_record (processed_path ''j1'') (C_json JNull), A_unrecord (submission_path D_to_finalize ''j1'')]"

definition finalized_meanwhile :: world where
  "finalized_meanwhile = \<lparr>w_fs = \<lparr>files = [(submission_path D_to_finalize ''j1'', \<lparr>f_content = C_json JNull, f_mtime = 0\<rparr>)], clock = 0\<rparr>,
     w_draws = 0, w_sched = [([], NoFault), ([], NoFault), (finalizing, NoFault)]\<rparr>"

text \<open>
  C14: The reader can miss a record. A record that is finalized between two reads of \<open>find_job\<close> is
  reported missing although the job has a record before, between and after the two writes.
\<close>

theorem find_job_misses_finalized:
  "fst (find_job ''j1'' finalized_meanwhile) = Inr None
   \<and> list_all (\<lambda>n. recorded ''j1'' (fold perform (take n finalizing) (w_fs finalized_meanwhile))) [0, 1, 2]"
proof
  show "fst (find_job ''j1'' finalized_meanwhile) = Inr None"
    by code_simp
  show "list_all (\<lambda>n. recorded ''j1'' (fold perform (take n finalizing) (w_fs finalized_meanwhile))) [0, 1, 2]"
    by code_simp
qed

end
