(* ===== verification/Quiet_Run.thy ===== *)
theory Quiet_Run
  imports Submission_Store
begin

text \<open>
  Undisturbed runs, without looking at staging files. \<open>runs T m v r v'\<close>: with the clock at \<open>T\<close>, no
  other process about and no fault, \<open>m\<close> takes every tree that shows the files \<open>v\<close> to one that shows
  \<open>v'\<close> and returns \<open>r\<close>. The clauses below compute it for the operations on records, so that a worker
  is a function on such views.
\<close>

type_synonym view = "path \<Rightarrow> content option"

definition hidden :: "path \<Rightarrow> bool" where
  "hidden p \<longleftrightarrow> starts_with ''.'' (snd p)"

definition shown :: "fs \<Rightarrow> view" where
  "shown s p = (if hidden p then None else map_option f_content (lookup s p))"

definition runs :: "time \<Rightarrow> 'a io \<Rightarrow> view \<Rightarrow> (err, 'a) result \<Rightarrow> view \<Rightarrow> bool" where
  "runs T m v r v' \<longleftrightarrow>
     (\<forall>w. w_sched w = [] \<and> clock (w_fs w) = T \<and> shown (w_fs w) = v \<longrightarrow>
        (\<exists>w'. m w = (r, w') \<and> w_sched w' = [] \<and> clock (w_fs w') = T \<and> shown (w_fs w') = v'))"

text \<open>What a read of a JSON file gives.\<close>

definition reading :: "view \<Rightarrow> path \<Rightarrow> (err, json option) result" where
  "reading v p = (case v p of None \<Rightarrow> Inr None | Some c \<Rightarrow> (case decode_json c of Inl e \<Rightarrow> Inl e | Inr b \<Rightarrow> Inr (Some b)))"

lemma runsD:
  assumes "runs T m v r v'" "w_sched w = []" "clock (w_fs w) = T" "shown (w_fs w) = v"
  obtains w' where "m w = (r, w')" "w_sched w' = []" "clock (w_fs w') = T" "shown (w_fs w') = v'"
  using assms unfolding runs_def by blast

lemma runsI:
  "(\<And>w. w_sched w = [] \<Longrightarrow> clock (w_fs w) = T \<Longrightarrow> shown (w_fs w) = v \<Longrightarrow>
     \<exists>w'. m w = (r, w') \<and> w_sched w' = [] \<and> clock (w_fs w') = T \<and> shown (w_fs w') = v') \<Longrightarrow> runs T m v r v'"
  unfolding runs_def by blast

named_theorems runs_intros

lemma runs_ret [runs_intros]: "runs T (io_ret a) v (Inr a) v"
  by (auto simp: runs_def io_ret_def)

lemma runs_raise [runs_intros]: "runs T (io_raise e) v (Inl e) v"
  by (auto simp: runs_def io_raise_def)

lemma runs_lift [runs_intros]: "runs T (io_lift r) v r v"
  by (auto simp: runs_def io_lift_def)

lemma runs_now: "runs T utc_now v (Inr T) v"
  by (auto simp: runs_def utc_now_def)

lemma runs_bind: "runs T m v (Inr a) v1 \<Longrightarrow> runs T (k a) v1 r v2 \<Longrightarrow> runs T (io_bind m k) v r v2"
  by (rule runsI, erule runsD [where m = m], assumption+, erule runsD [where m = "k a"], assumption+) (simp add: quiet)

lemma runs_bind_err: "runs T m v (Inl e) v1 \<Longrightarrow> runs T (io_bind m k) v (Inl e) v1"
  by (rule runsI, erule runsD, assumption+) (simp add: quiet)

lemma attempt_run: "m w = (r, w') \<Longrightarrow> r \<noteq> Inl E_crash \<Longrightarrow> attempt m w = (Inr r, w')"
  by (auto simp: attempt_def split: sum.splits err.splits)

lemma runs_attempt: "runs T m v r v1 \<Longrightarrow> r \<noteq> Inl E_crash \<Longrightarrow> runs T (attempt m) v (Inr r) v1"
  by (rule runsI, erule runsD, assumption+) (simp add: attempt_run)

lemma shown_at: "shown s = v \<Longrightarrow> \<not> hidden p \<Longrightarrow> map_option f_content (lookup s p) = v p"
  by (auto simp: shown_def)

lemma shown_del: "shown (del p s) = (if hidden p then shown s else (shown s)(p := None))"
  by (rule ext) (auto simp: shown_def)

lemma runs_remove_idempotent: "\<not> hidden p \<Longrightarrow> runs T (remove_file_idempotent p) v (Inr ()) (v(p := None))"
  by (rule runsI) (simp add: quiet shown_del)

lemma runs_read_body:
  assumes "\<not> hidden p"
  shows "runs T (read_body p) v (reading v p) v"
proof (rule runsI)
  fix w :: world
  assume w: "w_sched w = []" "clock (w_fs w) = T" "shown (w_fs w) = v"
  have "read_body p w = (reading v p, w)"
    using shown_at [OF w(3) assms, symmetric] w(1)
    by (cases "lookup (w_fs w) p"; cases "decode_json (the (v p))") (simp_all add: read_body_def reading_def quiet)
  with w show "\<exists>w'. read_body p w = (reading v p, w') \<and> w_sched w' = [] \<and> clock (w_fs w') = T \<and> shown (w_fs w') = v"
    by simp
qed

lemma replace_atomically_run:
  assumes "w_sched w = []"
  shows "replace_atomically x d dest c w =
    (Inr (), w\<lparr>w_draws := Suc (w_draws w), w_fs := mv (tmp_sibling d (uuid x (w_draws w))) dest
       (put (tmp_sibling d (uuid x (w_draws w))) c (w_fs w))\<rparr>)"
proof -
  let ?tmp = "tmp_sibling d (uuid x (w_draws w))" and ?w = "w\<lparr>w_draws := Suc (w_draws w)\<rparr>"
  have "io_bind (write_file ?tmp c) (\<lambda>_. rename_file ?tmp dest) ?w = (Inr (), ?w\<lparr>w_fs := mv ?tmp dest (put ?tmp c (w_fs w))\<rparr>)"
    using assms by (simp add: quiet present_def)
  then have "attempt (io_bind (write_file ?tmp c) (\<lambda>_. rename_file ?tmp dest)) ?w
      = (Inr (Inr ()), ?w\<lparr>w_fs := mv ?tmp dest (put ?tmp c (w_fs w))\<rparr>)"
    by (rule attempt_run) simp
  moreover have "new_uuid x w = (Inr (uuid x (w_draws w)), ?w)"
    by (simp add: new_uuid_def)
  ultimately show ?thesis
    unfolding replace_atomically_def Let_def by (simp add: quiet)
qed

lemma runs_replace:
  assumes "\<not> hidden dest" "snd d = []"
  shows "runs T (replace_atomically x d dest c) v (Inr ()) (v(dest := Some c))"
proof (rule runsI)
  fix w :: world
  assume w: "w_sched w = []" "clock (w_fs w) = T" "shown (w_fs w) = v"
  let ?tmp = "tmp_sibling d (uuid x (w_draws w))"
  have tmp: "hidden ?tmp"
    using assms(2) by (simp add: hidden_def tmp_sibling_def starts_with_def)
  then have "?tmp \<noteq> dest"
    using assms(1) by blast
  with tmp assms(1) w(3) have "shown (mv ?tmp dest (put ?tmp c (w_fs w))) = v(dest := Some c)"
    by (intro ext) (auto simp: shown_def lookup_mv)
  with w show "\<exists>w'. replace_atomically x d dest c w = (Inr (), w') \<and> w_sched w' = [] \<and> clock (w_fs w') = T \<and> shown (w_fs w') = v(dest := Some c)"
    by (simp add: replace_atomically_run)
qed

text \<open>A parameter of the model that answers \<open>r\<close> and leaves the tree alone.\<close>

lemma runs_off_tree: "(\<And>w. fst (m w) = r \<and> w_fs (snd (m w)) = w_fs w \<and> w_sched (snd (m w)) = w_sched w) \<Longrightarrow> runs T m v r v"
  by (rule runsI, rule exI [where x = "snd (m w)" for w]) (simp add: prod_eq_iff)

section \<open>Computations on views\<close>

type_synonym 'a vio = "view \<Rightarrow> (err, 'a) result \<times> view"

definition v_ret :: "'a \<Rightarrow> 'a vio" where
  "v_ret a v = (Inr a, v)"

definition v_lift :: "(err, 'a) result \<Rightarrow> 'a vio" where
  "v_lift r v = (r, v)"

definition v_bind :: "'a vio \<Rightarrow> ('a \<Rightarrow> 'b vio) \<Rightarrow> 'b vio" where
  "v_bind f g v = (case f v of (Inl e, v') \<Rightarrow> (Inl e, v') | (Inr a, v') \<Rightarrow> g a v')"

definition v_attempt :: "'a vio \<Rightarrow> (err, 'a) result vio" where
  "v_attempt f v = (case f v of (Inl E_crash, v') \<Rightarrow> (Inl E_crash, v') | (r, v') \<Rightarrow> (Inr r, v'))"

definition v_read :: "path \<Rightarrow> json option vio" where
  "v_read p v = (reading v p, v)"

definition v_put :: "path \<Rightarrow> content \<Rightarrow> unit vio" where
  "v_put p c v = (Inr (), v(p \<mapsto> c))"

definition v_del :: "path \<Rightarrow> unit vio" where
  "v_del p v = (Inr (), v(p := None))"

text \<open>An undisturbed run of \<open>m\<close> is the function \<open>f\<close>.\<close>

definition sims :: "time \<Rightarrow> 'a io \<Rightarrow> 'a vio \<Rightarrow> bool" where
  "sims T m f \<longleftrightarrow> (\<forall>v. runs T m v (fst (f v)) (snd (f v)))"

named_theorems sims_intros

lemma simsD: "sims T m f \<Longrightarrow> f v = (r, v') \<Longrightarrow> runs T m v r v'"
  unfolding sims_def by (metis fst_conv snd_conv)

lemma sims_ret [sims_intros]: "sims T (io_ret a) (v_ret a)"
  by (simp add: sims_def v_ret_def runs_ret)

lemma sims_lift [sims_intros]: "sims T (io_lift r) (v_lift r)"
  by (simp add: sims_def v_lift_def runs_lift)

lemma sims_raise [sims_intros]: "sims T (io_raise e) (v_lift (Inl e))"
  by (simp add: sims_def v_lift_def runs_raise)

lemma sims_bind [sims_intros]:
  assumes "sims T m f" "\<And>a. sims T (k a) (g a)"
  shows "sims T (io_bind m k) (v_bind f g)"
  unfolding sims_def
proof
  fix v
  show "runs T (io_bind m k) v (fst (v_bind f g v)) (snd (v_bind f g v))"
  proof (cases "f v")
    case (Pair r v1)
    note m = simsD [OF assms(1) this]
    show ?thesis
    proof (cases r)
      case (Inl e)
      with m Pair show ?thesis
        by (auto simp: v_bind_def intro: runs_bind_err)
    next
      case (Inr a)
      with m Pair assms(2) [of a, unfolded sims_def] show ?thesis
        by (auto simp: v_bind_def intro: runs_bind)
    qed
  qed
qed

lemma sims_attempt [sims_intros]:
  assumes "sims T m f"
  shows "sims T (attempt m) (v_attempt f)"
  unfolding sims_def
proof
  fix v
  show "runs T (attempt m) v (fst (v_attempt f v)) (snd (v_attempt f v))"
  proof (cases "f v")
    case (Pair r v1)
    note m = simsD [OF assms this]
    show ?thesis
    proof (cases "r = Inl E_crash")
      case True
      then have "runs T (attempt m) v (Inl E_crash) v1"
        using m by (auto intro!: runsI elim!: runsD simp: attempt_def)
      with True Pair show ?thesis
        by (simp add: v_attempt_def)
    next
      case False
      with runs_attempt [OF m] Pair show ?thesis
        by (auto simp: v_attempt_def split: sum.split err.split)
    qed
  qed
qed

lemma sims_read_body: "\<not> hidden p \<Longrightarrow> sims T (read_body p) (v_read p)"
  by (simp add: sims_def v_read_def runs_read_body)

lemma sims_replace: "\<not> hidden dest \<Longrightarrow> snd d = [] \<Longrightarrow> sims T (replace_atomically x d dest c) (v_put dest c)"
  by (simp add: sims_def v_put_def runs_replace)

lemma sims_remove: "\<not> hidden p \<Longrightarrow> sims T (remove_file_idempotent p) (v_del p)"
  by (simp add: sims_def v_del_def runs_remove_idempotent)

lemma sims_fold: "(\<And>a b. a \<in> set as \<Longrightarrow> sims T (f a b) (g a b)) \<Longrightarrow>
    sims T (io_fold f as b) (rec_list v_ret (\<lambda>a _ k b. v_bind (g a b) k) as b)"
  by (induction as arbitrary: b) (auto intro!: sims_intros)

lemmas v_simps = v_ret_def v_lift_def v_bind_def v_attempt_def v_read_def v_put_def v_del_def

end
