(* ===== verification/Eval_Worker.thy ===== *)
theory Eval_Worker
  imports Scoring Quiet_Run
begin

text \<open>
  Undisturbed runs of the slow scoring worker, \<open>run_score_eval\<close>. A run visits every job of
  \<open>to_do/\<close> once, in the order of their ids and across pages, so a run with a service that answers
  drains the queue, and a job whose every pass fails is parked by its twelfth.
\<close>

section \<open>Listing\<close>

definition queue_path :: "score_queue_stage \<Rightarrow> job_id \<Rightarrow> path" where
  "queue_path st j = submission_path (stage_dir st) j"

definition queued_jobs :: "dir \<Rightarrow> view \<Rightarrow> job_id set" where
  "queued_jobs d v = {j. valid_job_id j \<and> v (submission_path d j) \<noteq> None}"

lemma submission_job_id_Some: "submission_job_id n = Some j \<longleftrightarrow> valid_job_id j \<and> n = j @ json_suffix"
proof
  show "valid_job_id j \<and> n = j @ json_suffix" if "submission_job_id n = Some j"
    using that by (auto simp: submission_job_id_def bind_eq_Some_conv strip_suffix_Some_iff ok_Some_iff split: if_splits)
  have "\<not> starts_with ''.'' (j @ json_suffix)" if "valid_job_id j"
    using that id_chars(1) [OF that] by (cases j) (auto simp: starts_with_def valid_job_id_def)
  then show "submission_job_id n = Some j" if "valid_job_id j \<and> n = j @ json_suffix"
    using that by (simp add: submission_job_id_def)
qed

lemma visible_record: "valid_job_id j \<Longrightarrow> \<not> hidden (submission_path d j)"
  using id_chars(1) [of j] by (cases j) (auto simp: hidden_def submission_path_def starts_with_def valid_job_id_def)

lemma listed_jobs:
  "set (List.map_filter (submission_job_id \<circ> fst) (filter (\<lambda>(_, is_dir). \<not> is_dir) (entries s d []))) = queued_jobs d (shown s)"
proof -
  have plain: "CHR ''/'' \<notin> set (j @ json_suffix)" if "valid_job_id j" for j
    using id_chars(2) [OF that] by (simp add: json_suffix_def)
  have "(j @ json_suffix, False) \<in> set (entries s d []) \<longleftrightarrow> present s (submission_path d j)" if "valid_job_id j" for j
  proof
    assume "present s (submission_path d j)"
    then show "(j @ json_suffix, False) \<in> set (entries s d [])"
      unfolding set_entries using plain [OF that]
      by (intro exI [of _ "j @ json_suffix"]) (simp add: below_def entry_of_def submission_path_def split_once_None_iff [THEN iffD2])
  next
    assume "(j @ json_suffix, False) \<in> set (entries s d [])"
    then show "present s (submission_path d j)"
      unfolding set_entries by (auto simp: below_def entry_of_def submission_path_def split: option.splits)
  qed
  moreover have "present s (submission_path d j) \<longleftrightarrow> shown s (submission_path d j) \<noteq> None" if "valid_job_id j" for j
    using visible_record [OF that] by (simp add: shown_def present_def)
  ultimately show ?thesis
    by (auto simp: set_map_filter queued_jobs_def submission_job_id_Some)
qed

lemma distinct_listed:
  "distinct (List.map_filter (submission_job_id \<circ> fst) (filter (\<lambda>(_, is_dir). \<not> is_dir) (entries s d [])))"
proof -
  have "distinct (List.map_filter (submission_job_id \<circ> fst) (filter (\<lambda>(_, is_dir). \<not> is_dir) es))"
    if "distinct es" for es :: "(string \<times> bool) list"
    using that
    by (induction es)
      (auto simp: map_filter_simps set_map_filter submission_job_id_Some split: option.split, metis (full_types))
  then show ?thesis
    by (simp add: entries_def)
qed

lemma runs_list:
  "runs T (list_submission_job_ids d after limit) v
     (Inr (take limit (filter (\<lambda>j. case after of None \<Rightarrow> True | Some a \<Rightarrow> a < j) (sorted_list_of_set (queued_jobs d v))))) v"
proof (rule runsI)
  fix w :: world
  assume w: "w_sched w = []" "clock (w_fs w) = T" "shown (w_fs w) = v"
  let ?L = "List.map_filter (submission_job_id \<circ> fst) (filter (\<lambda>(_, is_dir). \<not> is_dir) (entries (w_fs w) d []))"
  let ?P = "\<lambda>j. case after of None \<Rightarrow> True | Some a \<Rightarrow> a < j"
  have "sort ?L = sorted_list_of_set (queued_jobs d v)"
    using listed_jobs [of "w_fs w" d] distinct_listed [of "w_fs w" d] w(3)
    by (metis sorted_list_of_set_sort_remdups distinct_remdups_id)
  then have sorted: "sort (filter ?P ?L) = filter ?P (sorted_list_of_set (queued_jobs d v))"
    by (metis filter_sort)
  have readable: "all_readable (map Inr es) = Inr es" for es :: "(string \<times> bool) list"
    by (induction es) simp_all
  have there: "io_bind (dir_seems_there d []) k w = k (entries (w_fs w) d [] \<noteq> []) w" for k :: "bool \<Rightarrow> job_id list io"
    by (rule io_bind_run) (rule dir_exists_run [OF w(1)])
  have "list_submission_job_ids d after limit w =
      (Inr (take limit (filter ?P (sorted_list_of_set (queued_jobs d v)))), w)"
    unfolding list_submission_job_ids_def there using w(1) sorted
    by (cases "entries (w_fs w) d [] = []") (simp_all add: quiet readable map_filter_simps)
  with w show "\<exists>w'. list_submission_job_ids d after limit w =
      (Inr (take limit (filter ?P (sorted_list_of_set (queued_jobs d v)))), w') \<and> w_sched w' = [] \<and> clock (w_fs w') = T \<and> shown (w_fs w') = v"
    by simp
qed

section \<open>One job\<close>

text \<open>What the service answers, on its own.\<close>

definition answers :: "scorer \<Rightarrow> (json \<Rightarrow> (err, json) result) \<Rightarrow> bool" where
  "answers sc svc \<longleftrightarrow> scorer_ok sc \<and> (\<forall>b. svc b \<noteq> Inl E_crash) \<and> (\<forall>b w. fst (sc_service sc b w) = svc b)"

definition eval_one :: "scorer \<Rightarrow> (json \<Rightarrow> (err, json) result) \<Rightarrow> job_id \<Rightarrow> unit vio" where
  "eval_one sc svc j =
     v_bind (v_read (queue_path ToFinalize j)) (\<lambda>staged.
       if staged \<noteq> None then v_del (queue_path ToDo j)
       else v_bind (v_read (queue_path ToDo j)) (\<lambda>body.
         v_bind (v_lift (ok_or E_bail body)) (\<lambda>body.
           case sc_parse sc body of
             Some (StoredSuccess b) \<Rightarrow>
               if sc_is_eval sc b \<noteq> Some True then v_lift (Inl E_bail)
               else v_bind (v_lift (svc body)) (\<lambda>score.
                 v_bind (v_put (queue_path ToFinalize j) (C_json (JObj [(''submission'', body), (''score'', score)]))) (\<lambda>_.
                 v_del (queue_path ToDo j)))
           | _ \<Rightarrow> v_lift (Inl E_bail))))"

definition count_one :: "scorer \<Rightarrow> job_id \<Rightarrow> err \<Rightarrow> bool vio" where
  "count_one sc j e =
     v_bind (v_attempt (v_bind (v_read (queue_path Failures j)) (\<lambda>f.
       let attempts = attempts_of f + 1 in
       v_bind (v_put (queue_path Failures j)
           (C_json (JObj [(''attempts'', JNum (PosInt attempts)), (''error'', JStr (sc_error_text sc e))]))) (\<lambda>_.
       if attempts < MAX_SCORE_ATTEMPTS then v_ret False
       else v_bind (v_read (queue_path ToDo j)) (\<lambda>entry.
         case entry of
           None \<Rightarrow> v_ret False
         | Some entry \<Rightarrow>
             v_bind (v_ret entry) (\<lambda>body.
             v_bind (v_put (queue_path Parked j) (C_json body)) (\<lambda>_.
             v_bind (v_del (queue_path ToDo j)) (\<lambda>_. v_ret True))))))))
       (\<lambda>r. v_ret (case r of Inr parked \<Rightarrow> parked | Inl _ \<Rightarrow> False))"

lemma sims_queue:
  assumes "valid_job_id j"
  shows "sims T (read_queue st j) (v_read (queue_path st j))"
    and "sims T (enqueue x st j body) (v_put (queue_path st j) (C_json body))"
    and "sims T (dequeue st j) (v_del (queue_path st j))"
  unfolding read_queue_def enqueue_def dequeue_def queue_path_def
  using visible_record [OF assms] by (simp_all add: sims_read_body sims_replace sims_remove)

lemma sims_service: "answers sc svc \<Longrightarrow> sims T (sc_service sc b) (v_lift (svc b))"
  unfolding sims_def v_lift_def by (auto intro!: runs_off_tree simp: answers_def scorer_ok_def off_tree_def)

lemma sims_eval_one: "valid_job_id j \<Longrightarrow> answers sc svc \<Longrightarrow> sims T (score_eval_one sc j) (eval_one sc svc j)"
  unfolding score_eval_one_def eval_one_def
  by (auto intro!: sims_intros sims_queue sims_service split: option.split stored.split)

lemma sims_count: "valid_job_id j \<Longrightarrow> sims T (count_failed_attempt sc ToDo j e) (count_one sc j e)"
  unfolding count_failed_attempt_def count_one_def record_failed_attempt_def Let_def score_queue_stage.case
  by (auto intro!: sims_intros sims_queue split: option.split)

lemma sims_clear:
  "valid_job_id j \<Longrightarrow> sims T (clear_failed_attempts j) (v_bind (v_attempt (v_del (queue_path Failures j))) (\<lambda>_. v_ret ()))"
  unfolding clear_failed_attempts_def by (intro sims_intros sims_queue)

section \<open>A page of jobs\<close>

fun eval_all :: "scorer \<Rightarrow> (json \<Rightarrow> (err, json) result) \<Rightarrow> job_id list \<Rightarrow> eval_tally \<Rightarrow> eval_tally vio" where
  "eval_all sc svc [] t = v_ret t"
| "eval_all sc svc (j # js) t =
     v_bind (v_attempt (eval_one sc svc j)) (\<lambda>r.
       case r of
         Inr _ \<Rightarrow> v_bind (v_bind (v_attempt (v_del (queue_path Failures j))) (\<lambda>_. v_ret ()))
           (\<lambda>_. eval_all sc svc js (t\<lparr>e_scored := e_scored t + 1\<rparr>))
       | Inl (E_service timeout) \<Rightarrow>
           v_bind (if timeout then count_one sc j (E_service timeout) else v_ret False) (\<lambda>parked.
             v_ret (t\<lparr>e_parked := e_parked t + of_bool parked, e_service_down := True\<rparr>))
       | Inl e \<Rightarrow>
           v_bind (count_one sc j e) (\<lambda>parked.
             eval_all sc svc js (t\<lparr>e_failed := e_failed t + 1, e_parked := e_parked t + of_bool parked\<rparr>)))"

lemma sims_eval_all:
  assumes "answers sc svc" "\<forall>j \<in> set js. valid_job_id j"
  shows "sims T (score_evals sc js t) (eval_all sc svc js t)"
  using assms(2)
  by (induction js arbitrary: t)
    (auto intro!: sims_intros sims_eval_one sims_count sims_clear assms(1) split: sum.split err.split)

text \<open>A job's steps leave the files of the others alone, and a page always comes to its end.\<close>

definition job_paths :: "job_id \<Rightarrow> path set" where
  "job_paths j = range (\<lambda>st. queue_path st j)"

lemma queue_path_eq [simp]: "queue_path st i = queue_path st' j \<longleftrightarrow> st = st' \<and> i = j"
  by (cases st; cases st') (auto simp: queue_path_def submission_path_def)

lemma job_paths_disjoint: "queue_path st i \<in> job_paths j \<longleftrightarrow> i = j"
  by (auto simp: job_paths_def)

lemma eval_one_local: "p \<notin> job_paths j \<Longrightarrow> snd (eval_one sc svc j v) p = v p"
  by (auto simp: eval_one_def v_simps job_paths_def split: prod.split sum.split option.split stored.split)

lemma count_one_local: "p \<notin> job_paths j \<Longrightarrow> snd (count_one sc j e v) p = v p"
  by (auto simp: count_one_def v_simps job_paths_def Let_def split: prod.split sum.split option.split err.split)

lemma reading_not_crash: "reading v p \<noteq> Inl E_crash"
  by (auto simp: reading_def split: option.split sum.split elim: decode_json.elims)

lemma eval_one_not_crash: "answers sc svc \<Longrightarrow> fst (eval_one sc svc j v) \<noteq> Inl E_crash"
  by (auto simp: eval_one_def v_simps answers_def ok_or_def reading_not_crash
      split: prod.split sum.split option.split stored.split)

lemma count_one_Inr: "\<exists>b. fst (count_one sc j e v) = Inr b"
  by (auto simp: count_one_def v_simps Let_def reading_not_crash split: prod.split sum.split option.split err.split)

lemma count_one_eq: "count_one sc j e v = (Inr (projr (fst (count_one sc j e v))), snd (count_one sc j e v))"
  using count_one_Inr [of sc j e v] by (auto simp: prod_eq_iff)

lemma attempt_eval_one:
  "answers sc svc \<Longrightarrow> v_attempt (eval_one sc svc j) v = (Inr (fst (eval_one sc svc j v)), snd (eval_one sc svc j v))"
  using eval_one_not_crash [of sc svc j v]
  by (cases "eval_one sc svc j v") (auto simp: v_attempt_def split: sum.split err.split)

text \<open>One job of the page: the tally and the files after it, and whether the page goes on.\<close>

definition eval_step ::
  "scorer \<Rightarrow> (json \<Rightarrow> (err, json) result) \<Rightarrow> job_id \<Rightarrow> eval_tally \<times> view \<Rightarrow> eval_tally \<times> view" where
  "eval_step sc svc j tv =
     (let t = fst tv; v = snd (eval_one sc svc j (snd tv)) in
      case fst (eval_one sc svc j (snd tv)) of
        Inr _ \<Rightarrow> (t\<lparr>e_scored := e_scored t + 1\<rparr>, v(queue_path Failures j := None))
      | Inl (E_service timeout) \<Rightarrow>
          if timeout
          then (t\<lparr>e_parked := e_parked t + of_bool (projr (fst (count_one sc j (E_service timeout) v))), e_service_down := True\<rparr>,
                snd (count_one sc j (E_service timeout) v))
          else (t\<lparr>e_service_down := True\<rparr>, v)
      | Inl e \<Rightarrow>
          (t\<lparr>e_failed := e_failed t + 1, e_parked := e_parked t + of_bool (projr (fst (count_one sc j e v)))\<rparr>,
           snd (count_one sc j e v)))"

fun eval_steps ::
  "scorer \<Rightarrow> (json \<Rightarrow> (err, json) result) \<Rightarrow> job_id list \<Rightarrow> eval_tally \<times> view \<Rightarrow> eval_tally \<times> view" where
  "eval_steps sc svc [] tv = tv"
| "eval_steps sc svc (j # js) tv =
     (let tv' = eval_step sc svc j tv in if e_service_down (fst tv') then tv' else eval_steps sc svc js tv')"

lemma eval_all_steps:
  assumes "answers sc svc" "\<not> e_service_down t"
  shows "eval_all sc svc js t v = (Inr (fst (eval_steps sc svc js (t, v))), snd (eval_steps sc svc js (t, v)))"
  using assms(2)
proof (induction js arbitrary: t v)
  case (Cons j js)
  let ?r = "fst (eval_one sc svc j v)" and ?v = "snd (eval_one sc svc j v)"
  have go: "v_bind (count_one sc j e) k v = k (projr (fst (count_one sc j e v))) (snd (count_one sc j e v))" for e v and k :: "bool \<Rightarrow> eval_tally vio"
    by (subst v_bind_def, subst count_one_eq) simp
  have pure: "v_bind (v_ret a) k = k a" for a and k :: "bool \<Rightarrow> eval_tally vio"
    by (rule ext) (simp add: v_bind_def v_ret_def)
  have clear: "v_bind (v_bind (v_attempt (v_del p)) (\<lambda>_. v_ret ())) k v = k () (v(p := None))" for p v and k :: "unit \<Rightarrow> eval_tally vio"
    by (simp add: v_bind_def v_attempt_def v_del_def v_ret_def)
  have "eval_all sc svc (j # js) t v = (case ?r of
         Inr _ \<Rightarrow> v_bind (v_bind (v_attempt (v_del (queue_path Failures j))) (\<lambda>_. v_ret ()))
           (\<lambda>_. eval_all sc svc js (t\<lparr>e_scored := e_scored t + 1\<rparr>)) ?v
       | Inl (E_service timeout) \<Rightarrow>
           v_bind (if timeout then count_one sc j (E_service timeout) else v_ret False) (\<lambda>parked.
             v_ret (t\<lparr>e_parked := e_parked t + of_bool parked, e_service_down := True\<rparr>)) ?v
       | Inl e \<Rightarrow>
           v_bind (count_one sc j e) (\<lambda>parked.
             eval_all sc svc js (t\<lparr>e_failed := e_failed t + 1, e_parked := e_parked t + of_bool parked\<rparr>)) ?v)"
    by (simp add: v_bind_def [of "v_attempt (eval_one sc svc j)"] attempt_eval_one [OF assms(1)] split: sum.split err.split)
  also have "\<dots> = (Inr (fst (eval_steps sc svc (j # js) (t, v))), snd (eval_steps sc svc (j # js) (t, v)))"
    using Cons by (simp add: go pure clear eval_step_def Let_def split: sum.split err.split if_split) (simp add: v_ret_def fun_upd_def)
  finally show ?case .
qed (simp add: v_ret_def)

lemma eval_step_local:
  assumes "p \<notin> job_paths j"
  shows "snd (eval_step sc svc j tv) p = snd tv p"
  using eval_one_local [OF assms] count_one_local [OF assms] assms
  by (auto simp: eval_step_def Let_def job_paths_def split: sum.split err.split)

lemma eval_steps_local: "(\<And>j. j \<in> set js \<Longrightarrow> p \<notin> job_paths j) \<Longrightarrow> snd (eval_steps sc svc js tv) p = snd tv p"
  by (induction js arbitrary: tv) (simp_all add: Let_def eval_step_local)

lemma eval_steps_append:
  "eval_steps sc svc (xs @ ys) tv =
     (if xs \<noteq> [] \<and> e_service_down (fst (eval_steps sc svc xs tv)) then eval_steps sc svc xs tv
      else eval_steps sc svc ys (eval_steps sc svc xs tv))"
  by (induction xs arbitrary: tv) (auto simp: Let_def)

section \<open>The pages of a run\<close>

definition waiting :: "job_id option \<Rightarrow> view \<Rightarrow> job_id list" where
  "waiting after v =
     filter (\<lambda>j. case after of None \<Rightarrow> True | Some a \<Rightarrow> a < j) (sorted_list_of_set (queued_jobs D_to_do v))"

lemma waiting_sorted: "sorted_wrt (<) (waiting after v)"
  unfolding waiting_def by (intro sorted_wrt_filter) (simp add: strict_sorted_iff)

lemma waiting_valid: "j \<in> set (waiting after v) \<Longrightarrow> valid_job_id j"
  by (cases "finite (queued_jobs D_to_do v)") (auto simp: waiting_def queued_jobs_def)

lemma sorted_not_past: "sorted_wrt (<) xs \<Longrightarrow> j \<in> set xs \<Longrightarrow> \<not> last xs < (j :: 'a :: linorder)"
  by (cases xs rule: rev_cases) (auto simp: sorted_wrt_append)

lemma sorted_past:
  assumes "sorted_wrt (<) (xs @ ys :: 'a :: linorder list)" "xs \<noteq> []"
  shows "filter (\<lambda>j. last xs < j) (xs @ ys) = ys"
proof -
  have "filter (\<lambda>j. last xs < j) ys = ys"
    using assms by (auto simp: sorted_wrt_append intro!: filter_True)
  moreover have "filter (\<lambda>j. last xs < j) xs = []"
    using assms(1) sorted_not_past [of xs] by (simp add: filter_empty_conv sorted_wrt_append)
  ultimately show ?thesis
    by simp
qed

text \<open>The page after \<open>js\<close> finds what was behind \<open>js\<close>.\<close>

lemma waiting_next:
  assumes "finite (queued_jobs D_to_do v)" "waiting after v = js @ rest" "js \<noteq> []"
    and "\<And>p. p \<notin> (\<Union>j \<in> set js. job_paths j) \<Longrightarrow> v' p = v p"
  shows "waiting (Some (last js)) v' = rest" "finite (queued_jobs D_to_do v')"
proof -
  let ?S = "queued_jobs D_to_do v" and ?S' = "queued_jobs D_to_do v'"
  have other: "j \<in> ?S' \<longleftrightarrow> j \<in> ?S" if "j \<notin> set js" for j
  proof -
    have "submission_path D_to_do j = queue_path ToDo j"
      by (simp add: queue_path_def)
    then have "v' (submission_path D_to_do j) = v (submission_path D_to_do j)"
      using that by (intro assms(4)) (auto simp: job_paths_disjoint)
    then show ?thesis
      by (simp add: queued_jobs_def)
  qed
  have sorted: "sorted_wrt (<) (js @ rest)"
    using waiting_sorted [of after v] by (simp add: assms(2))
  have "?S' \<subseteq> ?S \<union> set js"
    using other by blast
  then show fin: "finite ?S'"
    using assms(1) finite_subset by blast
  have behind: "j \<notin> set js" if "last js < j" for j
    using that sorted sorted_not_past [of js] by (auto simp: sorted_wrt_append)
  have eq: "j \<in> ?S' \<and> last js < j \<longleftrightarrow> j \<in> set rest" for j
  proof -
    have "set rest = {j \<in> ?S. (case after of None \<Rightarrow> True | Some a \<Rightarrow> a < j) \<and> last js < j}"
      using sorted_past [OF sorted assms(3)] assms(1) unfolding assms(2) [symmetric] waiting_def by auto
    moreover have "case after of None \<Rightarrow> True | Some a \<Rightarrow> a < j" if "last js < j"
    proof -
      have "last js \<in> set (waiting after v)"
        using assms(2,3) by simp
      then show ?thesis
        using that assms(1) by (auto simp: waiting_def split: option.splits)
    qed
    ultimately show ?thesis
      using other behind by auto
  qed
  show "waiting (Some (last js)) v' = rest"
  proof (rule sorted_distinct_set_unique)
    show "sorted (waiting (Some (last js)) v')" "distinct (waiting (Some (last js)) v')"
      using waiting_sorted strict_sorted_iff by blast+
    show "sorted rest" "distinct rest"
      using sorted by (auto simp: sorted_wrt_append strict_sorted_iff)
    show "set (waiting (Some (last js)) v') = set rest"
      using eq fin by (auto simp: waiting_def)
  qed
qed

lemma runs_pages:
  assumes "answers sc svc" "0 < sc_chunk_size sc" "finite (queued_jobs D_to_do v)" "\<not> e_service_down t"
    "length (waiting after v) < pages"
  shows "runs T (score_eval_pages sc pages after t) v (Inr (fst (eval_steps sc svc (waiting after v) (t, v))))
    (snd (eval_steps sc svc (waiting after v) (t, v)))"
  using assms(3-)
proof (induction pages arbitrary: after t v)
  case (Suc pages)
  let ?n = "sc_chunk_size sc" and ?L = "waiting after v"
  let ?js = "take ?n ?L" and ?rest = "drop ?n ?L"
  let ?tv = "eval_steps sc svc ?js (t, v)"
  have list: "runs T (list_submission_job_ids (stage_dir ToDo) after ?n) v (Inr ?js) v"
    using runs_list [of T D_to_do after ?n v] by (simp add: waiting_def)
  have page: "runs T (score_evals sc ?js t) v (Inr (fst ?tv)) (snd ?tv)"
    by (rule simsD [OF sims_eval_all [OF assms(1)] eval_all_steps [OF assms(1) Suc.prems(2)]])
      (auto dest: in_set_takeD waiting_valid)
  show ?case
  proof (cases "?js = []")
    case True
    with assms(2) have "?L = []"
      by simp
    then show ?thesis
      unfolding score_eval_pages.simps(2) by (intro runs_bind [OF list]) (simp add: runs_ret)
  next
    case False
    have whole: "eval_steps sc svc ?L (t, v) = (if e_service_down (fst ?tv) then ?tv else eval_steps sc svc ?rest ?tv)"
      using eval_steps_append [of sc svc ?js ?rest "(t, v)"] False by simp
    have "runs T (if e_service_down (fst ?tv) \<or> length ?js < ?n then io_ret (fst ?tv)
        else score_eval_pages sc pages (Some (last ?js)) (fst ?tv)) (snd ?tv)
      (Inr (fst (eval_steps sc svc ?L (t, v)))) (snd (eval_steps sc svc ?L (t, v)))"
    proof (cases "e_service_down (fst ?tv) \<or> length ?js < ?n")
      case True
      then have "eval_steps sc svc ?L (t, v) = ?tv"
        using whole by auto
      with True show ?thesis
        by (simp add: runs_ret)
    next
      case More: False
      have next_page: "waiting (Some (last ?js)) (snd ?tv) = ?rest" "finite (queued_jobs D_to_do (snd ?tv))"
        by (rule waiting_next [OF Suc.prems(1) append_take_drop_id [symmetric] False];
            simp add: eval_steps_local)+
      have "length ?rest < pages"
        using Suc.prems(3) False assms(2) by (cases ?L) auto
      then show ?thesis
        using Suc.IH [of "snd ?tv" "fst ?tv" "Some (last ?js)"] More whole next_page by simp
    qed
    from runs_bind [OF page, where k = "\<lambda>t. if e_service_down t \<or> length ?js < ?n then io_ret t
        else score_eval_pages sc pages (Some (last ?js)) t", OF this] show ?thesis
      unfolding score_eval_pages.simps(2) using False by (intro runs_bind [OF list]) simp
  qed
qed simp

definition no_evals :: eval_tally where
  "no_evals = \<lparr>e_scored = 0, e_failed = 0, e_parked = 0, e_service_down = False\<rparr>"

lemma runs_score_eval:
  assumes "answers sc svc" "0 < sc_chunk_size sc" "finite (queued_jobs D_to_do v)" "card (queued_jobs D_to_do v) < pages"
  shows "runs T (run_score_eval sc pages) v (Inr (fst (eval_steps sc svc (waiting None v) (no_evals, v))))
    (snd (eval_steps sc svc (waiting None v) (no_evals, v)))"
  unfolding run_score_eval_def no_evals_def [symmetric]
  by (rule runs_pages) (use assms in \<open>simp_all add: no_evals_def waiting_def\<close>)

section \<open>Draining the queue\<close>

definition payload :: "json \<Rightarrow> json \<Rightarrow> content" where
  "payload b score = C_json (JObj [(''submission'', b), (''score'', score)])"

text \<open>An eval submission that is waiting, with nothing staged for it yet.\<close>

definition awaits :: "scorer \<Rightarrow> job_id \<Rightarrow> json \<Rightarrow> view \<Rightarrow> bool" where
  "awaits sc j b v \<longleftrightarrow>
     v (queue_path ToDo j) = Some (C_json b) \<and> v (queue_path ToFinalize j) = None
     \<and> (\<exists>bid. sc_parse sc b = Some (StoredSuccess bid) \<and> sc_is_eval sc bid = Some True)"

lemma finite_queued: "finite (queued_jobs d (shown s))"
  unfolding listed_jobs [symmetric] by simp

lemma awaits_cong: "awaits sc j b v \<Longrightarrow> (\<And>p. p \<in> job_paths j \<Longrightarrow> v' p = v p) \<Longrightarrow> awaits sc j b v'"
  by (auto simp: awaits_def job_paths_def)

lemma eval_one_awaits:
  assumes "awaits sc j b v"
  shows "svc b = Inr score \<Longrightarrow> eval_one sc svc j v = (Inr (), v(queue_path ToFinalize j \<mapsto> payload b score, queue_path ToDo j := None))"
    and "svc b = Inl e \<Longrightarrow> eval_one sc svc j v = (Inl e, v)"
  using assms by (auto simp: awaits_def eval_one_def v_simps reading_def ok_or_def payload_def)

lemma eval_steps_drain:
  assumes "distinct js" "\<forall>j \<in> set js. \<exists>b score. awaits sc j b v \<and> svc b = Inr score" "\<not> e_service_down t"
  shows "fst (eval_steps sc svc js (t, v)) = t\<lparr>e_scored := e_scored t + length js\<rparr>
    \<and> (\<forall>j \<in> set js. \<forall>b score. awaits sc j b v \<and> svc b = Inr score \<longrightarrow>
        snd (eval_steps sc svc js (t, v)) (queue_path ToDo j) = None
        \<and> snd (eval_steps sc svc js (t, v)) (queue_path ToFinalize j) = Some (payload b score))"
  using assms
proof (induction js arbitrary: t v)
  case (Cons j js)
  obtain b score where j: "awaits sc j b v" "svc b = Inr score"
    using Cons.prems(2) by auto
  let ?v = "v(queue_path ToFinalize j \<mapsto> payload b score, queue_path ToDo j := None, queue_path Failures j := None)"
  let ?t = "t\<lparr>e_scored := e_scored t + 1\<rparr>"
  have step: "eval_step sc svc j (t, v) = (?t, ?v)"
    by (simp add: eval_step_def eval_one_awaits(1) [OF j(1), of svc, OF j(2)])
  have other: "?v p = v p" if "p \<in> job_paths i" "i \<in> set js" for p i
    using that Cons.prems(1) by (auto simp: job_paths_def)
  have same: "awaits sc i c ?v \<longleftrightarrow> awaits sc i c v" if "i \<in> set js" for i c
    using awaits_cong [of sc i c v ?v] awaits_cong [of sc i c ?v v] other [OF _ that] by metis
  have IH: "fst (eval_steps sc svc js (?t, ?v)) = ?t\<lparr>e_scored := e_scored ?t + length js\<rparr>
    \<and> (\<forall>i \<in> set js. \<forall>b score. awaits sc i b ?v \<and> svc b = Inr score \<longrightarrow>
        snd (eval_steps sc svc js (?t, ?v)) (queue_path ToDo i) = None
        \<and> snd (eval_steps sc svc js (?t, ?v)) (queue_path ToFinalize i) = Some (payload b score))"
  proof (rule Cons.IH)
    show "\<forall>i \<in> set js. \<exists>b score. awaits sc i b ?v \<and> svc b = Inr score"
      using Cons.prems(2) same by (metis list.set_intros(2))
  qed (use Cons.prems in simp_all)
  have kept: "snd (eval_steps sc svc js (?t, ?v)) (queue_path st j) = ?v (queue_path st j)" for st
    using Cons.prems(1) by (subst eval_steps_local) (auto simp: job_paths_disjoint)
  have "b' = b" if "awaits sc j b' v" for b'
    using that j(1) by (simp add: awaits_def)
  then show ?case
    using IH kept same j(2) Cons.prems(3) by (auto simp: Let_def step)
qed simp

text \<open>
  C11: A run of the eval worker drains its queue. When nothing disturbs the run and the scoring service
  answers for every waiting submission, the run ends, across as many pages as it takes, reports every job as
  scored, leaves no job in \<open>to_do/\<close> and has staged each with its submission and its score.
\<close>

theorem evals_drained:
  assumes "answers sc svc" "0 < sc_chunk_size sc" "w_sched w = []"
    and "card (queued_jobs D_to_do (shown (w_fs w))) < pages"
    and "\<forall>j \<in> queued_jobs D_to_do (shown (w_fs w)). awaits sc j (body j) (shown (w_fs w)) \<and> svc (body j) = Inr (score j)"
  shows "\<exists>w'. run_score_eval sc pages w =
      (Inr \<lparr>e_scored = card (queued_jobs D_to_do (shown (w_fs w))), e_failed = 0, e_parked = 0, e_service_down = False\<rparr>, w')
    \<and> queued_jobs D_to_do (shown (w_fs w')) = {}
    \<and> (\<forall>j \<in> queued_jobs D_to_do (shown (w_fs w)). shown (w_fs w') (queue_path ToFinalize j) = Some (payload (body j) (score j)))"
proof -
  let ?v = "shown (w_fs w)" and ?J = "queued_jobs D_to_do (shown (w_fs w))"
  let ?tv = "eval_steps sc svc (waiting None ?v) (no_evals, ?v)"
  have L: "set (waiting None ?v) = ?J" "distinct (waiting None ?v)" "length (waiting None ?v) = card ?J"
    by (simp_all add: waiting_def finite_queued)
  have after: "fst ?tv = no_evals\<lparr>e_scored := e_scored no_evals + card ?J\<rparr>"
      "\<And>j. j \<in> ?J \<Longrightarrow> snd ?tv (queue_path ToDo j) = None \<and> snd ?tv (queue_path ToFinalize j) = Some (payload (body j) (score j))"
    using eval_steps_drain [OF L(2), of sc ?v svc no_evals] assms(5) L by (auto simp: no_evals_def)
  obtain w' where w': "run_score_eval sc pages w = (Inr (fst ?tv), w')" "shown (w_fs w') = snd ?tv"
    using runs_score_eval [OF assms(1,2) finite_queued assms(4)] assms(3) by (rule runsD) auto
  have "snd ?tv (submission_path D_to_do j) = None" if "valid_job_id j" for j
  proof (cases "j \<in> ?J")
    case True
    with after(2) show ?thesis
      by (simp add: queue_path_def)
  next
    case False
    then have "snd ?tv (queue_path ToDo j) = ?v (queue_path ToDo j)"
      using L(1) by (subst eval_steps_local) (auto simp: job_paths_disjoint)
    with False that show ?thesis
      by (simp add: queued_jobs_def queue_path_def)
  qed
  then have "queued_jobs D_to_do (snd ?tv) = {}"
    by (auto simp: queued_jobs_def)
  with w' after show ?thesis
    by (auto simp: no_evals_def)
qed

definition sample_eval_scorer :: scorer where
  "sample_eval_scorer = sample_scorer\<lparr>sc_chunk_size := 1, sc_is_eval := (\<lambda>_. Some True), sc_service := (\<lambda>b. io_ret (JBool True))\<rparr>"

definition two_evals :: world where
  "two_evals = \<lparr>w_fs = \<lparr>files = [(queue_path ToDo ''e2'', \<lparr>f_content = C_json JNull, f_mtime = 0\<rparr>),
       (queue_path ToDo ''e1'', \<lparr>f_content = C_json (JBool False), f_mtime = 0\<rparr>)], clock = 0\<rparr>, w_draws = 0, w_sched = []\<rparr>"

lemma two_evals_shown:
  "shown (w_fs two_evals) = [queue_path ToDo ''e2'' \<mapsto> C_json JNull, queue_path ToDo ''e1'' \<mapsto> C_json (JBool False)]"
  by (rule ext) (auto simp: shown_def two_evals_def lookup_def hidden_def queue_path_def submission_path_def starts_with_def)

lemma two_evals_jobs: "queued_jobs D_to_do (shown (w_fs two_evals)) = {''e1'', ''e2''}"
  by (auto simp: queued_jobs_def two_evals_shown queue_path_def submission_path_def valid_job_id_def job_char_def is_ascii_alphanumeric_def split: if_splits)

lemma sample_answers: "answers sample_eval_scorer (\<lambda>_. Inr (JBool True))"
  using sample_scorer_ok by (simp add: answers_def scorer_ok_def sample_eval_scorer_def off_tree_def io_ret_def)

theorem evals_drained_witness:
  "\<exists>w'. run_score_eval sample_eval_scorer 3 two_evals =
      (Inr \<lparr>e_scored = 2, e_failed = 0, e_parked = 0, e_service_down = False\<rparr>, w')
    \<and> queued_jobs D_to_do (shown (w_fs w')) = {}
    \<and> shown (w_fs w') (queue_path ToFinalize ''e1'') = Some (payload (JBool False) (JBool True))"
proof -
  let ?body = "\<lambda>j. if j = ''e1'' then JBool False else JNull"
  have "\<forall>j \<in> queued_jobs D_to_do (shown (w_fs two_evals)). awaits sample_eval_scorer j (?body j) (shown (w_fs two_evals))"
    unfolding two_evals_jobs by (auto simp: awaits_def two_evals_shown sample_eval_scorer_def sample_scorer_def)
  moreover have "w_sched two_evals = []"
    by (simp add: two_evals_def)
  moreover have "0 < sc_chunk_size sample_eval_scorer"
    by (simp add: sample_eval_scorer_def)
  moreover have "card (queued_jobs D_to_do (shown (w_fs two_evals))) < 3"
    unfolding two_evals_jobs by simp
  ultimately show ?thesis
    using evals_drained [OF sample_answers, of two_evals 3 ?body "\<lambda>_. JBool True"] unfolding two_evals_jobs by auto
qed

section \<open>A job that always fails\<close>

text \<open>The job waits and has failed \<open>n\<close> passes; the service refuses it with \<open>e\<close>.\<close>

definition failing :: "scorer \<Rightarrow> job_id \<Rightarrow> json \<Rightarrow> nat \<Rightarrow> view \<Rightarrow> bool" where
  "failing sc j b n v \<longleftrightarrow>
     awaits sc j b v \<and> (\<exists>f. reading v (queue_path Failures j) = Inr f \<and> attempts_of f = n)"

definition parked_as :: "job_id \<Rightarrow> json \<Rightarrow> view \<Rightarrow> bool" where
  "parked_as j b v \<longleftrightarrow> v (queue_path ToDo j) = None \<and> v (queue_path Parked j) = Some (C_json b)"

definition reachable_service :: "(json \<Rightarrow> (err, json) result) \<Rightarrow> bool" where
  "reachable_service svc \<longleftrightarrow> (\<forall>b timeout. svc b \<noteq> Inl (E_service timeout))"

lemma failing_cong: "failing sc j b n v \<Longrightarrow> (\<And>p. p \<in> job_paths j \<Longrightarrow> v' p = v p) \<Longrightarrow> failing sc j b n v'"
  using awaits_cong [of sc j b v v'] by (auto simp: failing_def reading_def job_paths_def)

lemma parked_cong: "parked_as j b v \<Longrightarrow> (\<And>p. p \<in> job_paths j \<Longrightarrow> v' p = v p) \<Longrightarrow> parked_as j b v'"
  by (auto simp: parked_as_def job_paths_def)

lemma eval_one_reachable: "reachable_service svc \<Longrightarrow> fst (eval_one sc svc j v) \<noteq> Inl (E_service timeout)"
  by (auto simp: eval_one_def v_simps reachable_service_def ok_or_def reading_def
      split: prod.split sum.split option.split stored.split elim: decode_json.elims)

lemma eval_step_not_down:
  "reachable_service svc \<Longrightarrow> \<not> e_service_down (fst tv) \<Longrightarrow> \<not> e_service_down (fst (eval_step sc svc j tv))"
  using eval_one_reachable [of svc sc j "snd tv"]
  by (auto simp: eval_step_def Let_def split: sum.split err.split)

lemma eval_steps_not_down:
  "reachable_service svc \<Longrightarrow> \<not> e_service_down (fst tv) \<Longrightarrow> \<not> e_service_down (fst (eval_steps sc svc js tv))"
  by (induction js arbitrary: tv) (auto simp: Let_def eval_step_not_down)

lemma eval_one_todo: "v (queue_path ToDo j) = None \<Longrightarrow> snd (eval_one sc svc j v) (queue_path ToDo j) = None"
  by (auto simp: eval_one_def v_simps split: prod.split sum.split option.split stored.split)

lemma count_one_todo: "v (queue_path ToDo j) = None \<Longrightarrow> snd (count_one sc j e v) (queue_path ToDo j) = None"
  by (auto simp: count_one_def v_simps Let_def split: prod.split sum.split option.split err.split)

lemma eval_step_todo:
  assumes "snd tv (queue_path ToDo i) = None"
  shows "snd (eval_step sc svc j tv) (queue_path ToDo i) = None"
proof (cases "i = j")
  case True
  with assms show ?thesis
    by (auto simp: eval_step_def Let_def eval_one_todo count_one_todo split: sum.split err.split)
qed (simp add: eval_step_local job_paths_disjoint assms)

lemma eval_steps_todo: "queued_jobs D_to_do (snd (eval_steps sc svc js tv)) \<subseteq> queued_jobs D_to_do (snd tv)"
proof -
  have "snd (eval_steps sc svc js tv) (queue_path ToDo i) = None" if "snd tv (queue_path ToDo i) = None" for i
    using that by (induction js arbitrary: tv) (simp_all add: Let_def eval_step_todo)
  then show ?thesis
    by (fastforce simp: queued_jobs_def queue_path_def)
qed

lemma eval_step_failing:
  assumes "failing sc j b n (snd tv)" "svc b = Inl e" "reachable_service svc" "n < MAX_SCORE_ATTEMPTS"
  shows "if Suc n < MAX_SCORE_ATTEMPTS then failing sc j b (Suc n) (snd (eval_step sc svc j tv))
    else parked_as j b (snd (eval_step sc svc j tv))"
proof -
  obtain f where f: "awaits sc j b (snd tv)" "reading (snd tv) (queue_path Failures j) = Inr f" "attempts_of f = n"
    using assms(1) by (auto simp: failing_def)
  have "e \<noteq> E_service timeout" for timeout
    using assms(2,3) by (auto simp: reachable_service_def)
  then have step: "snd (eval_step sc svc j tv) = snd (count_one sc j e (snd tv))"
    by (auto simp: eval_step_def eval_one_awaits(2) [OF f(1), of svc, OF assms(2)] Let_def split: err.split)
  have "attempts_of (Some (JObj [(''attempts'', JNum (PosInt (Suc n))), (''error'', s)])) = Suc n" for s
    by (simp add: attempts_of_def)
  then show ?thesis
    unfolding step using f
    by (auto simp: failing_def awaits_def parked_as_def count_one_def v_simps Let_def reading_def)
qed

lemma pass_failing:
  assumes "failing sc j b n v" "valid_job_id j" "svc b = Inl e" "reachable_service svc" "n < MAX_SCORE_ATTEMPTS"
    "finite (queued_jobs D_to_do v)" "\<not> e_service_down t"
  shows "if Suc n < MAX_SCORE_ATTEMPTS then failing sc j b (Suc n) (snd (eval_steps sc svc (waiting None v) (t, v)))
    else parked_as j b (snd (eval_steps sc svc (waiting None v) (t, v)))"
proof -
  have "j \<in> queued_jobs D_to_do v"
    using assms(1,2) by (auto simp: failing_def awaits_def queued_jobs_def queue_path_def)
  then have "j \<in> set (waiting None v)"
    using assms(6) by (simp add: waiting_def)
  then obtain xs ys where L: "waiting None v = xs @ j # ys"
    by (auto dest: split_list)
  then have fresh: "j \<notin> set xs" "j \<notin> set ys"
    using waiting_sorted [of None v] by (auto simp: sorted_wrt_append)
  let ?tv = "eval_steps sc svc xs (t, v)"
  have all: "eval_steps sc svc (waiting None v) (t, v) = eval_steps sc svc ys (eval_step sc svc j ?tv)"
    using eval_steps_not_down [OF assms(4), of "(t, v)" sc xs] eval_step_not_down [OF assms(4), of ?tv sc j] assms(7)
    by (simp add: L eval_steps_append Let_def)
  have keep: "snd (eval_steps sc svc zs tv) p = snd tv p" if "j \<notin> set zs" "p \<in> job_paths j" for zs tv p
    using that by (intro eval_steps_local) (auto simp: job_paths_def)
  have "failing sc j b n (snd ?tv)"
    by (rule failing_cong [OF assms(1)]) (simp add: keep fresh)
  from eval_step_failing [OF this, of svc, OF assms(3-5)] show ?thesis
    unfolding all using failing_cong [OF _ keep [OF fresh(2)]] parked_cong [OF _ keep [OF fresh(2)]] by (auto split: if_splits)
qed

definition passes :: "nat \<Rightarrow> scorer \<Rightarrow> nat \<Rightarrow> unit io" where
  "passes n sc pages = io_for (replicate n ()) (\<lambda>_. io_bind (run_score_eval sc pages) (\<lambda>_. io_ret ()))"

lemma runs_passes:
  assumes "answers sc svc" "0 < sc_chunk_size sc" "reachable_service svc" "valid_job_id j" "svc b = Inl e"
    and "finite (queued_jobs D_to_do v)" "card (queued_jobs D_to_do v) < pages" "failing sc j b k v"
    and "0 < n" "k + n \<le> MAX_SCORE_ATTEMPTS"
  shows "\<exists>v'. runs T (passes n sc pages) v (Inr ()) v' \<and>
    (if k + n < MAX_SCORE_ATTEMPTS then failing sc j b (k + n) v' else parked_as j b v')"
  using assms(6-)
proof (induction n arbitrary: k v)
  case (Suc n)
  let ?v = "snd (eval_steps sc svc (waiting None v) (no_evals, v))"
  have one: "runs T (io_bind (run_score_eval sc pages) (\<lambda>_. io_ret ())) v (Inr ()) ?v"
    by (rule runs_bind [OF runs_score_eval [OF assms(1,2) Suc.prems(1,2)] runs_ret])
  have sub: "queued_jobs D_to_do ?v \<subseteq> queued_jobs D_to_do v"
    using eval_steps_todo [of sc svc "waiting None v" "(no_evals, v)"] by simp
  have pass: "if Suc k < MAX_SCORE_ATTEMPTS then failing sc j b (Suc k) ?v else parked_as j b ?v"
    by (rule pass_failing [OF Suc.prems(3) assms(4,5,3) _ Suc.prems(1)]) (use Suc.prems(5) in \<open>simp_all add: no_evals_def\<close>)
  show ?case
  proof (cases n)
    case 0
    with one pass show ?thesis
      by (auto simp: passes_def intro!: runs_bind [OF one] runs_ret)
  next
    case (Suc m)
    then have "Suc k < MAX_SCORE_ATTEMPTS"
      using Suc.prems(5) by simp
    moreover have "finite (queued_jobs D_to_do ?v)" "card (queued_jobs D_to_do ?v) < pages"
      using sub Suc.prems(1,2) finite_subset card_mono [OF Suc.prems(1) sub] by auto
    ultimately obtain v' where "runs T (passes n sc pages) ?v (Inr ()) v'"
        "if Suc k + n < MAX_SCORE_ATTEMPTS then failing sc j b (Suc k + n) v' else parked_as j b v'"
      using Suc.IH [of ?v "Suc k"] Suc.prems(5) pass Suc by auto
    moreover from runs_bind [OF one this(1)] have "runs T (passes (Suc n) sc pages) v (Inr ()) v'"
      by (simp add: passes_def)
    ultimately show ?thesis
      by (intro exI [of _ v']) (auto split: if_splits)
  qed
qed simp

text \<open>
  C10: A job that can never be scored is set aside. When the service refuses a waiting submission each time, and
  is otherwise reached, the job still waits after each of its first eleven passes and is in \<open>parked/\<close> with its
  submission, out of \<open>to_do/\<close>, after the twelfth, whatever the other jobs of the queue do.
\<close>

theorem failing_eval_parked:
  assumes "answers sc svc" "0 < sc_chunk_size sc" "reachable_service svc" "w_sched w = []"
    and "card (queued_jobs D_to_do (shown (w_fs w))) < pages"
    and "valid_job_id j" "awaits sc j b (shown (w_fs w))" "shown (w_fs w) (queue_path Failures j) = None" "svc b = Inl e"
    and "0 < n" "n \<le> MAX_SCORE_ATTEMPTS"
  shows "\<exists>w'. passes n sc pages w = (Inr (), w') \<and>
    (if n < MAX_SCORE_ATTEMPTS then shown (w_fs w') (queue_path ToDo j) = Some (C_json b)
     else shown (w_fs w') (queue_path ToDo j) = None \<and> shown (w_fs w') (queue_path Parked j) = Some (C_json b))"
proof -
  have "failing sc j b 0 (shown (w_fs w))"
    using assms(7,8) by (simp add: failing_def reading_def attempts_of_def)
  from runs_passes [OF assms(1-3,6,9) finite_queued assms(5) this assms(10), of "clock (w_fs w)"] assms(11)
  obtain v' where run: "runs (clock (w_fs w)) (passes n sc pages) (shown (w_fs w)) (Inr ()) v'"
      "if n < MAX_SCORE_ATTEMPTS then failing sc j b n v' else parked_as j b v'"
    unfolding add_0 by blast
  from run(1) assms(4) obtain w' where "passes n sc pages w = (Inr (), w')" "shown (w_fs w') = v'"
    by (rule runsD) auto
  with run(2) show ?thesis
    by (auto simp: failing_def awaits_def parked_as_def split: if_splits)
qed

definition sample_refusing :: scorer where
  "sample_refusing = sample_eval_scorer\<lparr>sc_service := (\<lambda>b. if b = JNull then io_raise E_bail else io_ret (JBool True))\<rparr>"

theorem failing_eval_parked_witness:
  "\<exists>w'. passes 12 sample_refusing 3 two_evals = (Inr (), w')
    \<and> shown (w_fs w') (queue_path ToDo ''e2'') = None \<and> shown (w_fs w') (queue_path Parked ''e2'') = Some (C_json JNull)"
proof -
  let ?svc = "\<lambda>b. if b = JNull then Inl E_bail else Inr (JBool True)"
  have "answers sample_refusing ?svc"
    using sample_scorer_ok
    by (auto simp: answers_def scorer_ok_def sample_refusing_def sample_eval_scorer_def off_tree_def io_ret_def io_raise_def)
  moreover have "reachable_service ?svc"
    by (simp add: reachable_service_def)
  moreover have "awaits sample_refusing ''e2'' JNull (shown (w_fs two_evals))"
    by (simp add: awaits_def two_evals_shown sample_refusing_def sample_eval_scorer_def sample_scorer_def)
  moreover have "shown (w_fs two_evals) (queue_path Failures ''e2'') = None"
    by (simp add: two_evals_shown)
  moreover have "card (queued_jobs D_to_do (shown (w_fs two_evals))) < 3"
    unfolding two_evals_jobs by simp
  moreover have "w_sched two_evals = []" "0 < sc_chunk_size sample_refusing" "valid_job_id ''e2''"
    by (simp_all add: two_evals_def sample_refusing_def sample_eval_scorer_def valid_job_id_def job_char_def is_ascii_alphanumeric_def)
  ultimately show ?thesis
    using failing_eval_parked [of sample_refusing ?svc two_evals 3 "''e2''" JNull E_bail 12]
    by (simp add: MAX_SCORE_ATTEMPTS_def)
qed

end
