(* ===== verification/Storage_Lock.thy ===== *)
theory Storage_Lock
  imports Ids
begin

text \<open>
  The storage lock that every batch command holds while it rewrites shared files, on an object
  store: \<open>pipette-store-init/src/storage_lock.rs\<close>. The lock is one object with a lease. A command
  creates it when it is absent, takes it over by compare-and-swap when its lease has expired, and
  deletes it when it is done.

  The object store is an argument, the record \<open>object_store\<close> of its four calls on a state of its own;
  what is relied on is \<open>store_ok\<close>, the conditional writes that \<open>conditional_put.rs\<close> probes for.
  A command is a program counter, and each of its moves is one call or one look at the clock. All
  commands read one clock. Stored bytes are the body they encode, or unreadable.
\<close>

section \<open>The lock object and the store\<close>

record lock_body =
  lb_token :: string
  lb_holder :: string
  lb_hostname :: string
  lb_pid :: nat
  lb_acquired_at :: time
  lb_expires_at :: time

datatype blob = Body lock_body | Unreadable

datatype store_error = S_AlreadyExists | S_Precondition | S_Other

record ('s, 'v) object_store =
  put_create :: "blob \<Rightarrow> 's \<Rightarrow> (store_error, unit) result \<times> 's"
  put_update :: "'v \<Rightarrow> blob \<Rightarrow> 's \<Rightarrow> (store_error, unit) result \<times> 's"
  get_object :: "'s \<Rightarrow> (store_error, (blob \<times> 'v) option) result \<times> 's"
  delete_object :: "'s \<Rightarrow> (store_error, unit) result \<times> 's"

section \<open>The moves of a command\<close>

definition ACQUIRE_ATTEMPTS :: nat where "ACQUIRE_ATTEMPTS = 4"

record command =
  c_token :: string
  c_holder :: string
  c_hostname :: string
  c_pid :: nat
  c_ttl_secs :: nat

text \<open>
  \<open>i64::try_from\<close> and \<open>chrono::Duration::try_seconds\<close>: a duration holds at most \<open>i64::MAX\<close>
  milliseconds.
\<close>

definition lock_ttl :: "nat \<Rightarrow> time option" where
  "lock_ttl secs = (if int secs \<le> (2 ^ 63 - 1) div 1000 then Some (int secs * second) else None)"

definition body_at :: "command \<Rightarrow> time \<Rightarrow> time \<Rightarrow> lock_body" where
  "body_at c ttl now =
     \<lparr>lb_token = c_token c, lb_holder = c_holder c, lb_hostname = c_hostname c, lb_pid = c_pid c,
      lb_acquired_at = now, lb_expires_at = now + ttl\<rparr>"

datatype 'v lock_pc =
    Begin nat time
  | Creating nat time lock_body
  | Reading nat time lock_body
  | Checking nat time lock_body lock_body 'v
  | Swapping nat time lock_body lock_body 'v
  | Held lock_body
  | Refused
  | Release_reading lock_body
  | Release_deleting lock_body
  | Unlock_reading bool
  | Unlock_checking bool lock_body
  | Unlock_deleting
  | Done

definition acquire_start :: "command \<Rightarrow> 'v lock_pc" where
  "acquire_start c = (case lock_ttl (c_ttl_secs c) of None \<Rightarrow> Refused | Some ttl \<Rightarrow> Begin 0 ttl)"

fun acquire_s3 :: "('s, 'v) object_store \<Rightarrow> command \<Rightarrow> time \<Rightarrow> 'v lock_pc \<Rightarrow> 's \<Rightarrow> 'v lock_pc \<times> 's" where
  "acquire_s3 os c now (Begin n ttl) s =
     ((if n < ACQUIRE_ATTEMPTS then Creating n ttl (body_at c ttl now) else Refused), s)"
| "acquire_s3 os c now (Creating n ttl b) s =
     (case put_create os (Body b) s of
        (Inr _, s') \<Rightarrow> (Held b, s')
      | (Inl S_AlreadyExists, s') \<Rightarrow> (Reading n ttl b, s')
      | (Inl _, s') \<Rightarrow> (Refused, s'))"
| "acquire_s3 os c now (Reading n ttl b) s =
     (case get_object os s of
        (Inr None, s') \<Rightarrow> (Begin (n + 1) ttl, s')
      | (Inr (Some (Body existing, v)), s') \<Rightarrow> (Checking n ttl b existing v, s')
      | (Inr (Some (Unreadable, v)), s') \<Rightarrow> (Refused, s')
      | (Inl _, s') \<Rightarrow> (Refused, s'))"
| "acquire_s3 os c now (Checking n ttl b existing v) s =
     ((if now < lb_expires_at existing then Refused else Swapping n ttl b existing v), s)"
| "acquire_s3 os c now (Swapping n ttl b existing v) s =
     (case put_update os v (Body b) s of
        (Inr _, s') \<Rightarrow> (Held b, s')
      | (Inl S_Precondition, s') \<Rightarrow> (Begin (n + 1) ttl, s')
      | (Inl _, s') \<Rightarrow> (Refused, s'))"
| "acquire_s3 os c now p s = (p, s)"

fun release_s3 :: "('s, 'v) object_store \<Rightarrow> 'v lock_pc \<Rightarrow> 's \<Rightarrow> 'v lock_pc \<times> 's" where
  "release_s3 os (Release_reading b) s =
     (case get_object os s of
        (Inr (Some (Body current, v)), s') \<Rightarrow>
          (if lb_token current = lb_token b then Release_deleting b else Done, s')
      | (_, s') \<Rightarrow> (Done, s'))"
| "release_s3 os (Release_deleting b) s = (Done, snd (delete_object os s))"
| "release_s3 os p s = (p, s)"

fun unlock_s3 :: "('s, 'v) object_store \<Rightarrow> time \<Rightarrow> 'v lock_pc \<Rightarrow> 's \<Rightarrow> 'v lock_pc \<times> 's" where
  "unlock_s3 os now (Unlock_reading force) s =
     (case get_object os s of
        (Inr None, s') \<Rightarrow> (Done, s')
      | (Inr (Some (Body b, v)), s') \<Rightarrow> (Unlock_checking force b, s')
      | (Inr (Some (Unreadable, v)), s') \<Rightarrow> (if force then Unlock_deleting else Refused, s')
      | (Inl _, s') \<Rightarrow> (Refused, s'))"
| "unlock_s3 os now (Unlock_checking force b) s =
     ((if \<not> lb_expires_at b \<le> now \<and> \<not> force then Refused else Unlock_deleting), s)"
| "unlock_s3 os now Unlock_deleting s =
     (case delete_object os s of (Inr _, s') \<Rightarrow> (Done, s') | (Inl _, s') \<Rightarrow> (Refused, s'))"
| "unlock_s3 os now p s = (p, s)"

definition move :: "('s, 'v) object_store \<Rightarrow> command \<Rightarrow> time \<Rightarrow> 'v lock_pc \<Rightarrow> 's \<Rightarrow> 'v lock_pc \<times> 's" where
  "move os c now p s =
     (case p of
        Release_reading _ \<Rightarrow> release_s3 os p s
      | Release_deleting _ \<Rightarrow> release_s3 os p s
      | Unlock_reading _ \<Rightarrow> unlock_s3 os now p s
      | Unlock_checking _ _ \<Rightarrow> unlock_s3 os now p s
      | Unlock_deleting \<Rightarrow> unlock_s3 os now p s
      | _ \<Rightarrow> acquire_s3 os c now p s)"

section \<open>An acquisition always ends\<close>

fun settled :: "'v lock_pc \<Rightarrow> bool" where
  "settled (Begin _ _) \<longleftrightarrow> False"
| "settled (Creating _ _ _) \<longleftrightarrow> False"
| "settled (Reading _ _ _) \<longleftrightarrow> False"
| "settled (Checking _ _ _ _ _) \<longleftrightarrow> False"
| "settled (Swapping _ _ _ _ _) \<longleftrightarrow> False"
| "settled _ \<longleftrightarrow> True"

text \<open>The moves that are left at most.\<close>

fun moves_left :: "'v lock_pc \<Rightarrow> nat" where
  "moves_left (Begin n _) = 5 * (ACQUIRE_ATTEMPTS - n) + 1"
| "moves_left (Creating n _ _) = 5 * (ACQUIRE_ATTEMPTS - n)"
| "moves_left (Reading n _ _) = 5 * (ACQUIRE_ATTEMPTS - n) - 1"
| "moves_left (Checking n _ _ _ _) = 5 * (ACQUIRE_ATTEMPTS - n) - 2"
| "moves_left (Swapping n _ _ _ _) = 5 * (ACQUIRE_ATTEMPTS - n) - 3"
| "moves_left _ = 0"

text \<open>An attempt is numbered below the limit.\<close>

fun counted :: "'v lock_pc \<Rightarrow> bool" where
  "counted (Creating n _ _) \<longleftrightarrow> n < ACQUIRE_ATTEMPTS"
| "counted (Reading n _ _) \<longleftrightarrow> n < ACQUIRE_ATTEMPTS"
| "counted (Checking n _ _ _ _) \<longleftrightarrow> n < ACQUIRE_ATTEMPTS"
| "counted (Swapping n _ _ _ _) \<longleftrightarrow> n < ACQUIRE_ATTEMPTS"
| "counted _ \<longleftrightarrow> True"

text \<open>The moves of one command, with whatever clock and store state it finds at each.\<close>

fun moves :: "('s, 'v) object_store \<Rightarrow> command \<Rightarrow> 'v lock_pc \<Rightarrow> (time \<times> 's) list \<Rightarrow> 'v lock_pc" where
  "moves os c p [] = p"
| "moves os c p ((now, s) # found) = moves os c (fst (move os c now p s)) found"

lemmas move_splits = prod.split sum.split option.split store_error.split blob.split

lemma move_counted: "counted p \<Longrightarrow> \<not> settled p \<Longrightarrow> counted (fst (move os c now p s))"
  by (cases p) (simp_all add: move_def split: move_splits)

lemma move_fewer: "counted p \<Longrightarrow> \<not> settled p \<Longrightarrow> moves_left (fst (move os c now p s)) < moves_left p"
proof (cases p)
  case (Begin n ttl)
  then show ?thesis
    by (simp add: move_def)
qed (auto simp add: move_def Suc_diff_Suc [symmetric] split: move_splits)

lemma settled_stays: "settled p \<Longrightarrow> settled (fst (move os c now p s))"
  by (cases p) (simp_all add: move_def split: move_splits)

text \<open>
  C22: Taking the lock ends. Whatever the store answers and however the other commands and the clock
  interleave with it, an acquisition holds the lock or has given up after at most twenty-one moves, in
  which it makes at most four attempts.
\<close>

theorem acquire_ends: "21 \<le> length found \<Longrightarrow> settled (moves os c (acquire_start c) found)"
proof -
  have stays: "settled (moves os c p found)" if "settled p" for p and found :: "(time \<times> 'a) list"
    using that by (induction found arbitrary: p) (auto simp: settled_stays)
  have "settled (moves os c p found)" if "counted p" "moves_left p \<le> length found" for p and found :: "(time \<times> 'a) list"
    using that
  proof (induction found arbitrary: p)
    case Nil
    then show ?case
      by (cases p) auto
  next
    case (Cons f found)
    show ?case
    proof (cases "settled p")
      case True
      then show ?thesis
        by (rule stays)
    next
      case False
      obtain now s where f: "f = (now, s)"
        by (cases f)
      have "moves_left (fst (move os c now p s)) \<le> length found"
        using move_fewer [OF Cons.prems(1) False, of os c now s] Cons.prems(2) by simp
      then show ?thesis
        unfolding f moves.simps by (rule Cons.IH [OF move_counted [OF Cons.prems(1) False]])
    qed
  qed
  moreover have "counted (acquire_start c)" "moves_left (acquire_start c) \<le> 21"
    by (auto simp: acquire_start_def ACQUIRE_ATTEMPTS_def split: option.split)
  moreover assume "21 \<le> length found"
  ultimately show ?thesis
    by (meson le_trans)
qed

section \<open>The store keeps its promises\<close>

text \<open>
  A write that is refused or fails before its effect leaves the object as it is. A create takes
  effect only on an absent object, an update only on the version it names, and one version is one
  content.
\<close>

definition creates_ok :: "('s, 'v) object_store \<Rightarrow> ('s \<Rightarrow> (blob \<times> 'v) option) \<Rightarrow> bool" where
  "creates_ok os obj \<longleftrightarrow> (\<forall>b s r s'. put_create os b s = (r, s') \<longrightarrow>
     (obj s' = obj s \<and> r \<noteq> Inr ()) \<or> (obj s = None \<and> (\<exists>v. obj s' = Some (b, v)) \<and> r \<in> {Inr (), Inl S_Other}))"

definition updates_ok :: "('s, 'v) object_store \<Rightarrow> ('s \<Rightarrow> (blob \<times> 'v) option) \<Rightarrow> bool" where
  "updates_ok os obj \<longleftrightarrow> (\<forall>v b s r s'. put_update os v b s = (r, s') \<longrightarrow>
     (obj s' = obj s \<and> r \<noteq> Inr ()) \<or>
     ((\<exists>b'. obj s = Some (b', v)) \<and> (\<exists>v'. obj s' = Some (b, v')) \<and> r \<in> {Inr (), Inl S_Other}))"

definition gets_ok :: "('s, 'v) object_store \<Rightarrow> ('s \<Rightarrow> (blob \<times> 'v) option) \<Rightarrow> bool" where
  "gets_ok os obj \<longleftrightarrow> (\<forall>s r s'. get_object os s = (r, s') \<longrightarrow> obj s' = obj s \<and> (\<forall>o'. r = Inr o' \<longrightarrow> o' = obj s))"

definition versions_ok :: "('s \<Rightarrow> (blob \<times> 'v) option) \<Rightarrow> bool" where
  "versions_ok obj \<longleftrightarrow> (\<forall>s s' b b' v. obj s = Some (b, v) \<and> obj s' = Some (b', v) \<longrightarrow> b = b')"

definition store_ok :: "('s, 'v) object_store \<Rightarrow> ('s \<Rightarrow> (blob \<times> 'v) option) \<Rightarrow> bool" where
  "store_ok os obj \<longleftrightarrow> creates_ok os obj \<and> updates_ok os obj \<and> gets_ok os obj \<and> versions_ok obj"

lemma store_okD:
  assumes "store_ok os obj"
  shows "put_create os b s = (r, s') \<Longrightarrow>
      (obj s' = obj s \<and> r \<noteq> Inr ()) \<or> (obj s = None \<and> (\<exists>v. obj s' = Some (b, v)) \<and> r \<in> {Inr (), Inl S_Other})"
    and "put_update os v b s = (r, s') \<Longrightarrow>
      (obj s' = obj s \<and> r \<noteq> Inr ()) \<or>
      ((\<exists>b'. obj s = Some (b', v)) \<and> (\<exists>v'. obj s' = Some (b, v')) \<and> r \<in> {Inr (), Inl S_Other})"
    and "get_object os s = (q, s') \<Longrightarrow> obj s' = obj s \<and> (\<forall>o'. q = Inr o' \<longrightarrow> o' = obj s)"
    and "obj s = Some (b, v) \<Longrightarrow> obj s' = Some (b', v) \<Longrightarrow> b = b'"
proof -
  have ok: "creates_ok os obj" "updates_ok os obj" "gets_ok os obj" "versions_ok obj"
    using assms by (simp_all add: store_ok_def)
  show "put_create os b s = (r, s') \<Longrightarrow>
      (obj s' = obj s \<and> r \<noteq> Inr ()) \<or> (obj s = None \<and> (\<exists>v. obj s' = Some (b, v)) \<and> r \<in> {Inr (), Inl S_Other})"
    using ok(1) unfolding creates_ok_def by blast
  show "put_update os v b s = (r, s') \<Longrightarrow>
      (obj s' = obj s \<and> r \<noteq> Inr ()) \<or>
      ((\<exists>b'. obj s = Some (b', v)) \<and> (\<exists>v'. obj s' = Some (b, v')) \<and> r \<in> {Inr (), Inl S_Other})"
    using ok(2) unfolding updates_ok_def by blast
  show "get_object os s = (q, s') \<Longrightarrow> obj s' = obj s \<and> (\<forall>o'. q = Inr o' \<longrightarrow> o' = obj s)"
    using ok(3) unfolding gets_ok_def by blast
  show "obj s = Some (b, v) \<Longrightarrow> obj s' = Some (b', v) \<Longrightarrow> b = b'"
    using ok(4) unfolding versions_ok_def by blast
qed

section \<open>Commands side by side\<close>

record ('s, 'v) lock_system =
  ls_store :: 's
  ls_clock :: time
  ls_pc :: "nat \<Rightarrow> 'v lock_pc"

text \<open>
  Time passes; a command moves, starts its release, or dies. With \<open>prompt\<close>, a command that releases
  deletes the object before its own lease is over, and nobody breaks the lock with \<open>unlock\<close>.
\<close>

fun on_time :: "time \<Rightarrow> 'v lock_pc \<Rightarrow> bool" where
  "on_time now (Release_deleting b) \<longleftrightarrow> now < lb_expires_at b"
| "on_time now (Unlock_reading _) \<longleftrightarrow> False"
| "on_time now (Unlock_checking _ _) \<longleftrightarrow> False"
| "on_time now Unlock_deleting \<longleftrightarrow> False"
| "on_time now _ \<longleftrightarrow> True"

inductive lock_step ::
  "('s, 'v) object_store \<Rightarrow> (nat \<Rightarrow> command) \<Rightarrow> bool \<Rightarrow> ('s, 'v) lock_system \<Rightarrow> ('s, 'v) lock_system \<Rightarrow> bool"
  for os cmds prompt where
    time_passes: "lock_step os cmds prompt L (L\<lparr>ls_clock := ls_clock L + int n\<rparr>)"
  | command_moves: "prompt \<longrightarrow> on_time (ls_clock L) (ls_pc L i) \<Longrightarrow>
      move os (cmds i) (ls_clock L) (ls_pc L i) (ls_store L) = (p, s) \<Longrightarrow>
      lock_step os cmds prompt L (L\<lparr>ls_pc := (ls_pc L)(i := p), ls_store := s\<rparr>)"
  | releases: "ls_pc L i = Held b \<Longrightarrow> lock_step os cmds prompt L (L\<lparr>ls_pc := (ls_pc L)(i := Release_reading b)\<rparr>)"
  | dies: "lock_step os cmds prompt L (L\<lparr>ls_pc := (ls_pc L)(i := Refused)\<rparr>)"

text \<open>The body under which a command owns the lock.\<close>

fun owns :: "'v lock_pc \<Rightarrow> lock_body option" where
  "owns (Held b) = Some b"
| "owns (Release_reading b) = Some b"
| "owns (Release_deleting b) = Some b"
| "owns _ = None"

text \<open>The body a command is about to write.\<close>

fun offers :: "'v lock_pc \<Rightarrow> lock_body option" where
  "offers (Creating _ _ b) = Some b"
| "offers (Reading _ _ b) = Some b"
| "offers (Checking _ _ b _ _) = Some b"
| "offers (Swapping _ _ b _ _) = Some b"
| "offers p = owns p"

definition live :: "('s, 'v) lock_system \<Rightarrow> nat \<Rightarrow> bool" where
  "live L i \<longleftrightarrow> (case owns (ls_pc L i) of Some b \<Rightarrow> ls_clock L < lb_expires_at b | None \<Rightarrow> False)"

lemma live_iff: "live L i \<longleftrightarrow> (\<exists>b. owns (ls_pc L i) = Some b \<and> ls_clock L < lb_expires_at b)"
  by (simp add: live_def split: option.split)

definition lock_inv :: "('s \<Rightarrow> (blob \<times> 'v) option) \<Rightarrow> (nat \<Rightarrow> command) \<Rightarrow> ('s, 'v) lock_system \<Rightarrow> bool" where
  "lock_inv obj cmds L \<longleftrightarrow>
     (\<forall>i b. offers (ls_pc L i) = Some b \<longrightarrow> lb_token b = c_token (cmds i))
     \<and> (\<forall>i b. owns (ls_pc L i) = Some b \<and> ls_clock L < lb_expires_at b \<longrightarrow> (\<exists>v. obj (ls_store L) = Some (Body b, v)))
     \<and> (\<forall>i n ttl b e v. ls_pc L i = Checking n ttl b e v \<longrightarrow> (\<exists>s. obj s = Some (Body e, v)))
     \<and> (\<forall>i n ttl b e v. ls_pc L i = Swapping n ttl b e v \<longrightarrow> (\<exists>s. obj s = Some (Body e, v)) \<and> lb_expires_at e \<le> ls_clock L)"

lemma owns_offers: "owns p = Some b \<Longrightarrow> offers p = Some b"
  by (cases p) auto

text \<open>The invariant, one part at a time.\<close>

lemma lock_invI:
  assumes "\<And>i b. offers (ls_pc L i) = Some b \<Longrightarrow> lb_token b = c_token (cmds i)"
    and "\<And>i b. owns (ls_pc L i) = Some b \<Longrightarrow> ls_clock L < lb_expires_at b \<Longrightarrow> \<exists>v. obj (ls_store L) = Some (Body b, v)"
    and "\<And>i n ttl b e v. ls_pc L i = Checking n ttl b e v \<Longrightarrow> \<exists>s. obj s = Some (Body e, v)"
    and "\<And>i n ttl b e v. ls_pc L i = Swapping n ttl b e v \<Longrightarrow> (\<exists>s. obj s = Some (Body e, v)) \<and> lb_expires_at e \<le> ls_clock L"
  shows "lock_inv obj cmds L"
  using assms unfolding lock_inv_def by blast

lemma inv_token: "lock_inv obj cmds L \<Longrightarrow> offers (ls_pc L i) = Some b \<Longrightarrow> lb_token b = c_token (cmds i)"
  by (simp add: lock_inv_def)

lemma inv_live: "lock_inv obj cmds L \<Longrightarrow> owns (ls_pc L i) = Some b \<Longrightarrow> ls_clock L < lb_expires_at b \<Longrightarrow>
    \<exists>v. obj (ls_store L) = Some (Body b, v)"
  by (simp add: lock_inv_def)

lemma inv_check: "lock_inv obj cmds L \<Longrightarrow> ls_pc L i = Checking n ttl b e v \<Longrightarrow> \<exists>s. obj s = Some (Body e, v)"
  unfolding lock_inv_def by blast

lemma inv_swap: "lock_inv obj cmds L \<Longrightarrow> ls_pc L i = Swapping n ttl b e v \<Longrightarrow>
    (\<exists>s. obj s = Some (Body e, v)) \<and> lb_expires_at e \<le> ls_clock L"
  unfolding lock_inv_def by blast

lemma live_unique:
  assumes "lock_inv obj cmds L" "inj (c_token \<circ> cmds)" "live L i" "live L j"
  shows "i = j"
proof -
  obtain a b where a: "owns (ls_pc L i) = Some a" "ls_clock L < lb_expires_at a"
    and b: "owns (ls_pc L j) = Some b" "ls_clock L < lb_expires_at b"
    using assms(3,4) by (auto simp: live_iff)
  then have "a = b"
    using inv_live [OF assms(1) a] inv_live [OF assms(1) b] by auto
  then have "c_token (cmds i) = c_token (cmds j)"
    using inv_token [OF assms(1) owns_offers [OF a(1)]] inv_token [OF assms(1) owns_offers [OF b(1)]] by simp
  with assms(2) show ?thesis
    by (auto simp: inj_def)
qed

text \<open>The moves that write are the two puts and the two deletes.\<close>

fun writes :: "'v lock_pc \<Rightarrow> bool" where
  "writes (Creating _ _ _) \<longleftrightarrow> True"
| "writes (Swapping _ _ _ _ _) \<longleftrightarrow> True"
| "writes (Release_deleting _) \<longleftrightarrow> True"
| "writes Unlock_deleting \<longleftrightarrow> True"
| "writes _ \<longleftrightarrow> False"

lemma move_reads:
  assumes "store_ok os obj" "\<not> writes p"
  shows "obj (snd (move os c now p s)) = obj s"
proof -
  have "snd (move os c now p s) = s \<or> snd (move os c now p s) = snd (get_object os s)"
    using assms(2) by (cases p) (simp_all add: move_def split: move_splits)
  moreover have "obj (snd (get_object os s)) = obj s"
    using store_okD(3) [OF assms(1), of s] by (cases "get_object os s") auto
  ultimately show ?thesis
    by auto
qed

lemma move_keeps_owner: "\<not> writes p \<Longrightarrow> owns (fst (move os c now p s)) = Some b \<longrightarrow> owns p = Some b"
  by (cases p) (simp_all add: move_def split: move_splits)

lemma move_put:
  "snd (move os c now (Creating n ttl b) s) = snd (put_create os (Body b) s)"
  "snd (move os c now (Swapping n ttl b e v) s) = snd (put_update os v (Body b) s)"
  by (simp_all add: move_def split: move_splits)

text \<open>A move of one command spares the lock of another that is live.\<close>

lemma move_spares:
  assumes ok: "store_ok os obj" and inv: "lock_inv obj cmds L" and tokens: "inj (c_token \<circ> cmds)"
    and "on_time (ls_clock L) (ls_pc L i)" "live L k" "k \<noteq> i"
  shows "obj (snd (move os (cmds i) (ls_clock L) (ls_pc L i) (ls_store L))) = obj (ls_store L)"
proof -
  obtain b v where b: "owns (ls_pc L k) = Some b" "ls_clock L < lb_expires_at b" "obj (ls_store L) = Some (Body b, v)"
    using assms(5) inv_live [OF inv] unfolding live_iff by blast
  note store = store_okD [OF ok]
  show ?thesis
  proof (cases "writes (ls_pc L i)")
    case True
    then show ?thesis
    proof (cases "ls_pc L i")
      case (Creating n ttl c)
      with store(1) [OF surjective_pairing, of "Body c" "ls_store L"] b(3) show ?thesis
        by (auto simp: move_put)
    next
      case (Swapping n ttl c e u)
      from inv_swap [OF inv this] obtain s0 where "obj s0 = Some (Body e, u)" "lb_expires_at e \<le> ls_clock L"
        by blast
      then have "u \<noteq> v"
        using store(4) [of s0 "Body e" u "ls_store L" "Body b"] b by auto
      with store(2) [OF surjective_pairing, of u "Body c" "ls_store L"] b(3) Swapping show ?thesis
        by (auto simp: move_put)
    next
      case (Release_deleting c)
      with assms(4) have "live L i"
        by (simp add: live_iff)
      with live_unique [OF inv tokens _ assms(5)] assms(6) show ?thesis
        by blast
    next
      case Unlock_deleting
      with assms(4) show ?thesis
        by simp
    qed simp_all
  qed (rule move_reads [OF ok])
qed

text \<open>A command that moves and owns the lock then has its own body there.\<close>

lemma move_owns:
  assumes ok: "store_ok os obj" and inv: "lock_inv obj cmds L"
    and run: "move os (cmds i) (ls_clock L) (ls_pc L i) (ls_store L) = (p, s)"
    and "owns p = Some b" "ls_clock L < lb_expires_at b"
  shows "\<exists>v. obj s = Some (Body b, v)"
proof (cases "writes (ls_pc L i)")
  case True
  note store = store_okD [OF ok]
  from True show ?thesis
  proof (cases "ls_pc L i")
    case (Creating n ttl c)
    obtain r s1 where call: "put_create os (Body c) (ls_store L) = (r, s1)"
      by fastforce
    with run Creating assms(4) have "r = Inr ()" "b = c" "s1 = s"
      by (auto simp: move_def split: sum.splits store_error.splits)
    with store(1) [OF call] show ?thesis
      by auto
  next
    case (Swapping n ttl c e u)
    obtain r s1 where call: "put_update os u (Body c) (ls_store L) = (r, s1)"
      by fastforce
    with run Swapping assms(4) have "r = Inr ()" "b = c" "s1 = s"
      by (auto simp: move_def split: sum.splits store_error.splits)
    with store(2) [OF call] show ?thesis
      by auto
  qed (use run assms(4) in \<open>auto simp: move_def split: prod.splits sum.splits\<close>)
next
  case False
  with run assms(4) have "owns (ls_pc L i) = Some b"
    using move_keeps_owner [OF False, of os "cmds i" "ls_clock L" "ls_store L" b] by simp
  moreover have "obj s = obj (ls_store L)"
    using move_reads [OF ok False, of "cmds i" "ls_clock L" "ls_store L"] run by simp
  ultimately show ?thesis
    using inv_live [OF inv _ assms(5)] by simp
qed

lemma move_offers:
  "(\<And>b. offers p = Some b \<Longrightarrow> lb_token b = c_token c) \<Longrightarrow> offers (fst (move os c now p s)) = Some b \<longrightarrow> lb_token b = c_token c"
  by (cases p) (auto simp: move_def body_at_def split: move_splits)

lemma move_checking:
  assumes "store_ok os obj"
  shows "fst (move os c now p s) = Checking n ttl b e v \<longrightarrow> (\<exists>s. obj s = Some (Body e, v))"
proof -
  have "obj s = Some (Body e, v)" if "fst (get_object os s) = Inr (Some (Body e, v))"
    using store_okD(3) [OF assms, of s] that by (cases "get_object os s") auto
  then show ?thesis
    by (cases p) (auto simp: move_def split: move_splits)
qed

lemma move_swapping: "fst (move os c now p s) = Swapping n ttl b e v \<longrightarrow> p = Checking n ttl b e v \<and> lb_expires_at e \<le> now"
  by (cases p) (auto simp: move_def split: move_splits)

lemma inv_moves:
  assumes ok: "store_ok os obj" and inv: "lock_inv obj cmds L" and tokens: "inj (c_token \<circ> cmds)"
    and time: "on_time (ls_clock L) (ls_pc L i)"
    and run: "move os (cmds i) (ls_clock L) (ls_pc L i) (ls_store L) = (p, s)"
  shows "lock_inv obj cmds (L\<lparr>ls_pc := (ls_pc L)(i := p), ls_store := s\<rparr>)" (is "lock_inv _ _ ?L")
proof -
  have p: "fst (move os (cmds i) (ls_clock L) (ls_pc L i) (ls_store L)) = p"
    by (simp add: run)
  have "lb_token b = c_token (cmds k)" if "offers (ls_pc ?L k) = Some b" for k b
    using that move_offers [of "ls_pc L i" "cmds i" os "ls_clock L" "ls_store L" b] inv_token [OF inv]
    by (cases "k = i") (auto simp: p)
  moreover have "\<exists>v. obj s = Some (Body b, v)" if "owns (ls_pc ?L k) = Some b" "ls_clock L < lb_expires_at b" for k b
  proof (cases "k = i")
    case True
    with that move_owns [OF ok inv run] show ?thesis
      by simp
  next
    case False
    with that have k: "owns (ls_pc L k) = Some b" "live L k"
      by (auto simp: live_iff)
    show ?thesis
      using move_spares [OF ok inv tokens time k(2) False] inv_live [OF inv k(1) that(2)] run by simp
  qed
  moreover have "\<exists>s. obj s = Some (Body e, v)" if "ls_pc ?L k = Checking n ttl b e v" for k n ttl b e v
    using that move_checking [OF ok, of "cmds i" "ls_clock L" "ls_pc L i" "ls_store L" n ttl b e v] inv_check [OF inv, of k]
    by (cases "k = i") (auto simp: p)
  moreover have "(\<exists>s. obj s = Some (Body e, v)) \<and> lb_expires_at e \<le> ls_clock L" if "ls_pc ?L k = Swapping n ttl b e v" for k n ttl b e v
    using that move_swapping [of os "cmds i" "ls_clock L" "ls_pc L i" "ls_store L" n ttl b e v]
      inv_check [OF inv, of i] inv_swap [OF inv, of k]
    by (cases "k = i") (auto simp: p)
  ultimately show ?thesis
    by (intro lock_invI) simp_all
qed

lemma inv_step:
  assumes "lock_step os cmds True L L'" "store_ok os obj" "inj (c_token \<circ> cmds)" "lock_inv obj cmds L"
  shows "lock_inv obj cmds L'"
  using assms(1)
proof cases
  case (time_passes n)
  with assms(4) show ?thesis
    unfolding lock_inv_def by (fastforce simp: less_le_trans)
next
  case (command_moves i p s)
  then show ?thesis
    using inv_moves [OF assms(2,4,3), of i p s] by simp
next
  case (releases i b)
  then show ?thesis
    using assms(4) inv_token [OF assms(4), of i] inv_live [OF assms(4), of i] by (auto simp: lock_inv_def)
next
  case (dies i)
  with assms(4) show ?thesis
    by (auto simp: lock_inv_def)
qed

lemma acquire_start_fresh:
  "offers (acquire_start c) = None" "owns (acquire_start c) = None"
  "acquire_start c \<noteq> Checking n ttl b e v" "acquire_start c \<noteq> Swapping n ttl b e v"
  by (auto simp: acquire_start_def split: option.split)

text \<open>
  C21: The lock excludes. From any state of the store, with commands of distinct tokens that are at their
  start, in every interleaving of their moves, of time and of deaths, at most one command at a time has
  a lease that is not over, as long as a command that releases deletes within its own lease.
\<close>

theorem lock_excludes:
  assumes "(lock_step os cmds True)\<^sup>*\<^sup>* L L'" "store_ok os obj" "inj (c_token \<circ> cmds)"
    and "\<forall>i. ls_pc L i = acquire_start (cmds i)" "live L' i" "live L' j"
  shows "i = j"
proof -
  have "lock_inv obj cmds L"
    using assms(4) by (simp add: lock_inv_def acquire_start_fresh)
  with assms(1) have "lock_inv obj cmds L'"
    by (induction rule: rtranclp_induct) (auto intro: inv_step assms(2,3))
  then show ?thesis
    using live_unique assms(3,5,6) by blast
qed

section \<open>A store that never fails\<close>

text \<open>An object with its content as its version; the store answers every call at once.\<close>

definition sample_store :: "(blob option, blob) object_store" where
  "sample_store =
     \<lparr>put_create = (\<lambda>b s. case s of None \<Rightarrow> (Inr (), Some b) | Some _ \<Rightarrow> (Inl S_AlreadyExists, s)),
      put_update = (\<lambda>v b s. if s = Some v then (Inr (), Some b) else (Inl S_Precondition, s)),
      get_object = (\<lambda>s. (Inr (map_option (\<lambda>b. (b, b)) s), s)),
      delete_object = (\<lambda>s. (Inr (), None))\<rparr>"

definition sample_object :: "blob option \<Rightarrow> (blob \<times> blob) option" where
  "sample_object s = map_option (\<lambda>b. (b, b)) s"

lemma sample_store_ok: "store_ok sample_store sample_object"
  by (auto simp: store_ok_def creates_ok_def updates_ok_def gets_ok_def versions_ok_def sample_store_def sample_object_def
      split: option.splits if_splits)

definition sample_command :: "nat \<Rightarrow> command" where
  "sample_command i = \<lparr>c_token = replicate i CHR ''t'', c_holder = ''score'', c_hostname = ''h'', c_pid = i,
     c_ttl_secs = (if i = 0 then 10 else 100)\<rparr>"

datatype lock_event = Tick nat | Move nat | Release nat

fun happen :: "('s, 'v) object_store \<Rightarrow> (nat \<Rightarrow> command) \<Rightarrow> lock_event \<Rightarrow> ('s, 'v) lock_system \<Rightarrow> ('s, 'v) lock_system" where
  "happen os cmds (Tick n) L = L\<lparr>ls_clock := ls_clock L + int n * second\<rparr>"
| "happen os cmds (Move i) L =
     (let (p, s) = move os (cmds i) (ls_clock L) (ls_pc L i) (ls_store L) in
      L\<lparr>ls_pc := (ls_pc L)(i := p), ls_store := s\<rparr>)"
| "happen os cmds (Release i) L =
     (case ls_pc L i of Held b \<Rightarrow> L\<lparr>ls_pc := (ls_pc L)(i := Release_reading b)\<rparr> | _ \<Rightarrow> L)"

definition sample_system :: "(blob option, blob) lock_system" where
  "sample_system = \<lparr>ls_store = None, ls_clock = 0, ls_pc = (\<lambda>i. acquire_start (sample_command i))\<rparr>"

lemma happen_step: "lock_step os cmds False L (happen os cmds e L) \<or> happen os cmds e L = L"
proof (cases e)
  case (Move i)
  obtain p s where "move os (cmds i) (ls_clock L) (ls_pc L i) (ls_store L) = (p, s)"
    by fastforce
  then show ?thesis
    using Move lock_step.command_moves [of False L i os cmds p s] by simp
next
  case (Release i)
  then show ?thesis
    using lock_step.releases [of L i _ os cmds False] by (auto split: lock_pc.split)
next
  case (Tick n)
  have "happen os cmds e L = L\<lparr>ls_clock := ls_clock L + int (n * nat second)\<rparr>"
    by (simp add: Tick second_def)
  then show ?thesis
    using lock_step.time_passes [of os cmds False L "n * nat second"] by simp
qed

lemma happen_reach: "(lock_step os cmds False)\<^sup>*\<^sup>* L (fold (happen os cmds) es L)"
proof (induction es arbitrary: L)
  case (Cons e es)
  show ?case
    using happen_step [of os cmds L e] Cons [of "happen os cmds e L"]
    by (auto intro: converse_rtranclp_into_rtranclp)
qed simp

lemma sample_tokens: "inj (c_token \<circ> sample_command)"
  by (rule injI) (simp add: sample_command_def)

lemma prompt_move: "on_time (ls_clock L) (ls_pc L i) \<Longrightarrow> lock_step os cmds True L (happen os cmds (Move i) L)"
  using lock_step.command_moves [of True L i os cmds] by (auto split: prod.split)

theorem acquire_ends_witness:
  "settled (moves sample_store (sample_command 0) (acquire_start (sample_command 0)) (replicate 21 (0, Some Unreadable)))"
  by (rule acquire_ends) simp

theorem lock_excludes_witness:
  "live (fold (happen sample_store sample_command) [Move 0, Move 0] sample_system) 0
   \<and> \<not> live (fold (happen sample_store sample_command) [Move 0, Move 0] sample_system) 1"
proof
  let ?L = "fold (happen sample_store sample_command) [Move 0, Move 0] sample_system"
  show here: "live ?L 0"
    by code_simp
  let ?step = "lock_step sample_store sample_command True" and ?L1 = "happen sample_store sample_command (Move 0) sample_system"
  have "?step sample_system ?L1"
    by (rule prompt_move) code_simp
  moreover have "?step ?L1 (happen sample_store sample_command (Move 0) ?L1)"
    by (rule prompt_move) code_simp
  ultimately have "?step\<^sup>*\<^sup>* sample_system ?L"
    by (simp only: fold.simps comp_def id_def rtranclp.rtrancl_into_rtrancl [OF r_into_rtranclp])
  moreover have "\<forall>i. ls_pc sample_system i = acquire_start (sample_command i)"
    by (simp add: sample_system_def)
  ultimately show "\<not> live ?L 1"
    using lock_excludes [OF _ sample_store_ok sample_tokens, of sample_system ?L 0 1] here by auto
qed

section \<open>A command on its own\<close>

text \<open>A store that does what it is asked whenever its condition holds.\<close>

definition store_exact :: "('s, 'v) object_store \<Rightarrow> ('s \<Rightarrow> (blob \<times> 'v) option) \<Rightarrow> bool" where
  "store_exact os obj \<longleftrightarrow> store_ok os obj
     \<and> (\<forall>b s. fst (put_create os b s) = (if obj s = None then Inr () else Inl S_AlreadyExists))
     \<and> (\<forall>s. fst (get_object os s) = Inr (obj s))
     \<and> (\<forall>v b s. (\<exists>b'. obj s = Some (b', v)) \<longrightarrow> fst (put_update os v b s) = Inr ())"

text \<open>The moves of one command that nothing interferes with, at one reading of the clock.\<close>

fun alone :: "nat \<Rightarrow> ('s, 'v) object_store \<Rightarrow> command \<Rightarrow> time \<Rightarrow> 'v lock_pc \<times> 's \<Rightarrow> 'v lock_pc \<times> 's" where
  "alone 0 os c now ps = ps"
| "alone (Suc n) os c now ps = alone n os c now (move os c now (fst ps) (snd ps))"

lemma exactD:
  assumes "store_exact os obj"
  shows "obj s = None \<Longrightarrow> \<exists>s' v. put_create os b s = (Inr (), s') \<and> obj s' = Some (b, v)"
    and "obj s \<noteq> None \<Longrightarrow> \<exists>s'. put_create os b s = (Inl S_AlreadyExists, s') \<and> obj s' = obj s"
    and "\<exists>s'. get_object os s = (Inr (obj s), s') \<and> obj s' = obj s"
    and "obj s = Some (b', v) \<Longrightarrow> \<exists>s' v'. put_update os v b s = (Inr (), s') \<and> obj s' = Some (b, v')"
proof -
  have ok: "store_ok os obj"
    using assms by (simp add: store_exact_def)
  show "\<exists>s' v. put_create os b s = (Inr (), s') \<and> obj s' = Some (b, v)" if "obj s = None"
  proof (cases "put_create os b s")
    case (Pair r s')
    moreover have "fst (put_create os b s) = Inr ()"
      using assms that by (simp add: store_exact_def)
    ultimately show ?thesis
      using store_okD(1) [OF ok Pair] by auto
  qed
  show "\<exists>s'. put_create os b s = (Inl S_AlreadyExists, s') \<and> obj s' = obj s" if "obj s \<noteq> None"
  proof (cases "put_create os b s")
    case (Pair r s')
    moreover have "fst (put_create os b s) = Inl S_AlreadyExists"
      using assms that by (simp add: store_exact_def)
    ultimately show ?thesis
      using store_okD(1) [OF ok Pair] by auto
  qed
  show "\<exists>s'. get_object os s = (Inr (obj s), s') \<and> obj s' = obj s"
  proof (cases "get_object os s")
    case (Pair r s')
    moreover have "fst (get_object os s) = Inr (obj s)"
      using assms by (simp add: store_exact_def)
    ultimately show ?thesis
      using store_okD(3) [OF ok Pair] by auto
  qed
  show "\<exists>s' v'. put_update os v b s = (Inr (), s') \<and> obj s' = Some (b, v')" if "obj s = Some (b', v)"
  proof (cases "put_update os v b s")
    case (Pair r s')
    moreover have "fst (put_update os v b s) = Inr ()"
      using assms that by (simp add: store_exact_def)
    ultimately show ?thesis
      using store_okD(2) [OF ok Pair] by auto
  qed
qed

lemma alone_stays: "p = Refused \<or> p = Held b \<Longrightarrow> alone n os c now (p, s) = (p, s)"
  by (induction n) (auto simp: move_def)

text \<open>
  C23: What a command gets from the lock when nothing interferes, in five moves: an absent lock is created, an expired
  lease is taken over, and the object then is this command's own; a lease that is not over and an
  unreadable object refuse it and stay as they are.
\<close>

theorem acquire_alone:
  assumes "store_exact os obj" "lock_ttl (c_ttl_secs c) = Some ttl" "alone 5 os c now (acquire_start c, s) = (p, s')"
  shows "case obj s of
      None \<Rightarrow> p = Held (body_at c ttl now) \<and> (\<exists>v. obj s' = Some (Body (body_at c ttl now), v))
    | Some (Unreadable, _) \<Rightarrow> p = Refused \<and> obj s' = obj s
    | Some (Body e, _) \<Rightarrow>
        if now < lb_expires_at e then p = Refused \<and> obj s' = obj s
        else p = Held (body_at c ttl now) \<and> (\<exists>v. obj s' = Some (Body (body_at c ttl now), v))"
proof -
  let ?b = "body_at c ttl now"
  note exact = exactD [OF assms(1)]
  have five: "alone 5 os c now ps = alone 3 os c now (move os c now (fst q) (snd q))"
    if "q = move os c now (fst ps) (snd ps)" for ps q
    using that by (simp add: numeral_eq_Suc)
  have steps: "(p, s') = alone 3 os c now (move os c now (Creating 0 ttl ?b) s)"
    using assms(2,3) five [of "(Creating 0 ttl ?b, s)" "(acquire_start c, s)"]
    by (simp add: acquire_start_def move_def ACQUIRE_ATTEMPTS_def)
  have three: "alone 3 os c now ps = alone 2 os c now (move os c now (fst ps) (snd ps))"
    "alone 2 os c now ps = alone 1 os c now (move os c now (fst ps) (snd ps))"
    "alone 1 os c now ps = move os c now (fst ps) (snd ps)" for ps
    by (simp_all add: numeral_eq_Suc)
  show ?thesis
  proof (cases "obj s")
    case None
    from exact(1) [OF this, of "Body ?b"] obtain s1 v where "put_create os (Body ?b) s = (Inr (), s1)" "obj s1 = Some (Body ?b, v)"
      by blast
    with None steps show ?thesis
      by (simp add: move_def alone_stays)
  next
    case (Some o1)
    from exact(2) [of s "Body ?b"] Some obtain s1 where s1: "put_create os (Body ?b) s = (Inl S_AlreadyExists, s1)" "obj s1 = obj s"
      by auto
    from exact(3) [of s1] obtain s2 where s2: "get_object os s1 = (Inr (obj s), s2)" "obj s2 = obj s"
      using s1(2) by auto
    obtain blob v where o1: "o1 = (blob, v)"
      by (cases o1)
    obtain s3 v' where s3: "put_update os v (Body ?b) s2 = (Inr (), s3)" "obj s3 = Some (Body ?b, v')"
      using exact(4) [of s2 blob v "Body ?b"] s2(2) Some o1 by auto
    have "(p, s') = alone 2 os c now (move os c now (Reading 0 ttl ?b) s1)"
      using steps s1 by (simp add: three(1) move_def)
    then have run: "(p, s') = alone 2 os c now
        (case blob of Body e \<Rightarrow> (Checking 0 ttl ?b e v, s2) | Unreadable \<Rightarrow> (Refused, s2))"
      using s2 Some o1 by (simp add: move_def split: blob.split)
    show ?thesis
    proof (cases blob)
      case (Body e)
      with run s2 s3 Some o1 show ?thesis
        by (cases "now < lb_expires_at e") (simp_all add: three move_def)
    next
      case Unreadable
      with run s2 Some o1 show ?thesis
        by (simp add: alone_stays)
    qed
  qed
qed

lemma sample_store_exact: "store_exact sample_store sample_object"
  using sample_store_ok by (simp add: store_exact_def sample_store_def sample_object_def split: option.split)

theorem acquire_alone_witness:
  "fst (alone 5 sample_store (sample_command 1) (50 * second)
     (acquire_start (sample_command 1), Some (Body (body_at (sample_command 0) (10 * second) 0)))) =
   Held (body_at (sample_command 1) (100 * second) (50 * second))"
proof -
  have ttl: "lock_ttl (c_ttl_secs (sample_command 1)) = Some (100 * second)"
    by (simp add: lock_ttl_def sample_command_def)
  let ?s = "Some (Body (body_at (sample_command 0) (10 * second) 0))"
  obtain p s' where run: "alone 5 sample_store (sample_command 1) (50 * second) (acquire_start (sample_command 1), ?s) = (p, s')"
    by (cases "alone 5 sample_store (sample_command 1) (50 * second) (acquire_start (sample_command 1), ?s)")
  have late: "\<not> 50 * second < lb_expires_at (body_at (sample_command 0) (10 * second) 0)"
    by (simp add: body_at_def second_def)
  have there: "sample_object ?s = Some (Body (body_at (sample_command 0) (10 * second) 0), Body (body_at (sample_command 0) (10 * second) 0))"
    by (simp add: sample_object_def)
  have "p = Held (body_at (sample_command 1) (100 * second) (50 * second))"
    using acquire_alone [OF sample_store_exact ttl run] late unfolding there by simp
  with run show ?thesis
    by simp
qed

section \<open>A release that comes late\<close>

text \<open>
  Command 0 reads its own token just before its lease is over. The lease runs out, command 1 takes the
  lock over, and the delete of command 0 then removes the lock of command 1, so that command 2 creates its own.
\<close>

definition late_release :: "lock_event list" where
  "late_release =
     [Move 0, Move 0, Release 0, Move 0, Tick 11,
      Move 1, Move 1, Move 1, Move 1, Move 1, Move 0, Move 2, Move 2]"

text \<open>
  C24: A late release breaks the exclusion. There is a history of three commands in which a release deletes the lock that
  another command has meanwhile taken over, and two commands then hold leases that are not over, although
  the release compared the token.
\<close>

theorem late_release_breaks:
  "(lock_step sample_store sample_command False)\<^sup>*\<^sup>* sample_system (fold (happen sample_store sample_command) late_release sample_system)
   \<and> live (fold (happen sample_store sample_command) late_release sample_system) 1
   \<and> live (fold (happen sample_store sample_command) late_release sample_system) 2"
proof (intro conjI)
  show "(lock_step sample_store sample_command False)\<^sup>*\<^sup>* sample_system (fold (happen sample_store sample_command) late_release sample_system)"
    by (rule happen_reach)
  show "live (fold (happen sample_store sample_command) late_release sample_system) 1"
    by code_simp
  show "live (fold (happen sample_store sample_command) late_release sample_system) 2"
    by code_simp
qed

end
