(* ===== verification/Registration_Throttle.thy ===== *)
theory Registration_Throttle
  imports Ids "HOL-Library.Word"
begin

unbundle bit_operations_syntax

text \<open>
  The ceiling on registrations without a pre-auth key: \<open>pipette-httpapi/src/registration_throttle.rs\<close>.
  The address of a request is the entry of \<open>X-Forwarded-For\<close> that the outermost trusted proxy wrote,
  and a fixed window counts the admissions of all clients and of each one, an IPv6 network of 64 bits
  being one client.

  Addresses are words, and the parser of the standard library is written out. The values of the header come as the
  list that \<open>HeaderMap::get_all\<close> returns, and reading a value as text is an argument, both being code
  of the \<open>http\<close> crate. A lock serialises the admissions; time is that of the process's clock.
\<close>

section \<open>Addresses\<close>

datatype ip_addr = V4 "32 word" | V6 "128 word"

text \<open>\<open>IpAddr::to_canonical\<close>: an IPv4 address mapped into IPv6 is that IPv4 address.\<close>

definition v4_mapped :: "128 word \<Rightarrow> bool" where
  "v4_mapped a \<longleftrightarrow> drop_bit 32 a = 0xFFFF"

fun to_canonical :: "ip_addr \<Rightarrow> ip_addr" where
  "to_canonical (V4 a) = V4 a"
| "to_canonical (V6 a) = (if v4_mapped a then V4 (ucast a) else V6 a)"

definition client_key :: "ip_addr \<Rightarrow> ip_addr" where
  "client_key ip = (case to_canonical ip of V6 v6 \<Rightarrow> V6 (v6 AND push_bit 64 (- 1)) | V4 v4 \<Rightarrow> V4 v4)"

subsection \<open>Reading an address\<close>

definition to_digit :: "int \<Rightarrow> char \<Rightarrow> int option" where
  "to_digit radix c =
     (let n = of_char c :: int;
          d = if 48 \<le> n \<and> n \<le> 57 then n - 48
              else if 97 \<le> n \<and> n \<le> 122 then n - 87
              else if 65 \<le> n \<and> n \<le> 90 then n - 55
              else 36
      in if d < radix then Some d else None)"

fun read_digits :: "int \<Rightarrow> string \<Rightarrow> int list \<times> string" where
  "read_digits radix [] = ([], [])"
| "read_digits radix (c # s) =
     (case to_digit radix c of None \<Rightarrow> ([], c # s) | Some d \<Rightarrow> apfst ((#) d) (read_digits radix s))"

definition read_number :: "int \<Rightarrow> nat \<Rightarrow> bool \<Rightarrow> int \<Rightarrow> string \<Rightarrow> (int \<times> string) option" where
  "read_number radix max_digits allow_zero_prefix bound s =
     (let (ds, rest) = read_digits radix s; n = foldl (\<lambda>n d. n * radix + d) 0 ds
      in if ds = [] \<or> max_digits < length ds \<or> (\<not> allow_zero_prefix \<and> hd ds = 0 \<and> 1 < length ds) \<or> bound \<le> n
         then None else Some (n, rest))"

definition read_separator :: "char \<Rightarrow> nat \<Rightarrow> (string \<Rightarrow> ('a \<times> string) option) \<Rightarrow> string \<Rightarrow> ('a \<times> string) option" where
  "read_separator sep i inner s =
     (if i = 0 then inner s else case s of [] \<Rightarrow> None | c # rest \<Rightarrow> if c = sep then inner rest else None)"

fun read_octets :: "nat list \<Rightarrow> int \<Rightarrow> string \<Rightarrow> (int \<times> string) option" where
  "read_octets [] n s = Some (n, s)"
| "read_octets (i # is) n s =
     (case read_separator CHR ''.'' i (read_number 10 3 False 256) s of
        None \<Rightarrow> None
      | Some (octet, rest) \<Rightarrow> read_octets is (n * 256 + octet) rest)"

definition read_ipv4_addr :: "string \<Rightarrow> (int \<times> string) option" where
  "read_ipv4_addr s = read_octets [0, 1, 2, 3] 0 s"

text \<open>The groups that are read, whether they end in an IPv4 address, and the rest.\<close>

function read_groups :: "nat \<Rightarrow> nat \<Rightarrow> string \<Rightarrow> int list \<times> bool \<times> string" where
  "read_groups limit i s =
     (if limit \<le> i then ([], False, s)
      else case (if i + 1 < limit then read_separator CHR '':'' i read_ipv4_addr s else None) of
        Some (v4, rest) \<Rightarrow> ([v4 div 65536, v4 mod 65536], True, rest)
      | None \<Rightarrow>
          (case read_separator CHR '':'' i (read_number 16 4 True 65536) s of
             None \<Rightarrow> ([], False, s)
           | Some (g, rest) \<Rightarrow> apfst ((#) g) (read_groups limit (i + 1) rest)))"
  by pat_completeness auto

termination
  by (relation "measure (\<lambda>(limit, i, s). limit - i)") auto

definition read_ipv6_addr :: "string \<Rightarrow> (int list \<times> string) option" where
  "read_ipv6_addr s =
     (let (head, head_ipv4, rest) = read_groups 8 0 s in
      if length head = 8 then Some (head, rest)
      else if head_ipv4 then None
      else if take 2 rest = ''::'' then
        (let (tail, _, rest') = read_groups (7 - length head) 0 (drop 2 rest)
         in Some (head @ replicate (8 - length head - length tail) 0 @ tail, rest'))
      else None)"

definition parse_ip :: "string \<Rightarrow> ip_addr option" where
  "parse_ip s =
     (case read_ipv4_addr s of
        Some (n, rest) \<Rightarrow> if rest = [] then Some (V4 (word_of_int n)) else None
      | None \<Rightarrow>
          (case read_ipv6_addr s of
             Some (groups, rest) \<Rightarrow>
               if rest = [] then Some (V6 (word_of_int (foldl (\<lambda>n g. n * 65536 + g) 0 groups))) else None
           | None \<Rightarrow> None))"

section \<open>The address of a request\<close>

text \<open>\<open>str::split\<close> at a character.\<close>

fun split_at :: "char \<Rightarrow> string \<Rightarrow> string list" where
  "split_at c [] = [[]]"
| "split_at c (x # xs) =
     (if x = c then [] # split_at c xs
      else case split_at c xs of [] \<Rightarrow> [[x]] | part # parts \<Rightarrow> (x # part) # parts)"

definition client_ip :: "('h \<Rightarrow> string option) \<Rightarrow> 'h list \<Rightarrow> ip_addr option \<Rightarrow> nat \<Rightarrow> ip_addr option" where
  "client_ip to_str forwarded_for peer hops =
     (if hops = 0 then peer
      else let nth_from_right = hops - 1;
               entries = concat (map (split_at CHR '','') (List.map_filter to_str forwarded_for))
           in if nth_from_right < length entries then parse_ip (trim (rev entries ! nth_from_right)) else None)"

section \<open>The window\<close>

definition KEYLESS_REGISTRATIONS_PER_WINDOW :: nat where "KEYLESS_REGISTRATIONS_PER_WINDOW = 20"

definition KEYLESS_REGISTRATIONS_PER_CLIENT :: nat where "KEYLESS_REGISTRATIONS_PER_CLIENT = 1"

definition WINDOW :: time where "WINDOW = 60 * second"

record window =
  w_start :: time
  w_admitted :: nat
  w_by_client :: "ip_addr \<Rightarrow> nat option"

definition registration_throttle_new :: "time \<Rightarrow> window" where
  "registration_throttle_new now = \<lparr>w_start = now, w_admitted = 0, w_by_client = Map.empty\<rparr>"

text \<open>\<open>saturating_duration_since\<close>: an earlier instant is no time ago.\<close>

definition since :: "time \<Rightarrow> time \<Rightarrow> time" where
  "since now start = max 0 (now - start)"

text \<open>The window an admission is counted in.\<close>

definition current_window :: "time \<Rightarrow> window \<Rightarrow> window" where
  "current_window now w = (if WINDOW \<le> since now (w_start w) then registration_throttle_new now else w)"

definition from_client :: "ip_addr option \<Rightarrow> window \<Rightarrow> nat" where
  "from_client key w =
     (case key of None \<Rightarrow> 0 | Some k \<Rightarrow> (case w_by_client w k of None \<Rightarrow> 0 | Some n \<Rightarrow> n))"

text \<open>An admission, or the seconds of \<open>Retry-After\<close>.\<close>

definition admit_at :: "ip_addr option \<Rightarrow> time \<Rightarrow> window \<Rightarrow> (time, unit) result \<times> window" where
  "admit_at client now w0 =
     (let w = current_window now w0; key = map_option client_key client in
      if KEYLESS_REGISTRATIONS_PER_WINDOW \<le> w_admitted w \<or> KEYLESS_REGISTRATIONS_PER_CLIENT \<le> from_client key w then
        (Inl (max 0 (WINDOW - since now (w_start w)) div second + 1), w)
      else
        (Inr (), w\<lparr>w_admitted := w_admitted w + 1,
            w_by_client := (case key of None \<Rightarrow> w_by_client w | Some k \<Rightarrow> (w_by_client w)(k \<mapsto> from_client key w + 1))\<rparr>))"

text \<open>The admissions of a sequence of requests.\<close>

fun admissions :: "window \<Rightarrow> (ip_addr option \<times> time) list \<Rightarrow> (ip_addr option \<times> time) list" where
  "admissions w [] = []"
| "admissions w ((client, now) # requests) =
     (let (r, w') = admit_at client now w
      in (if is_ok r then [(client, now)] else []) @ admissions w' requests)"

section \<open>One client is one address or one network\<close>

lemma high_mask: "(a :: 128 word) AND push_bit 64 (- 1) = push_bit 64 (drop_bit 64 a)"
  by (rule bit_word_eqI) (auto simp: bit_simps)

lemma client_key_eq:
  "client_key (V4 a) = client_key (V4 b) \<longleftrightarrow> a = b"
  "client_key (V6 c) = client_key (V4 b) \<longleftrightarrow> v4_mapped c \<and> ucast c = b"
  "\<not> v4_mapped c \<Longrightarrow> \<not> v4_mapped d \<Longrightarrow> client_key (V6 c) = client_key (V6 d) \<longleftrightarrow> drop_bit 64 c = drop_bit 64 d"
proof -
  have "drop_bit 64 c = drop_bit 64 d" if "push_bit 64 (drop_bit 64 c) = push_bit 64 (drop_bit 64 d)"
  proof (rule bit_word_eqI)
    fix n assume "n < LENGTH(128)"
    from that have "bit (push_bit 64 (drop_bit 64 c)) (64 + n) = bit (push_bit 64 (drop_bit 64 d)) (64 + n)"
      by simp
    then show "bit (drop_bit 64 c) n = bit (drop_bit 64 d) n"
      using bit_imp_le_length [of c "64 + n"] bit_imp_le_length [of d "64 + n"] by (auto simp: bit_simps)
  qed
  moreover have "client_key (V6 x) = V6 (push_bit 64 (drop_bit 64 x))" if "\<not> v4_mapped x" for x
    unfolding client_key_def to_canonical.simps if_not_P [OF that] ip_addr.case high_mask ..
  ultimately show "\<not> v4_mapped c \<Longrightarrow> \<not> v4_mapped d \<Longrightarrow> client_key (V6 c) = client_key (V6 d) \<longleftrightarrow> drop_bit 64 c = drop_bit 64 d"
    by auto
qed (auto simp: client_key_def)

section \<open>The address is the proxy's\<close>

lemma split_at_not_Nil: "split_at c s \<noteq> []"
  by (induction s) (auto split: list.split)

lemma split_at_plain: "c \<notin> set s \<Longrightarrow> split_at c s = [s]"
  by (induction s) auto

lemma split_at_append: "split_at c (a @ c # b) = split_at c a @ split_at c b"
  by (induction a) (auto simp: split_at_not_Nil split: list.split)

lemma split_at_appended:
  assumes "\<forall>a\<in>set addrs. c \<notin> set a"
  shows "split_at c (s @ concat (map ((#) c) addrs)) = split_at c s @ addrs"
  using assms
proof (induction addrs arbitrary: s)
  case (Cons a addrs)
  have "split_at c (s @ concat (map ((#) c) (a # addrs))) = split_at c ((s @ c # a) @ concat (map ((#) c) addrs))"
    by simp
  also have "\<dots> = split_at c (s @ c # a) @ addrs"
    using Cons.prems by (intro Cons.IH) simp
  finally show ?case
    using Cons.prems by (simp add: split_at_append split_at_plain)
qed simp



section \<open>The rate of admissions\<close>

text \<open>The table holds admitted clients only, so it never outgrows the ceiling.\<close>

definition window_ok :: "window \<Rightarrow> bool" where
  "window_ok w \<longleftrightarrow> w_admitted w \<le> KEYLESS_REGISTRATIONS_PER_WINDOW
     \<and> (\<forall>k. from_client (Some k) w \<le> KEYLESS_REGISTRATIONS_PER_CLIENT)
     \<and> finite (dom (w_by_client w)) \<and> card (dom (w_by_client w)) \<le> w_admitted w"

lemma new_ok: "window_ok (registration_throttle_new now)"
  by (simp add: window_ok_def registration_throttle_new_def from_client_def)

lemma current_ok: "window_ok w \<Longrightarrow> window_ok (current_window now w)"
  by (simp add: current_window_def new_ok)

lemma from_client_counted:
  "from_client (Some k) (w\<lparr>w_admitted := n, w_by_client := (w_by_client w)(k' \<mapsto> m)\<rparr>) = (if k = k' then m else from_client (Some k) w)"
  by (simp add: from_client_def)

lemma admit_ok:
  assumes "window_ok w"
  shows "window_ok (snd (admit_at client now w))"
proof -
  have ok: "window_ok (current_window now w)"
    using assms by (rule current_ok)
  then show ?thesis
  proof (cases client)
    case None
    with ok show ?thesis
      by (auto simp: admit_at_def Let_def window_ok_def from_client_def)
  next
    case (Some ip)
    have "card (insert k (dom (w_by_client (current_window now w)))) \<le> w_admitted (current_window now w) + 1" for k
      using ok by (auto simp: window_ok_def card_insert_if)
    with ok Some show ?thesis
      by (auto simp: admit_at_def Let_def window_ok_def from_client_counted)
  qed
qed

lemma window_pos: "0 < WINDOW"
  by (simp add: WINDOW_def second_def)

lemma current_idem: "current_window now (current_window now w) = current_window now w"
  using window_pos by (simp add: current_window_def registration_throttle_new_def since_def)

lemma admit_current: "admit_at client now (current_window now w) = admit_at client now w"
  by (simp add: admit_at_def current_idem)

lemma admit_start: "w_start (snd (admit_at client now w)) = w_start (current_window now w)"
  by (simp add: admit_at_def Let_def)

lemma fresh_admits: "WINDOW \<le> since now (w_start w) \<Longrightarrow> fst (admit_at client now w) = Inr ()"
  by (cases client) (simp_all add: admit_at_def current_window_def registration_throttle_new_def from_client_def
      KEYLESS_REGISTRATIONS_PER_WINDOW_def KEYLESS_REGISTRATIONS_PER_CLIENT_def Let_def)

lemma admit_refused: "admit_at client now w = (Inl secs, w') \<Longrightarrow> current_window now w = w \<and> w' = w"
  using fresh_admits [of now w client] by (auto simp: current_window_def admit_at_def Let_def split: if_splits)

lemma admissions_among: "set (admissions w requests) \<subseteq> set requests"
proof (induction requests arbitrary: w)
  case (Cons request requests)
  then show ?case
    by (cases request) (auto simp: Let_def case_prod_unfold dest: subsetD)
qed simp

lemma admissions_all: "\<forall>q\<in>set requests. P q \<Longrightarrow> q \<in> set (admissions w requests) \<Longrightarrow> P q"
  using admissions_among by blast

text \<open>An admission of a window that is not over takes from what is left of a share.\<close>

locale share =
  fixes counted :: "ip_addr option \<Rightarrow> bool" and left :: "window \<Rightarrow> nat" and full :: nat
  assumes left_full: "window_ok w \<Longrightarrow> left w \<le> full"
    and admission: "window_ok w \<Longrightarrow> current_window now w = w \<Longrightarrow> admit_at client now w = (Inr (), w') \<Longrightarrow>
      left w' + of_bool (counted client) \<le> left w"
begin

lemma admit_left:
  assumes "window_ok w" "current_window now w = w" "admit_at client now w = (r, w')"
  shows "left w' + of_bool (is_ok r \<and> counted client) \<le> left w"
proof (cases r)
  case (Inl secs)
  with admit_refused [of client now w secs w'] assms(3) show ?thesis
    by (simp add: is_ok_def)
next
  case (Inr u)
  with admission [OF assms(1,2), of client w'] assms(3) show ?thesis
    by (cases "counted client") (simp_all add: is_ok_def)
qed

lemma within_window:
  assumes "window_ok w" "sorted (map snd requests)" "u \<le> w_start w + WINDOW"
  shows "length (filter (\<lambda>(client, now). counted client \<and> now < u) (admissions w requests)) \<le> left w"
  using assms
proof (induction requests arbitrary: w)
  case (Cons request requests)
  obtain client now where request: "request = (client, now)"
    by (cases request)
  show ?case
  proof (cases "now < u")
    case True
    have still: "current_window now w = w"
      using True Cons.prems(3) window_pos by (auto simp: current_window_def since_def)
    obtain r w' where run: "admit_at client now w = (r, w')"
      by fastforce
    have "window_ok w'" "w_start w' = w_start w"
      using admit_ok [OF Cons.prems(1), of client now] admit_start [of client now w] run still by simp_all
    then have "length (filter (\<lambda>(client, now). counted client \<and> now < u) (admissions w' requests)) \<le> left w'"
      using Cons by simp
    with admit_left [OF Cons.prems(1) still run] show ?thesis
      by (cases "is_ok r \<and> counted client") (auto simp: request run)
  next
    case False
    then have "\<forall>q\<in>set (request # requests). \<not> snd q < u"
      using Cons.prems(2) request by fastforce
    from admissions_all [OF this, of _ w]
    have "filter (\<lambda>(client, now). counted client \<and> now < u) (admissions w (request # requests)) = []"
      by (auto simp: filter_empty_conv simp del: admissions.simps)
    then show ?thesis
      by simp
  qed
qed simp

lemma within_span:
  assumes "window_ok w" "sorted (map snd requests)" "\<forall>q\<in>set requests. t \<le> snd q"
  shows "length (filter (\<lambda>(client, now). counted client \<and> now < t + WINDOW) (admissions w requests)) \<le> left w + full"
  using assms
proof (induction requests arbitrary: w)
  case (Cons request requests)
  obtain client now where request: "request = (client, now)"
    by (cases request)
  obtain r w' where run: "admit_at client now w = (r, w')"
    by fastforce
  show ?case
  proof (cases "current_window now w = w")
    case True
    have "length (filter (\<lambda>(client, now). counted client \<and> now < t + WINDOW) (admissions w' requests)) \<le> left w' + full"
      using Cons admit_ok [OF Cons.prems(1), of client now] run by simp
    with admit_left [OF Cons.prems(1) True run] show ?thesis
      by (cases "is_ok r \<and> counted client") (auto simp: request run)
  next
    case False
    then have new: "current_window now w = registration_throttle_new now"
      by (auto simp: current_window_def)
    have "admissions w (request # requests) = admissions (registration_throttle_new now) (request # requests)"
      using admit_current [of client now w] by (simp add: request new)
    moreover have span: "t + WINDOW \<le> w_start (registration_throttle_new now) + WINDOW"
      using Cons.prems(3) by (simp add: request registration_throttle_new_def)
    ultimately show ?thesis
      using within_window [OF new_ok Cons.prems(2) span] left_full [OF new_ok, of now]
      by (simp del: admissions.simps)
  qed
qed simp

lemma any_span:
  assumes "window_ok w" "sorted (map snd requests)"
  shows "length (filter (\<lambda>(client, now). counted client \<and> t \<le> now \<and> now < t + WINDOW) (admissions w requests)) \<le> 2 * full"
  using assms
proof (induction requests arbitrary: w)
  case (Cons request requests)
  obtain client now where request: "request = (client, now)"
    by (cases request)
  show ?case
  proof (cases "t \<le> now")
    case True
    then have all: "\<forall>q\<in>set (request # requests). t \<le> snd q"
      using Cons.prems(2) request by fastforce
    have "filter (\<lambda>(client, now). counted client \<and> t \<le> now \<and> now < t + WINDOW) (admissions w (request # requests))
        = filter (\<lambda>(client, now). counted client \<and> now < t + WINDOW) (admissions w (request # requests))"
      using admissions_all [OF all, of _ w] by (intro filter_cong refl) (auto simp del: admissions.simps)
    then show ?thesis
      using within_span [OF Cons.prems all] left_full [OF Cons.prems(1)] by simp
  next
    case False
    obtain r w' where run: "admit_at client now w = (r, w')"
      by fastforce
    with False Cons admit_ok [OF Cons.prems(1), of client now] show ?thesis
      by (simp add: request)
  qed
qed simp

end

interpretation everyone: share "\<lambda>_. True" "\<lambda>w. KEYLESS_REGISTRATIONS_PER_WINDOW - w_admitted w" KEYLESS_REGISTRATIONS_PER_WINDOW
  by unfold_locales (auto simp: admit_at_def Let_def split: if_splits)

interpretation one_client: share "\<lambda>client. map_option client_key client = Some k"
    "\<lambda>w. KEYLESS_REGISTRATIONS_PER_CLIENT - from_client (Some k) w" KEYLESS_REGISTRATIONS_PER_CLIENT for k
  by unfold_locales (auto simp: admit_at_def Let_def from_client_counted from_client_def split: if_splits option.splits)

text \<open>
  C25: A ceiling on the rate. Of requests that come in the order of the clock, at most forty are admitted
  in any sixty seconds, wherever the windows fall, and at most two of one client, that is of one IPv4 address or
  one IPv6 network of 64 bits; and the table of clients never holds more than twenty.
\<close>

theorem throttle_rate:
  assumes "window_ok w" "sorted (map snd requests)"
  shows "length (filter (\<lambda>(client, now). t \<le> now \<and> now < t + WINDOW) (admissions w requests)) \<le> 40
    \<and> length (filter (\<lambda>(client, now). map_option client_key client = Some k \<and> t \<le> now \<and> now < t + WINDOW) (admissions w requests)) \<le> 2
    \<and> card (dom (w_by_client (snd (admit_at client now w)))) \<le> 20"
proof (intro conjI)
  show "length (filter (\<lambda>(client, now). t \<le> now \<and> now < t + WINDOW) (admissions w requests)) \<le> 40"
    using everyone.any_span [OF assms, of t] by (simp add: KEYLESS_REGISTRATIONS_PER_WINDOW_def)
  show "length (filter (\<lambda>(client, now). map_option client_key client = Some k \<and> t \<le> now \<and> now < t + WINDOW) (admissions w requests)) \<le> 2"
    using one_client.any_span [OF assms, of k t] by (simp add: KEYLESS_REGISTRATIONS_PER_CLIENT_def)
  show "card (dom (w_by_client (snd (admit_at client now w)))) \<le> 20"
    using admit_ok [OF assms(1), of client now] by (simp add: window_ok_def KEYLESS_REGISTRATIONS_PER_WINDOW_def)
qed


definition sample_requests :: "(ip_addr option \<times> time) list" where
  "sample_requests = (Some (V6 1), 0) # (Some (V6 2), second) # replicate 20 (None, 59 * second) @ replicate 20 (None, 60 * second)"

theorem throttle_rate_witness:
  "length (filter (\<lambda>(client, now). second \<le> now \<and> now < second + WINDOW)
     (admissions (registration_throttle_new 0) sample_requests)) = 39
   \<and> length (filter (\<lambda>(client, now). second \<le> now \<and> now < second + WINDOW)
     (admissions (registration_throttle_new 0) sample_requests)) \<le> 40
   \<and> length (filter (\<lambda>(client, now). map_option client_key client = Some (client_key (V6 1)) \<and> 0 \<le> now \<and> now < 0 + WINDOW)
     (admissions (registration_throttle_new 0) sample_requests)) \<le> 2"
proof -
  have sorted: "sorted (map snd sample_requests)"
    by code_simp
  have "length (filter (\<lambda>(client, now). second \<le> now \<and> now < second + WINDOW)
     (admissions (registration_throttle_new 0) sample_requests)) = 39"
    by code_simp
  then show ?thesis
    using throttle_rate [OF new_ok sorted, of second] throttle_rate [OF new_ok sorted, of 0] by blast
qed


end
