(* ===== verification/Plan_Merge.thy ===== *)
theory Plan_Merge
  imports Plan_Lifecycle
begin

text \<open>
  Where the job of a filed cell comes from: the merge pass of \<open>pipette-pipeline/src/plan_ingestion.rs\<close>. A unit
  of equal cells mints a job, or joins the queued job that a content key names. A join writes the membership marker of the plan
  first and looks for the job again afterwards, so that a teardown sees the marker or the join sees the job gone. The
  units of one ingest overlap in the code; here they follow each other, and the steps of one between the calls of
  another are like those of any other process. What a unit inherits from a superseded plan is an argument.
\<close>

section \<open>Placements\<close>

datatype merge_kind = WithinPlan | AcrossPlans | Carried | Satisfied

record join_target =
  jt_job_id :: job_id
  jt_expires_at :: expires_at
  jt_kind :: merge_kind
  jt_settled :: bool

datatype placed = Fresh | Join join_target

datatype join_attempt = Joined join_target | Declined | Stale

datatype target_state = Live expires_at | LiveUnreadable | Absent

datatype inherited =
    I_Nothing
  | I_Job job_id
  | I_Rerun "job_id option"
  | I_Recalculate job_id
  | I_Answered job_id
  | I_Satisfied job_id

record merge_unit =
  u_lead :: nat
  u_horizon :: expires_at
  u_candidate :: job_id
  u_digest :: string

record merge_context =
  mc_plan_id :: plan_id
  mc_now :: time
  mc_creating_max_age :: time

text \<open>The deadlines of the leased jobs, listed at most once in an ingest.\<close>

type_synonym leased_deadlines = "job_id \<Rightarrow> expires_at option"

type_synonym snapshot = "leased_deadlines option"

section \<open>What the queue says of a job\<close>

definition leased_expiries :: "ext \<Rightarrow> leased_deadlines io" where
  "leased_expiries x =
     io_bind list_leased (\<lambda>keys.
       io_ret (map_of (rev (map (\<lambda>l. (l_job_id l, l_expires_at l)) (List.map_filter (\<lambda>k. ok (parse_leased_key x k)) keys)))))"

definition avail_state :: "ext \<Rightarrow> job_id \<Rightarrow> target_state option io" where
  "avail_state x j =
     io_bind (avail_key_for_job j) (\<lambda>name.
       io_ret (case name of
           None \<Rightarrow> None
         | Some n \<Rightarrow>
             Some (case parse_avail_filename x n of Inr (_, e) \<Rightarrow> Live e | Inl _ \<Rightarrow> LiveUnreadable)))"

definition get_or_list :: "ext \<Rightarrow> snapshot \<Rightarrow> leased_deadlines io" where
  "get_or_list x snap = (case snap of Some d \<Rightarrow> io_ret d | None \<Rightarrow> leased_expiries x)"

definition official_state :: "ext \<Rightarrow> snapshot \<Rightarrow> job_id \<Rightarrow> (target_state \<times> snapshot) io" where
  "official_state x snap j =
     io_bind (avail_state x j) (\<lambda>a.
       case a of
         Some st \<Rightarrow> io_ret (st, snap)
       | None \<Rightarrow>
           io_bind (get_or_list x snap) (\<lambda>snapshot.
             case snapshot j of
               Some e \<Rightarrow> io_ret (Live e, Some snapshot)
             | None \<Rightarrow>
                 io_bind (leased_expiries x) (\<lambda>leased.
                   case leased j of
                     Some e \<Rightarrow> io_ret (Live e, Some snapshot)
                   | None \<Rightarrow>
                       io_bind (avail_state x j) (\<lambda>a.
                         io_ret (case a of Some st \<Rightarrow> st | None \<Rightarrow> Absent, Some snapshot)))))"

definition target_survives :: "ext \<Rightarrow> job_id \<Rightarrow> bool io" where
  "target_survives x j =
     io_bind (avail_state x j) (\<lambda>a.
       if a \<noteq> None then io_ret True
       else io_bind (leased_expiries x) (\<lambda>leased.
         if leased j \<noteq> None then io_ret True
         else io_bind (avail_state x j) (\<lambda>a.
           if a \<noteq> None then io_ret True else has_record j)))"

section \<open>Joining\<close>

definition record_for :: "merge_context \<Rightarrow> job_id \<Rightarrow> content_key_record" where
  "record_for ctx j = \<lparr>ck_job_id = j, ck_plan_id = mc_plan_id ctx, ck_created_at = mc_now ctx\<rparr>"

definition classify_absent :: "merge_context \<Rightarrow> content_key_record \<Rightarrow> join_attempt" where
  "classify_absent ctx r =
     (if past_gate (ck_created_at r) (mc_now ctx) (mc_creating_max_age ctx) then Stale else Declined)"

text \<open>The marker, then a fresh look; a job that is gone takes the marker with it, if that works.\<close>

definition join_live :: "ext \<Rightarrow> merge_context \<Rightarrow> job_id \<Rightarrow> expires_at \<Rightarrow> bool io" where
  "join_live x ctx j horizon =
     io_bind (write_job_plan_marker x j (mc_plan_id ctx) horizon) (\<lambda>_.
     io_bind (target_survives x j) (\<lambda>survives.
       if survives then io_ret True
       else io_bind (attempt (delete_job_plan_marker x j (mc_plan_id ctx) horizon)) (\<lambda>_. io_ret False)))"

definition try_join ::
  "ext \<Rightarrow> merge_context \<Rightarrow> snapshot \<Rightarrow> content_key_record \<Rightarrow> expires_at \<Rightarrow> (join_attempt \<times> snapshot) io" where
  "try_join x ctx snap r plan_expiry =
     (let target = ck_job_id r in
      io_bind (official_state x snap target) (\<lambda>(st, snap).
        case st of
          LiveUnreadable \<Rightarrow> io_ret (Declined, snap)
        | Absent \<Rightarrow> io_ret (classify_absent ctx r, snap)
        | Live official \<Rightarrow>
            io_bind utc_now (\<lambda>now.
              if is_expired official now then io_ret (classify_absent ctx r, snap)
              else io_bind (join_live x ctx target plan_expiry) (\<lambda>joined.
                io_ret (if joined then Joined \<lparr>jt_job_id = target, jt_expires_at = official, jt_kind = AcrossPlans, jt_settled = False\<rparr>
                  else Stale, snap)))))"

definition replace_stale ::
  "ext \<Rightarrow> merge_context \<Rightarrow> snapshot \<Rightarrow> string \<Rightarrow> content_key_record \<Rightarrow> job_id \<Rightarrow> expires_at \<Rightarrow> (placed \<times> snapshot) io" where
  "replace_stale x ctx snap digest version candidate plan_expiry =
     io_bind (replace_content_key x digest version (record_for ctx candidate)) (\<lambda>cas.
       case cas of
         Applied \<Rightarrow> io_ret (Fresh, snap)
       | Lost \<Rightarrow>
           io_bind (read_content_key digest) (\<lambda>r.
             case r of
               None \<Rightarrow> io_ret (Fresh, snap)
             | Some r \<Rightarrow>
                 io_bind (try_join x ctx snap r plan_expiry) (\<lambda>(attempted, snap).
                   io_ret (case attempted of Joined t \<Rightarrow> Join t | _ \<Rightarrow> Fresh, snap))))"

definition resolve ::
  "ext \<Rightarrow> merge_context \<Rightarrow> snapshot \<Rightarrow> string \<Rightarrow> content_key_record \<Rightarrow> job_id \<Rightarrow> expires_at \<Rightarrow> (placed \<times> snapshot) io" where
  "resolve x ctx snap digest r candidate plan_expiry =
     io_bind (try_join x ctx snap r plan_expiry) (\<lambda>(attempted, snap).
       case attempted of
         Joined t \<Rightarrow> io_ret (Join t, snap)
       | Declined \<Rightarrow> io_ret (Fresh, snap)
       | Stale \<Rightarrow> replace_stale x ctx snap digest r candidate plan_expiry)"

definition claim_digest_for ::
  "ext \<Rightarrow> merge_context \<Rightarrow> snapshot \<Rightarrow> string \<Rightarrow> job_id \<Rightarrow> expires_at \<Rightarrow> (placed \<times> snapshot) io" where
  "claim_digest_for x ctx snap digest candidate plan_expiry =
     io_bind (create_content_key x digest (record_for ctx candidate)) (\<lambda>c.
       case c of
         K_Created \<Rightarrow> io_ret (Fresh, snap)
       | K_AlreadyExists r \<Rightarrow> resolve x ctx snap digest r candidate plan_expiry)"

definition claim_unmerged :: "ext \<Rightarrow> merge_context \<Rightarrow> string \<Rightarrow> job_id \<Rightarrow> placed io" where
  "claim_unmerged x ctx digest candidate =
     io_bind (create_content_key x digest (record_for ctx candidate)) (\<lambda>_. io_ret Fresh)"

definition carried :: "job_id \<Rightarrow> expires_at \<Rightarrow> bool \<Rightarrow> placed" where
  "carried j e settled = Join \<lparr>jt_job_id = j, jt_expires_at = e, jt_kind = Carried, jt_settled = settled\<rparr>"

definition carry :: "ext \<Rightarrow> merge_context \<Rightarrow> snapshot \<Rightarrow> job_id \<Rightarrow> expires_at \<Rightarrow> (placed option \<times> snapshot) io" where
  "carry x ctx snap j horizon =
     io_bind (has_record j) (\<lambda>recorded.
       if recorded then io_ret (Some (carried j horizon True), snap)
       else io_bind (official_state x snap j) (\<lambda>(st, snap).
         case st of
           Absent \<Rightarrow>
             io_bind (has_record j) (\<lambda>recorded.
               io_ret (if recorded then Some (carried j horizon True) else None, snap))
         | LiveUnreadable \<Rightarrow> io_ret (None, snap)
         | Live official \<Rightarrow>
             io_bind utc_now (\<lambda>now.
               if is_expired official now then io_ret (None, snap)
               else io_bind (join_live x ctx j horizon) (\<lambda>joined.
                 io_ret (if joined then Some (carried j official False) else None, snap)))))"

definition place_indexed ::
  "ext \<Rightarrow> merge_context \<Rightarrow> snapshot \<Rightarrow> merge_unit \<Rightarrow> json \<Rightarrow> (placed \<times> snapshot) io" where
  "place_indexed x ctx snap u body =
     (if \<not> mergeable body then
        io_bind (claim_unmerged x ctx (u_digest u) (u_candidate u)) (\<lambda>p. io_ret (p, snap))
      else io_bind (read_content_key (u_digest u)) (\<lambda>r.
        case r of
          None \<Rightarrow> claim_digest_for x ctx snap (u_digest u) (u_candidate u) (u_horizon u)
        | Some r \<Rightarrow> resolve x ctx snap (u_digest u) r (u_candidate u) (u_horizon u)))"

definition place ::
  "ext \<Rightarrow> merge_context \<Rightarrow> snapshot \<Rightarrow> merge_unit \<Rightarrow> json \<Rightarrow> inherited \<Rightarrow> (placed \<times> snapshot) io" where
  "place x ctx snap u body inherited =
     (case inherited of
        I_Job j \<Rightarrow>
          io_bind (carry x ctx snap j (u_horizon u)) (\<lambda>(p, snap).
            case p of Some p \<Rightarrow> io_ret (p, snap) | None \<Rightarrow> place_indexed x ctx snap u body)
      | I_Rerun _ \<Rightarrow> io_bind (claim_unmerged x ctx (u_digest u) (u_candidate u)) (\<lambda>p. io_ret (p, snap))
      | I_Recalculate _ \<Rightarrow> io_ret (Fresh, snap)
      | I_Answered j \<Rightarrow> io_ret (carried j (u_horizon u) True, snap)
      | I_Satisfied j \<Rightarrow>
          io_ret (Join \<lparr>jt_job_id = j, jt_expires_at = u_horizon u, jt_kind = Satisfied, jt_settled = True\<rparr>, snap)
      | I_Nothing \<Rightarrow> place_indexed x ctx snap u body)"

section \<open>A join is held, and never of a job that is gone\<close>

text \<open>The files that say a job is queued or recorded, and the files an action may create.\<close>

definition names_job :: "ext \<Rightarrow> job_id \<Rightarrow> path \<Rightarrow> bool" where
  "names_job x j p \<longleftrightarrow>
     fst p = D_avail \<and> below j (snd p) \<noteq> None
     \<or> fst p = D_leased \<and>
         (case split_once CHR ''/'' (snd p) of
            Some (c, r) \<Rightarrow>
              (case parse_leased_key x (c @ ''/'' @ fst (entry_of r)) of Inr l \<Rightarrow> l_job_id l = j | Inl _ \<Rightarrow> False)
          | None \<Rightarrow> False)
     \<or> record_job p = Some j"

definition gone :: "ext \<Rightarrow> job_id \<Rightarrow> fs \<Rightarrow> bool" where
  "gone x j s \<longleftrightarrow> list_all (\<lambda>p. \<not> names_job x j p) (paths s)"

fun creates :: "act \<Rightarrow> path option" where
  "creates (A_move _ q) = Some q"
| "creates (A_publish p _) = Some p"
| "creates (A_restore p _) = Some p"
| "creates (A_record p _) = Some p"
| "creates (A_put p _) = Some p"
| "creates _ = None"

text \<open>The others neither revive the job nor delete a marker of the plan.\<close>

definition leaves_join :: "ext \<Rightarrow> plan_id \<Rightarrow> expires_at \<Rightarrow> job_id \<Rightarrow> act \<Rightarrow> bool" where
  "leaves_join x p horizon j a \<longleftrightarrow>
     (case creates a of None \<Rightarrow> True | Some q \<Rightarrow> \<not> names_job x j q)
     \<and> (case a of A_del (D_job_plans, k) \<Rightarrow> \<not> ends_with (''/'' @ job_plan_marker_filename x p horizon) k | _ \<Rightarrow> True)"

lemma gone_iff: "gone x j s \<longleftrightarrow> (\<forall>p. present s p \<longrightarrow> \<not> names_job x j p)"
  by (auto simp: gone_def list_all_iff present_iff)

lemma present_perform_created: "present (perform a s) p \<Longrightarrow> present s p \<or> creates a = Some p"
  by (cases a) (auto simp: present_def lookup_mv split: if_splits option.splits)

lemma upheld_gone: "upheld (leaves_join x p h j) (gone x j)"
  unfolding upheld_def gone_iff leaves_join_def using present_perform_created by fastforce

lemma blind_gone: "blind {p. \<not> names_job x j p} (gone x j)"
  unfolding blind_def gone_iff present_def by (metis mem_Collect_eq)

lemma chl_fold_acc:
  "(\<And>a b. a \<in> set as \<Longrightarrow> chl A (I b) (f a b) I E) \<Longrightarrow> chl A (I b) (io_fold f as b) I E"
  by (induction as arbitrary: b) (auto intro!: chl_ret chl_bind)

lemma first_json_mem: "first_json es = Inr (Some n) \<Longrightarrow> \<exists>d. Inr (n, d) \<in> set es"
  by (induction es rule: first_json.induct) (auto split: if_splits)

lemma avail_state_gone:
  assumes P: "upheld A P" "\<And>s. P s \<Longrightarrow> gone x j s"
  shows "chl A P (avail_state x j) (\<lambda>r s. P s \<and> r = None) P"
proof -
  have none: "first_json es \<noteq> Inr (Some n)"
    if s: "P s" "\<And>e. Inr e \<in> set es \<Longrightarrow> e \<in> set (entries s D_avail j)" for s es n
  proof
    assume "first_json es = Inr (Some n)"
    from first_json_mem [OF this] s(2) obtain d where "(n, d) \<in> set (entries s D_avail j)"
      by blast
    then obtain k l where "present s (D_avail, k)" "below j k = Some l"
      unfolding set_entries by blast
    then show False
      using P(2) [OF s(1)] by (auto simp: gone_iff names_job_def)
  qed
  have "chl A P (read_dir D_avail j) (\<lambda>es s. P s \<and> (\<forall>n. first_json es \<noteq> Inr (Some n))) P"
    by (rule chl_listing [OF P(1)]) (use none in blast)
  from chl_vanished [OF this] have "chl A P (avail_key_for_job j) (\<lambda>r s. P s \<and> r = None) P"
    unfolding avail_key_for_job_def
  proof (rule chl_bind)
    show "chl A (\<lambda>s. P s \<and> (\<forall>a. r = Some a \<longrightarrow> (\<forall>n. first_json a \<noteq> Inr (Some n))))
      (case r of None \<Rightarrow> io_ret None | Some es \<Rightarrow> io_bind (io_lift (first_json es)) (\<lambda>n. io_ret (map_option (\<lambda>n. j @ ''/'' @ n) n)))
      (\<lambda>r s. P s \<and> r = None) P" for r
      by (cases r) (auto intro!: chl_ret chl_bind [OF chl_lift [where Q = "\<lambda>n s. P s \<and> n = None"]])
  qed
  then show ?thesis
    unfolding avail_state_def by (rule chl_bind) (auto intro: chl_ret)
qed

lemma below_Some: "c \<noteq> [] \<Longrightarrow> below c k = Some r \<Longrightarrow> k = c @ ''/'' @ r"
  by (auto simp: below_def starts_with_def split: if_splits) (metis append_take_drop_id append.assoc append_Cons append_Nil)

lemma entry_no_slash: "CHR ''/'' \<notin> set (fst (entry_of r))"
proof (cases "split_once CHR ''/'' r")
  case None
  then show ?thesis
    using split_once_None_iff [of "CHR ''/''" r] by (simp add: entry_of_def)
next
  case (Some p)
  then show ?thesis
    using split_once_Some_iff [of "CHR ''/''" r "fst p" "snd p"] by (simp add: entry_of_def case_prod_unfold)
qed

lemma nobody_leases: "parse_leased_key x (''/'' @ n) \<noteq> Inr l"
  by (auto simp: parse_leased_key_def res_bind_Inr_iff split_once_Some_iff Cons_eq_append_conv id_from_key_def client_id_try_new_def
      check_client_id_def check_id_charset_def)

definition of_other :: "ext \<Rightarrow> job_id \<Rightarrow> string \<Rightarrow> bool" where
  "of_other x j k \<longleftrightarrow> (\<forall>l. parse_leased_key x k = Inr l \<longrightarrow> l_job_id l \<noteq> j)"

lemma leased_by_other:
  assumes "gone x j s" "(n, d) \<in> set (entries s D_leased c)" "CHR ''/'' \<notin> set c"
  shows "of_other x j (c @ ''/'' @ n)"
proof (cases "c = []")
  case False
  from assms(2) obtain r where "present s (D_leased, c @ ''/'' @ r)" "n = fst (entry_of r)"
    using below_Some [OF False] unfolding set_entries by (metis fst_conv)
  moreover have "split_once CHR ''/'' (c @ ''/'' @ r) = Some (c, r)"
    using assms(3) by (simp add: split_once_Some_iff)
  ultimately show ?thesis
    using assms(1) by (fastforce simp: gone_iff names_job_def of_other_def)
qed (use nobody_leases in \<open>simp add: of_other_def\<close>)

lemma read_leaves_gone:
  assumes P: "upheld A P" "\<And>s. P s \<Longrightarrow> gone x j s" and c: "CHR ''/'' \<notin> set c"
  shows "chl A P (read_leaves D_leased c) (\<lambda>ls s. P s \<and> (\<forall>ns. ls = Some ns \<longrightarrow> (\<forall>n \<in> set (json_names ns). of_other x j (c @ ''/'' @ n)))) P"
proof -
  let ?N = "\<lambda>ns. \<forall>n \<in> set (json_names ns). of_other x j (c @ ''/'' @ n)"
  let ?Q = "\<lambda>es. \<forall>ns. all_readable es = Inr ns \<longrightarrow> ?N ns"
  have "chl A P (read_dir D_leased c) (\<lambda>es s. P s \<and> ?Q es) P"
  proof (rule chl_listing [OF P(1)], intro allI ballI impI)
    fix s es ns n
    assume s: "P s" "\<And>e. Inr e \<in> set es \<Longrightarrow> e \<in> set (entries s D_leased c)"
      and ns: "all_readable es = Inr ns" "n \<in> set (json_names ns)"
    from ns(2) obtain d where "(n, d) \<in> set ns"
      by (auto simp: json_names_def)
    from leased_by_other [OF P(2) [OF s(1)] s(2) [OF all_readable_mem [OF ns(1) this]] c]
    show "of_other x j (c @ ''/'' @ n)" .
  qed
  from chl_vanished [OF this] show ?thesis
    unfolding read_leaves_def
  proof (rule chl_bind)
    show "chl A (\<lambda>s. P s \<and> (\<forall>a. r = Some a \<longrightarrow> ?Q a))
      (case r of None \<Rightarrow> io_ret None | Some es \<Rightarrow> io_bind (io_lift (all_readable es)) (\<lambda>es. io_ret (Some es)))
      (\<lambda>ls s. P s \<and> (\<forall>ns. ls = Some ns \<longrightarrow> ?N ns)) P" for r
      by (cases r) (auto intro!: chl_ret chl_bind [OF chl_lift [where Q = "\<lambda>ns s. P s \<and> ?N ns"]])
  qed
qed

lemma list_leased_gone:
  assumes P: "upheld A P" "\<And>s. P s \<Longrightarrow> gone x j s"
  shows "chl A P list_leased (\<lambda>keys s. P s \<and> (\<forall>k \<in> set keys. of_other x j k)) P"
  unfolding list_leased_def
proof (rule chl_bind)
  let ?plain = "\<lambda>es. \<forall>c d. Inr (c, d) \<in> set es \<longrightarrow> CHR ''/'' \<notin> set c"
  show "chl A P (read_dir D_leased []) (\<lambda>es s. P s \<and> ?plain es) P"
  proof (rule chl_listing [OF P(1)], intro allI impI)
    fix s c d and es :: "(io_kind, string \<times> bool) result list"
    assume "\<And>e. Inr e \<in> set es \<Longrightarrow> e \<in> set (entries s D_leased [])" "Inr (c, d) \<in> set es"
    then have "(c, d) \<in> set (entries s D_leased [])"
      by blast
    then show "CHR ''/'' \<notin> set c"
      unfolding set_entries by (metis entry_no_slash fst_conv)
  qed
  fix es :: "(io_kind, string \<times> bool) result list"
  let ?I = "\<lambda>keys s. P s \<and> (\<forall>k \<in> set keys. of_other x j k)"
  let ?body = "\<lambda>e keys. case e of Inl k \<Rightarrow> io_raise (E_io k)
    | Inr (client, is_dir) \<Rightarrow> if \<not> is_dir then io_ret keys else io_bind (read_leaves D_leased client) (\<lambda>ls.
        case ls of None \<Rightarrow> io_ret keys | Some ls \<Rightarrow> io_ret (keys @ map (\<lambda>n. client @ ''/'' @ n) (json_names ls)))"
  have client: "chl A (?I keys) (io_bind (read_leaves D_leased c) (\<lambda>ls.
        case ls of None \<Rightarrow> io_ret keys | Some ls \<Rightarrow> io_ret (keys @ map (\<lambda>n. c @ ''/'' @ n) (json_names ls)))) ?I P"
    if "CHR ''/'' \<notin> set c" for c keys
    by (rule chl_pure, rule chl_bind [OF read_leaves_gone [OF P that]]) (auto intro!: chl_ret split: option.split)
  have step: "chl A (?I keys) (?body e keys) ?I P" if "?plain es" "e \<in> set es" for e keys
    using that client by (cases e) (auto intro!: chl_ret chl_raise split: prod.split)
  have "chl A (?I []) (io_fold ?body es []) ?I P" if "?plain es"
    by (rule chl_fold_acc [where I = ?I]) (rule step [OF that])
  then show "chl A (\<lambda>s. P s \<and> ?plain es) (io_fold ?body es []) ?I P"
    by (intro chl_pure) simp
qed

lemma leased_expiries_gone:
  assumes "upheld A P" "\<And>s. P s \<Longrightarrow> gone x j s"
  shows "chl A P (leased_expiries x) (\<lambda>d s. P s \<and> d j = None) P"
  unfolding leased_expiries_def
proof (rule chl_bind [OF list_leased_gone [OF assms]])
  show "chl A (\<lambda>s. P s \<and> (\<forall>k \<in> set keys. of_other x j k))
    (io_ret (map_of (rev (map (\<lambda>l. (l_job_id l, l_expires_at l)) (List.map_filter (\<lambda>k. ok (parse_leased_key x k)) keys)))))
    (\<lambda>d s. P s \<and> d j = None) P" for keys
  proof (rule chl_ret)
    fix s
    assume s: "P s \<and> (\<forall>k \<in> set keys. of_other x j k)"
    have "l_job_id l \<noteq> j" if "l \<in> set (List.map_filter (\<lambda>k. ok (parse_leased_key x k)) keys)" for l
    proof -
      from that obtain k where k: "k \<in> set keys" "ok (parse_leased_key x k) = Some l"
        by (auto simp: set_map_filter)
      then have "parse_leased_key x k = Inr l"
        by (simp add: ok_def split: sum.splits)
      with k(1) s show ?thesis
        by (auto simp: of_other_def)
    qed
    then have "j \<notin> l_job_id ` set (List.map_filter (\<lambda>k. ok (parse_leased_key x k)) keys)"
      by blast
    with s show "P s \<and> map_of (rev (map (\<lambda>l. (l_job_id l, l_expires_at l)) (List.map_filter (\<lambda>k. ok (parse_leased_key x k)) keys))) j = None"
      by (simp add: map_of_eq_None_iff image_image)
  qed
qed

text \<open>The look after the marker finds no job that is gone.\<close>

lemma gone_record: "gone x j s \<Longrightarrow> record_job p = Some j \<Longrightarrow> \<not> present s p"
  unfolding gone_iff names_job_def by blast

lemma has_record_gone:
  assumes P: "upheld A P" "\<And>s. P s \<Longrightarrow> gone x j s"
  shows "chl A P (has_record j) (\<lambda>b s. P s \<and> \<not> b) P"
proof -
  have probe: "chl A P (any_exists ps) (\<lambda>b s. P s \<and> \<not> b) P" if "\<forall>p \<in> set ps. record_job p = Some j" for ps
    using that
  proof (induction ps)
    case (Cons p ps)
    have absent: "\<not> present s p" if "P s" for s
      by (rule gone_record [OF P(2) [OF that]]) (simp add: Cons.prems)
    have "chl A P (try_exists p) (\<lambda>b s. P s \<and> \<not> b) P"
      unfolding try_exists_def
      by (rule chl_sys [OF P(1)]) (use absent in auto)
    then show ?case
      unfolding any_exists.simps(2) by (rule chl_bind) (rule chl_pure, use Cons in simp)
  qed (auto intro: chl_ret)
  show ?thesis
    unfolding has_record_def record_paths_def
    by (rule probe) (simp add: record_job_def submission_path_def processed_path_def)
qed

lemma target_survives_gone:
  assumes P: "upheld A P" "\<And>s. P s \<Longrightarrow> gone x j s"
  shows "chl A P (target_survives x j) (\<lambda>b s. P s \<and> \<not> b) P"
proof -
  have unrecorded: "chl A P (has_record j) (\<lambda>b s. P s \<and> \<not> b) P"
    by (rule has_record_gone [OF P(1)]) (rule P(2))
  have avail: "chl A P (avail_state x j) (\<lambda>r s. P s \<and> r = None) P"
    by (rule avail_state_gone [OF P(1)]) (rule P(2))
  have leased: "chl A P (leased_expiries x) (\<lambda>d s. P s \<and> d j = None) P"
    by (rule leased_expiries_gone [OF P(1)]) (rule P(2))
  have last: "chl A P (io_bind (avail_state x j) (\<lambda>a. if a \<noteq> None then io_ret True else has_record j)) (\<lambda>b s. P s \<and> \<not> b) P"
    by (rule chl_bind [OF avail]) (rule chl_pure, simp add: unrecorded)
  have "chl A P (io_bind (leased_expiries x) (\<lambda>leased. if leased j \<noteq> None then io_ret True
      else io_bind (avail_state x j) (\<lambda>a. if a \<noteq> None then io_ret True else has_record j))) (\<lambda>b s. P s \<and> \<not> b) P"
    by (rule chl_bind [OF leased]) (rule chl_pure, simp add: last del: not_None_eq)
  then show ?thesis
    unfolding target_survives_def by (intro chl_bind [OF avail] chl_pure) (simp del: not_None_eq)
qed

text \<open>The merge pass writes markers and content keys.\<close>

lemma within_lookups [within_intros]:
  "within S (avail_state x j)" "within S (leased_expiries x)" "within S (get_or_list x snap)" "within S (has_record j)"
proof -
  show avail: "within S (avail_state x j)"
    unfolding avail_state_def avail_key_for_job_def by (auto intro!: within_intros split: option.split)
  show leased: "within S (leased_expiries x)"
    unfolding leased_expiries_def list_leased_def read_leaves_def
    by (auto intro!: within_intros within_fold split: option.split sum.split prod.split)
  show "within S (get_or_list x snap)"
    unfolding get_or_list_def using leased by (auto intro!: within_intros split: option.split)
  show "within S (has_record j)"
    unfolding has_record_def record_paths_def by (auto intro!: within_intros)
qed

lemma within_official_state [within_intros]: "within S (official_state x snap j)"
  unfolding official_state_def by (auto intro!: within_intros split: option.split)

lemma within_target_survives [within_intros]: "within S (target_survives x j)"
  unfolding target_survives_def by (auto intro!: within_intros)

lemma within_hard_link: "q \<in> S \<Longrightarrow> within S (hard_link p q)"
  unfolding hard_link_def by (rule within_sys) (auto split: option.splits if_splits)

lemma within_guard: "tmp \<in> S \<Longrightarrow> within S m \<Longrightarrow> within S (with_tmp_guard tmp m)"
  unfolding with_tmp_guard_def by (auto intro!: within_intros within_remove split: sum.split)

lemma within_content_keys:
  assumes "{D_content_keys} \<times> UNIV \<subseteq> S"
  shows "within S (create_content_key x digest r)" "within S (replace_content_key x digest v r)"
proof -
  have "(D_content_keys, k) \<in> S" for k
    using assms by blast
  then have S: "content_key_path digest \<in> S" "tmp_sibling (D_content_keys, []) u \<in> S" for u
    by (simp_all add: content_key_path_def tmp_sibling_def)
  have "within S (claim_digest n tmp digest)" for n tmp
    by (induction n) (auto intro!: within_intros within_hard_link S split: option.split)
  then show "within S (create_content_key x digest r)"
    unfolding create_content_key_def Let_def by (intro within_intros within_guard within_write_file S)
  show "within S (replace_content_key x digest v r)"
    unfolding replace_content_key_def by (auto intro!: within_intros within_replace S)
qed

text \<open>What a join holds: the marker of the plan, and the job is not one that is gone.\<close>

abbreviation marker_of :: "ext \<Rightarrow> plan_id \<Rightarrow> expires_at \<Rightarrow> job_id \<Rightarrow> path" where
  "marker_of x p h i \<equiv> job_plan_path x i p h"

definition holds_join :: "ext \<Rightarrow> plan_id \<Rightarrow> expires_at \<Rightarrow> job_id \<Rightarrow> bool \<Rightarrow> placed \<Rightarrow> fs \<Rightarrow> bool" where
  "holds_join x p h j dead r s \<longleftrightarrow>
     (case r of
        Fresh \<Rightarrow> True
      | Join t \<Rightarrow> (jt_settled t \<or> present s (marker_of x p h (jt_job_id t))) \<and> (dead \<longrightarrow> jt_job_id t \<noteq> j))"

definition still_gone :: "ext \<Rightarrow> job_id \<Rightarrow> bool \<Rightarrow> fs \<Rightarrow> bool" where
  "still_gone x j dead s \<longleftrightarrow> (dead \<longrightarrow> gone x j s)"

lemma upheld_still_gone: "upheld (leaves_join x p h j) (still_gone x j dead)"
  using upheld_gone by (auto simp: upheld_def still_gone_def)

lemma upheld_marker: "upheld (leaves_join x p h j) (\<lambda>s. present s (marker_of x p h i))"
proof -
  have "leaves_join x p h j a \<Longrightarrow> a \<noteq> A_del (marker_of x p h i)" for a
    by (auto simp: leaves_join_def job_plan_path_def ends_with_def)
  then show ?thesis
    using present_perform_other [OF _ job_plan_path_other] by (auto simp: upheld_def)
qed

lemma upheld_joined: "upheld (leaves_join x p h j) (\<lambda>s. still_gone x j dead s \<and> present s (marker_of x p h i))"
  using upheld_still_gone upheld_marker by (auto simp: upheld_def)

lemma merge_dirs: "fst q \<in> {D_job_plans, D_content_keys} \<Longrightarrow> \<not> names_job x j q"
  by (auto simp: names_job_def record_job_def)

lemma blind_still_gone: "blind ({D_job_plans, D_content_keys} \<times> UNIV) (still_gone x j dead)"
proof -
  have "{D_job_plans, D_content_keys} \<times> UNIV \<subseteq> {q. \<not> names_job x j q}"
    using merge_dirs by fastforce
  from blind_mono [OF blind_gone this] show ?thesis
    by (auto simp: blind_def still_gone_def)
qed

lemma merge_keeps:
  "within ({D_job_plans, D_content_keys} \<times> UNIV) m \<Longrightarrow>
   chl (leaves_join x p h j) (still_gone x j dead) m (\<lambda>_. still_gone x j dead) (still_gone x j dead)"
  by (rule withinD [OF _ upheld_still_gone blind_still_gone])

lemma look_keeps:
  "within {} m \<Longrightarrow> chl (leaves_join x p h j) (\<lambda>s. still_gone x j dead s \<and> present s q) m
     (\<lambda>_ s. still_gone x j dead s \<and> present s q) (\<lambda>s. still_gone x j dead s \<and> present s q)"
  if "upheld (leaves_join x p h j) (\<lambda>s. still_gone x j dead s \<and> present s q)"
  by (rule withinD [OF _ that]) (auto intro!: blind_conj blind_present blind_mono [OF blind_still_gone])

lemma still_gone_marker: "still_gone x j dead s \<Longrightarrow> still_gone x j dead (put (marker_of x p h i) c s)"
  using blind_still_gone [of x j dead] unfolding blind_def
  by (elim allE [of _ s] allE [of _ "put (marker_of x p h i) c s"] impE) (auto simp: job_plan_path_def)

lemma write_marker_joined:
  "chl (leaves_join x p h j) (still_gone x j dead) (write_job_plan_marker x i p h)
     (\<lambda>_ s. still_gone x j dead s \<and> present s (marker_of x p h i)) (still_gone x j dead)"
proof -
  let ?A = "leaves_join x p h j" and ?I = "still_gone x j dead"
  let ?J = "\<lambda>s. ?I s \<and> present s (marker_of x p h i)"
  have put: "chl ?A ?I (write_file (marker_of x p h i) C_empty) (\<lambda>_. ?J) ?I"
    by (rule chl_write_file [OF upheld_still_gone upheld_still_gone]) (auto intro: still_gone_marker simp: present_def)
  have rest: "chl ?A (\<lambda>s. case r of Inl _ \<Rightarrow> ?I s | Inr _ \<Rightarrow> ?J s)
      (case r of Inr _ \<Rightarrow> io_ret () | Inl e \<Rightarrow> if e = E_io K_NotFound then write_file (marker_of x p h i) C_empty else io_raise e)
      (\<lambda>_. ?J) ?I" for r :: "(err, unit) result"
    using put by (cases r) (auto intro!: chl_ret chl_raise)
  show ?thesis
    unfolding write_job_plan_marker_def by (rule chl_bind [OF chl_attempt [OF put] rest])
qed

lemma join_live_holds:
  "chl (leaves_join x (mc_plan_id ctx) h j) (still_gone x j dead) (join_live x ctx i h)
     (\<lambda>b s. still_gone x j dead s \<and> (b \<longrightarrow> present s (marker_of x (mc_plan_id ctx) h i) \<and> (dead \<longrightarrow> i \<noteq> j))) (still_gone x j dead)"
proof -
  let ?p = "mc_plan_id ctx"
  let ?A = "leaves_join x ?p h j" and ?I = "still_gone x j dead"
  let ?J = "\<lambda>s. ?I s \<and> present s (marker_of x ?p h i)"
  have look: "chl ?A ?J (target_survives x i) (\<lambda>b s. ?J s \<and> (b \<longrightarrow> dead \<longrightarrow> i \<noteq> j)) ?J"
  proof (cases "dead \<and> i = j")
    case True
    have "chl ?A ?J (target_survives x i) (\<lambda>b s. ?J s \<and> \<not> b) ?J"
      by (rule target_survives_gone [OF upheld_joined]) (use True in \<open>auto simp: still_gone_def\<close>)
    then show ?thesis
      by (rule chl_conseq) auto
  next
    case False
    have "chl ?A ?J (target_survives x i) (\<lambda>_. ?J) ?J"
      by (rule look_keeps [OF upheld_joined]) (rule within_intros)
    then show ?thesis
      by (rule chl_conseq) (use False in auto)
  qed
  have drop: "chl ?A ?I (attempt (delete_job_plan_marker x i ?p h)) (\<lambda>_. ?I) ?I"
    unfolding delete_job_plan_marker_def
    by (rule merge_keeps, rule within_attempt, rule within_remove_idempotent) (simp add: job_plan_path_def)
  let ?Q = "\<lambda>b s. ?I s \<and> (b \<longrightarrow> present s (marker_of x ?p h i) \<and> (dead \<longrightarrow> i \<noteq> j))"
  have "chl ?A (\<lambda>s. ?J s \<and> (b \<longrightarrow> dead \<longrightarrow> i \<noteq> j)) (if b then io_ret True
      else io_bind (attempt (delete_job_plan_marker x i ?p h)) (\<lambda>_. io_ret False)) ?Q ?I" for b
    using chl_bind [OF chl_conseq [OF drop, where P' = ?J] chl_ret [where Q = ?Q and a = False]]
    by (cases b) (auto intro!: chl_ret)
  from chl_bind [OF chl_conseq [OF look] this] show ?thesis
    unfolding join_live_def by (intro chl_bind [OF write_marker_joined]) auto
qed

text \<open>A placement that keeps what it promises.\<close>

definition keeps_join :: "ext \<Rightarrow> plan_id \<Rightarrow> expires_at \<Rightarrow> job_id \<Rightarrow> bool \<Rightarrow> (placed \<times> snapshot) io \<Rightarrow> bool" where
  "keeps_join x p h j dead m \<longleftrightarrow>
     chl (leaves_join x p h j) (still_gone x j dead) m
       (\<lambda>r s. still_gone x j dead s \<and> holds_join x p h j dead (fst r) s) (still_gone x j dead)"

lemma keeps_join_fresh: "keeps_join x p h j dead (io_ret (Fresh, snap))"
  unfolding keeps_join_def by (rule chl_ret) (simp add: holds_join_def)

lemma keeps_join_after:
  "within ({D_job_plans, D_content_keys} \<times> UNIV) m \<Longrightarrow> (\<And>a. keeps_join x p h j dead (k a)) \<Longrightarrow> keeps_join x p h j dead (io_bind m k)"
  unfolding keeps_join_def by (rule chl_bind [OF merge_keeps])

lemma try_join_holds:
  "chl (leaves_join x (mc_plan_id ctx) h j) (still_gone x j dead) (try_join x ctx snap r h)
     (\<lambda>q s. still_gone x j dead s \<and> (\<forall>t. fst q = Joined t \<longrightarrow> holds_join x (mc_plan_id ctx) h j dead (Join t) s)) (still_gone x j dead)"
  unfolding try_join_def Let_def
proof (rule chl_bind [OF merge_keeps])
  let ?A = "leaves_join x (mc_plan_id ctx) h j" and ?I = "still_gone x j dead"
  let ?Q = "\<lambda>q s. ?I s \<and> (\<forall>t. fst q = Joined t \<longrightarrow> holds_join x (mc_plan_id ctx) h j dead (Join t) s)"
  have none: "chl ?A ?I (io_ret (Declined, snap)) ?Q ?I" "chl ?A ?I (io_ret (classify_absent ctx r, snap)) ?Q ?I" for snap :: snapshot
    by (rule chl_ret, simp add: classify_absent_def)+
  have live: "chl ?A ?I (io_bind (join_live x ctx (ck_job_id r) h) (\<lambda>joined. io_ret
      (if joined then Joined \<lparr>jt_job_id = ck_job_id r, jt_expires_at = e, jt_kind = AcrossPlans, jt_settled = False\<rparr> else Stale, snap))) ?Q ?I"
    for e and snap :: snapshot
    by (rule chl_bind [OF join_live_holds]) (auto intro!: chl_ret simp: holds_join_def)
  show "chl ?A ?I (case q of (st, snap) \<Rightarrow> case st of
      LiveUnreadable \<Rightarrow> io_ret (Declined, snap)
    | Absent \<Rightarrow> io_ret (classify_absent ctx r, snap)
    | Live official \<Rightarrow> io_bind utc_now (\<lambda>now.
        if is_expired official now then io_ret (classify_absent ctx r, snap)
        else io_bind (join_live x ctx (ck_job_id r) h) (\<lambda>joined. io_ret
          (if joined then Joined \<lparr>jt_job_id = ck_job_id r, jt_expires_at = official, jt_kind = AcrossPlans, jt_settled = False\<rparr>
           else Stale, snap)))) ?Q ?I" for q :: "target_state \<times> snapshot"
    by (auto intro!: none live chl_bind [OF chl_now] split: prod.split target_state.split)
qed (rule within_intros)

lemma carry_holds:
  "chl (leaves_join x (mc_plan_id ctx) h j) (still_gone x j dead) (carry x ctx snap i h)
     (\<lambda>q s. still_gone x j dead s \<and> (\<forall>r. fst q = Some r \<longrightarrow> holds_join x (mc_plan_id ctx) h j dead r s)) (still_gone x j dead)"
proof -
  let ?A = "leaves_join x (mc_plan_id ctx) h j" and ?I = "still_gone x j dead"
  let ?Q = "\<lambda>q s. ?I s \<and> (\<forall>r. fst q = Some r \<longrightarrow> holds_join x (mc_plan_id ctx) h j dead r s)"
  have probe: "chl ?A ?I (has_record i) (\<lambda>b s. ?I s \<and> (b \<longrightarrow> dead \<longrightarrow> i \<noteq> j)) ?I"
  proof (cases "dead \<and> i = j")
    case True
    have "chl ?A ?I (has_record i) (\<lambda>b s. ?I s \<and> \<not> b) ?I"
      by (rule has_record_gone [OF upheld_still_gone]) (use True in \<open>auto simp: still_gone_def\<close>)
    then show ?thesis
      by (rule chl_conseq) auto
  next
    case False
    from merge_keeps [OF within_lookups(4)] show ?thesis
      by (rule chl_conseq) (use False in auto)
  qed
  have none: "chl ?A ?I (io_ret (None, snap)) ?Q ?I" for snap :: snapshot
    by (rule chl_ret) simp
  have recorded: "chl ?A (\<lambda>s. ?I s \<and> (b \<longrightarrow> dead \<longrightarrow> i \<noteq> j)) (io_ret (if b then Some (carried i h True) else None, snap)) ?Q ?I"
    for b and snap :: snapshot
    by (rule chl_ret) (simp add: holds_join_def carried_def)
  have live: "chl ?A ?I (io_bind (join_live x ctx i h) (\<lambda>joined. io_ret (if joined then Some (carried i e False) else None, snap))) ?Q ?I"
    for e and snap :: snapshot
    by (rule chl_bind [OF join_live_holds]) (auto intro!: chl_ret simp: holds_join_def carried_def)
  have look: "chl ?A ?I (io_bind (official_state x snap i) (\<lambda>(st, snap).
       case st of
         Absent \<Rightarrow> io_bind (has_record i) (\<lambda>recorded. io_ret (if recorded then Some (carried i h True) else None, snap))
       | LiveUnreadable \<Rightarrow> io_ret (None, snap)
       | Live official \<Rightarrow> io_bind utc_now (\<lambda>now.
           if is_expired official now then io_ret (None, snap)
           else io_bind (join_live x ctx i h) (\<lambda>joined. io_ret (if joined then Some (carried i official False) else None, snap))))) ?Q ?I"
    by (rule chl_bind [OF merge_keeps [OF within_official_state]])
      (auto intro!: none live chl_bind [OF probe recorded] chl_bind [OF chl_now] split: prod.split target_state.split)
  then show ?thesis
    unfolding carry_def using recorded [of True snap] by (intro chl_bind [OF probe]) (auto intro: chl_conseq [OF look])
qed

lemma keeps_join_replace: "keeps_join x (mc_plan_id ctx) h j dead (replace_stale x ctx snap digest version candidate h)"
proof -
  have "keeps_join x (mc_plan_id ctx) h j dead (io_bind (try_join x ctx snap r h) (\<lambda>(attempted, snap).
      io_ret (case attempted of Joined t \<Rightarrow> Join t | _ \<Rightarrow> Fresh, snap)))" for r
    unfolding keeps_join_def
    by (rule chl_bind [OF try_join_holds]) (auto intro!: chl_ret simp: holds_join_def split: prod.split join_attempt.split)
  then show ?thesis
    unfolding replace_stale_def
    by (auto intro!: keeps_join_after keeps_join_fresh within_content_keys within_intros split: content_key_cas.split option.split)
qed

lemma keeps_join_resolve: "keeps_join x (mc_plan_id ctx) h j dead (resolve x ctx snap digest r candidate h)"
  unfolding resolve_def keeps_join_def
proof (rule chl_bind [OF try_join_holds])
  let ?p = "mc_plan_id ctx"
  let ?I = "still_gone x j dead" and ?H = "holds_join x ?p h j dead"
  show "chl (leaves_join x ?p h j) (\<lambda>s. ?I s \<and> (\<forall>t. fst q = Joined t \<longrightarrow> ?H (Join t) s))
    (case q of (attempted, snap) \<Rightarrow> case attempted of Joined t \<Rightarrow> io_ret (Join t, snap) | Declined \<Rightarrow> io_ret (Fresh, snap)
     | Stale \<Rightarrow> replace_stale x ctx snap digest r candidate h) (\<lambda>r s. ?I s \<and> ?H (fst r) s) ?I" for q :: "join_attempt \<times> snapshot"
    using keeps_join_fresh [of x ?p h j dead "snd q"] keeps_join_replace [of x ctx h j dead "snd q" digest r candidate]
    unfolding keeps_join_def by (cases q; cases "fst q") (auto intro!: chl_ret)
qed

lemma keeps_join_unmerged: "keeps_join x p h j dead (io_bind (claim_unmerged x ctx d c) (\<lambda>r. io_ret (r, snap)))"
proof -
  have "io_bind (claim_unmerged x ctx d c) (\<lambda>r. io_ret (r, snap))
      = io_bind (create_content_key x d (record_for ctx c)) (\<lambda>_. io_ret (Fresh, snap))"
    by (rule ext) (simp add: claim_unmerged_def io_bind_def io_ret_def split: prod.split sum.split)
  then show ?thesis
    by (auto intro!: keeps_join_after keeps_join_fresh within_content_keys)
qed

lemma keeps_join_indexed: "keeps_join x (mc_plan_id ctx) (u_horizon u) j dead (place_indexed x ctx snap u body)"
proof -
  have "keeps_join x (mc_plan_id ctx) h j dead (claim_digest_for x ctx snap d c h)" for h d c
    unfolding claim_digest_for_def
    by (auto intro!: keeps_join_after keeps_join_fresh keeps_join_resolve within_content_keys split: content_key_claim.split)
  then show ?thesis
    unfolding place_indexed_def by (auto intro!: keeps_join_unmerged keeps_join_after keeps_join_resolve within_intros split: option.split)
qed

lemma keeps_join_settled: "jt_settled t \<Longrightarrow> jt_job_id t \<noteq> j \<Longrightarrow> keeps_join x p h j dead (io_ret (Join t, snap))"
  unfolding keeps_join_def by (rule chl_ret) (simp add: holds_join_def)

lemma keeps_join_place:
  assumes "inherited \<noteq> I_Answered j" "inherited \<noteq> I_Satisfied j"
  shows "keeps_join x (mc_plan_id ctx) (u_horizon u) j dead (place x ctx snap u body inherited)"
proof (cases inherited)
  case (I_Job i)
  let ?A = "leaves_join x (mc_plan_id ctx) (u_horizon u) j" and ?I = "still_gone x j dead"
  let ?H = "holds_join x (mc_plan_id ctx) (u_horizon u) j dead"
  have "chl ?A (\<lambda>s. ?I s \<and> (\<forall>r. fst q = Some r \<longrightarrow> ?H r s))
     (case q of (p, snap) \<Rightarrow> case p of Some p \<Rightarrow> io_ret (p, snap) | None \<Rightarrow> place_indexed x ctx snap u body)
     (\<lambda>r s. ?I s \<and> ?H (fst r) s) ?I" for q :: "placed option \<times> snapshot"
    using keeps_join_indexed [of x ctx u j dead "snd q" body] unfolding keeps_join_def
    by (cases q; cases "fst q") (auto intro!: chl_ret)
  then show ?thesis
    unfolding place_def I_Job inherited.case keeps_join_def by (rule chl_bind [OF carry_holds])
qed (use assms in \<open>auto simp: place_def carried_def intro!: keeps_join_fresh keeps_join_unmerged keeps_join_indexed keeps_join_settled\<close>)

text \<open>
  C20: A join is held, and only of a job that is there. When a placement answers that a unit shares a job without a result, the
  marker by which the plan holds that job is in place, so a teardown of other plans finds it; and a job that had left the
  queue without a record is never joined, though a stale listing of the leases or a content key still names it. This
  is so under faults and whatever the others do, as long as they do not delete the marker or bring the job back.
\<close>

theorem join_sound:
  assumes "inherited \<noteq> I_Answered j" "inherited \<noteq> I_Satisfied j"
    and "sched_ok (leaves_join x (mc_plan_id ctx) (u_horizon u) j) w"
    and "place x ctx snap u body inherited w = (Inr (Join t, snap'), w')"
  shows "(\<not> jt_settled t \<longrightarrow> present (w_fs w') (job_plan_path x (jt_job_id t) (mc_plan_id ctx) (u_horizon u)))
    \<and> (gone x j (w_fs w) \<longrightarrow> jt_job_id t \<noteq> j)"
proof -
  note run = chlD [OF keeps_join_place [OF assms(1,2), unfolded keeps_join_def] assms(3) _ assms(4)]
  have "still_gone x j (gone x j (w_fs w)) (w_fs w)"
    by (simp add: still_gone_def)
  from run [OF this] show ?thesis
    by (auto simp: holds_join_def)
qed

text \<open>A unit joins a queued job that a client claims meanwhile.\<close>

definition filing :: merge_context where
  "filing = \<lparr>mc_plan_id = ''plan-2'', mc_now = 0, mc_creating_max_age = 10\<rparr>"

definition shared_unit :: merge_unit where
  "shared_unit = \<lparr>u_lead = 0, u_horizon = Never, u_candidate = ''job-2'', u_digest = ''d''\<rparr>"

definition joining_world :: world where
  "joining_world = teardown_world
     [(content_key_path ''d'', \<lparr>f_content = C_content_key \<lparr>ck_job_id = ''j1'', ck_plan_id = ''plan-1'', ck_created_at = 0\<rparr>, f_mtime = 0\<rparr>),
      (j1_avail, \<lparr>f_content = C_json JNull, f_mtime = 0\<rparr>)]
     [([], NoFault), ([], NoFault), ([], NoFault), ([A_move j1_avail j1_leased], NoFault)]"

definition joined_placement :: placed where
  "joined_placement = Join \<lparr>jt_job_id = ''j1'', jt_expires_at = Never, jt_kind = AcrossPlans, jt_settled = False\<rparr>"

theorem join_sound_witness:
  "\<not> isl (fst (place sample_ext filing None shared_unit (JObj []) I_Nothing joining_world))
   \<and> fst (projr (fst (place sample_ext filing None shared_unit (JObj []) I_Nothing joining_world))) = joined_placement
   \<and> present (w_fs (snd (place sample_ext filing None shared_unit (JObj []) I_Nothing joining_world)))
       (job_plan_path sample_ext ''j1'' ''plan-2'' Never)"
proof -
  let ?run = "place sample_ext filing None shared_unit (JObj []) I_Nothing joining_world"
  have answer: "\<not> isl (fst ?run)" "fst (projr (fst ?run)) = joined_placement"
    by code_simp+
  then have run: "?run = (Inr (joined_placement, snd (projr (fst ?run))), snd ?run)"
    by (metis prod.collapse sum.collapse(2))
  have "sched_ok (leaves_join sample_ext (mc_plan_id filing) (u_horizon shared_unit) ''j2'') joining_world"
    by code_simp
  from join_sound [OF _ _ this run [unfolded joined_placement_def]] answer show ?thesis
    by (simp add: filing_def shared_unit_def)
qed

end
