(* ===== verification/Spec2Isabelle.thy ===== *)
theory Spec2Isabelle
  imports Isolation Maintenance_Frame Queue_Spec Archive_Order Record_Probe Eval_Worker Storage_Lock Registration_Throttle Plan_Merge
begin

text \<open>
  A verification library of the job queue of pipette-mgmt: the service that hands benchmark jobs to
  devices, takes their results back, settles what no device finishes and scores what they return.
  Paths below are under \<open>src/crates/\<close>; the storage backend is the local file system
  (\<open>pipette-store-fs\<close>).

  \<^bold>\<open>The program.\<close> A job is one file of the queue: under \<open>todo/avail/\<close> it can be claimed, under
  \<open>todo/leased/\<close> a client runs it. Markers say which client may claim which job, which client
  denied which, and which plan a job is in. Devices claim, renew, reclaim and submit over HTTP; a maintenance run
  settles leases and jobs that expired, retires what nobody can run, rebuilds the markers and collects
  garbage. A submission is a record in \<open>incoming/\<close>; two scoring workers move it through \<open>score-queue/\<close>
  and the metric warehouse to \<open>processed/\<close>. There is no lock on the queue: handlers and runs of many processes
  interleave, and what keeps the queue sound is the order of atomic renames, links and unlinks.

  \<^bold>\<open>Data and names.\<close>
  \<^item> \<open>Prelude\<close>, \<open>Json\<close>: results, strings, \<open>serde_json::Value\<close> and its accessors.
  \<^item> \<open>Ids\<close>: ids, instants and deadlines (\<open>pipette-plan-types/src/ids.rs\<close>, \<open>pipette-core/src/types.rs\<close>). The
    formatter and parser of timestamps and the source of fresh UUIDs are the argument \<open>ext\<close>; what is relied on is
    \<open>ext_ok\<close> and \<open>stamps_apart\<close>, which \<open>sample_ext\<close> satisfies.
  \<^item> \<open>Todo_Filename\<close>: every writer and parser of a queue key (\<open>todo_filename.rs\<close>), each pair an
    interpretation of the locale \<open>key_codec\<close>.
  \<^item> \<open>Descriptors\<close>, \<open>Vault\<close>: canonical JSON, the job source that is served, token removal, vault
    references and who may read them.
  \<^item> \<open>Content_Key\<close>: the digests under which equal cells of two plans share a job (\<open>content_key.rs\<close>). The hash is an argument; what
    is relied on of the text of a JSON leaf is \<open>leaves_ok\<close>, which \<open>text_ext\<close> satisfies.
  \<^item> \<open>Clients\<close>, \<open>Matching\<close>: device profiles, permissions and the matcher (\<open>matching.rs\<close>).
  \<^item> \<open>Denial\<close>, \<open>Reason_Text\<close>, \<open>Denial_Summary\<close>: the capped denial record and the summary of a
    roster that denied a job. What three regular expressions match is an argument.

  \<^bold>\<open>Storage.\<close>
  \<^item> \<open>Fs\<close>: the file system as a list of paths with contents and times. A computation is a function on
    worlds; a world carries a schedule that says, for each coming system call, what other processes do just before
    it (\<open>act\<close>) and whether it fails before or after its effect, lists
    unreadable entries or kills the process. A theorem over all schedules covers every interleaving at the
    granularity of system calls, every fault and every crash. A run with an empty schedule is undisturbed.
  \<^item> \<open>Submission_Store\<close>, \<open>Todo_Store\<close>, \<open>Plan_Markers\<close>: the store operations (\<open>pipette-store-fs/src/lib.rs\<close>,
    \<open>storage.rs\<close>), one definition each.
  \<^item> \<open>Plans\<close>, \<open>Plan_Store\<close>: plan manifests (\<open>pipette-core/src/plan.rs\<close>) and the plan store: manifests, cancel markers, content keys,
    plan and job sources, and the outcome that a record of a job holds.
  \<^item> \<open>Warehouse\<close>: appending rows to a day partition (\<open>pipette-core/src/warehouse.rs\<close>).
  \<^item> \<open>Storage_Lock\<close>: the lease lock of the administrative commands on an object store with conditional writes
    (\<open>pipette-store-init/src/storage_lock.rs\<close>), as a transition system of many commands over one object.

  \<^bold>\<open>Handlers and runs.\<close>
  \<^item> \<open>Resolution\<close>, \<open>Device_Api\<close>, \<open>Submit_Api\<close>: settling a lease, claim, heartbeat, reclaim, submission, batch items
    and relinquishment (\<open>pipette-httpapi/src/client/\<close>).
  \<^item> \<open>Maintenance_Settle\<close>, \<open>Maintenance_Index\<close>, \<open>Maintenance_Gc\<close>, \<open>Maintenance_Run\<close>: the passes of a maintenance
    run in their order (\<open>pipette-pipeline/src/queue_maintenance.rs\<close>). The plan passes are a record that the run takes:
    \<open>plan_maintenance\<close>, the code's own, is the one of \<open>Maintenance_Frame\<close>; in the histories of \<open>Queue_System\<close> they are
    \<open>detached\<close>, another process whose effect on the queue is in the schedule.
  \<^item> \<open>Plan_Teardown\<close>, \<open>Plan_Reconcile\<close>: the plan passes of a maintenance run (\<open>pipette-pipeline/src/plan_maintenance.rs\<close>): what
    happens to the jobs of a plan that ends, the status, counts and manifest of every plan, memberships that lapse, and the
    collection of content keys, membership markers and pending sources.
  \<^item> \<open>Plan_Merge\<close>: where the job of a filed cell comes from, a new job or one that another plan has queued
    (\<open>MergeContext\<close> in \<open>pipette-pipeline/src/plan_ingestion.rs\<close>).
  \<^item> \<open>Scoring\<close>: both scoring workers (\<open>pipette-pipeline/src/score.rs\<close>).
  \<^item> \<open>Registration_Throttle\<close>: the address a registration is counted under and the window it is admitted in
    (\<open>pipette-httpapi/src/registration_throttle.rs\<close>).

  \<^bold>\<open>Logics.\<close>
  \<^item> \<open>Interference\<close>: rely/guarantee triples and the locales \<open>guarantee\<close>, \<open>marker_guarantee\<close>, \<open>queue_guarantee\<close>,
    which say what a relation between states must allow so that every store operation keeps it.
    \<open>Resolution\<close> to \<open>Scoring\<close> extend them (\<open>submit_guarantee\<close>, \<open>score_guarantee\<close>) and prove each handler once, inside the
    locale. \<open>Conservation\<close> interprets them on the relations of C1 to C4; \<open>Frame\<close> and \<open>Maintenance_Frame\<close> on
    the relation that leaves one entry alone.
  \<^item> \<open>Queue_System\<close>: requests, their service, steps of the whole system as an inductive relation, and the locale
    \<open>served\<close>, whose rule induction lifts a guarantee to every history.
  \<^item> \<open>Crash_Logic\<close>, \<open>Footprint\<close>: triples with a crash condition and the files a computation may write,
    for code that is the only writer of its files.
  \<^item> \<open>Quiet_Run\<close>: undisturbed runs as functions on the visible files.

  \<^bold>\<open>What is shown.\<close> This theory: at most one entry per job, no job lost, no record lost or overwritten, in every history.
  \<open>Maintenance_Frame\<close> and \<open>Isolation\<close>: a whole maintenance run, its plan passes included, leaves a healthy job whose plans go on alone, requests for other
  clients leave a lease alone. \<open>Queue_Spec\<close>: the store operations refine a map from jobs to entries.
  \<open>Warehouse\<close>, \<open>Archive_Order\<close>: appends are whole and ordered under crashes, and a record is archived only after
  its rows are written. \<open>Eval_Worker\<close>: the eval worker drains its queue and parks what always fails.
  \<open>Record_Probe\<close>: when the probes for a record see one that moves, and two schedules on which they do not.
  \<open>Plan_Teardown\<close>: the teardown of a plan leaves a job that another plan holds; and a schedule on which its restore
  leaves a claimed job with two entries. In a schedule ingestion publishes a job only where it has no entry, as a minted id has none;
  the restore of a teardown is an action of its own (\<open>A_restore\<close>), which the histories of C1 and C2 exclude for their job. \<open>Plan_Lifecycle\<close>: a reconciliation that fails or dies
  leaves the old manifest or a sound new one, keeps a cancel marker while an ingest could undo the cancellation, and
  a lapse is recorded before its marker goes. \<open>Plan_Merge\<close>: a plan that joins a job holds its marker, and no job that is
  gone is joined. \<open>Storage_Lock\<close>: one holder at a time, every acquisition ends, and
  the late release that breaks the first. \<open>Registration_Throttle\<close>: the rate over every minute, the share of one address, and that
  a caller cannot choose the address it is counted under.
  \<open>Content_Key\<close>: canonical JSON identifies content exactly, and bodies with one digest are open to the same clients.
  \<open>Matching\<close>, \<open>Vault\<close>, \<open>Clients\<close>, \<open>Descriptors\<close>, \<open>Todo_Filename\<close>, \<open>Denial\<close>,
  \<open>Denial_Summary\<close>, \<open>Reason_Text\<close>: the functional behaviour of the pure parts.

  \<^bold>\<open>Bounds.\<close> The loops of the maintenance run and of relinquishment are bounded in the code. The page loops of
  the workers and of the listing of plans take a number of pages; running out of it counts as the process being killed, so the theorems over
  all histories do not depend on it, and \<open>Eval_Worker\<close> shows that more pages than jobs are enough.
  Instants are integers of nanoseconds within the years the timestamps can show; part numbers and row
  counts stay below \<open>2 ^ 63\<close>, as a \<open>usize\<close> does. An acquisition of the storage lock makes at most twenty-one moves.

  \<^bold>\<open>Not modelled.\<close> The S3 and SQL backends, HTTP routing and authentication, signatures: they are calls of remote services, frameworks
  and cryptographic libraries. Validation, expansion and staging in plan ingestion, and campaigns: their effect on the queue is a set of actions of the schedule. The planner, catalog imports, the derivation of
  metrics and the scoring service (arguments of the workers), Parquet encoding, operator tools and the user interface.
\<close>

section \<open>Histories of the whole service\<close>



text \<open>
  C2: No job is lost. A job whose body names it, with one entry holding that body, is queued or
  has a record for ever, and an entry of it still holds the body, under every history in which
  the other processes neither tear its plan down, nor publish it with another body, nor put it back.
\<close>

theorem job_never_lost:
  assumes "reaches a (kept_act j b) any_request s t"
    and "filed_under b = Some j" "sole_entry j s" "entries_hold j b s" "queued j s \<or> recorded j s"
  shows "(queued j t \<or> recorded j t) \<and> sole_entry j t \<and> entries_hold j b t"
  using kept.reaches_guarantee [OF assms(1)] assms(2-) by (simp add: kept_rel_def kept_inv_def in_system_def)

theorem job_never_lost_witness:
  "queued ''j1'' sample_queue
   \<and> (queued ''j1'' sample_after \<or> recorded ''j1'' sample_after)
   \<and> sole_entry ''j1'' sample_after \<and> entries_hold ''j1'' (sample_job ''j1'') sample_after"
proof -
  have "reaches sample_app (kept_act ''j1'' (sample_job ''j1'')) any_request sample_queue sample_after"
    by (rule sample_history) (simp, code_simp)
  moreover have "filed_under (sample_job ''j1'') = Some ''j1''" "sole_entry ''j1'' sample_queue"
      "entries_hold ''j1'' (sample_job ''j1'') sample_queue" "queued ''j1'' sample_queue"
    by code_simp+
  ultimately show ?thesis
    using job_never_lost by blast
qed

text \<open>
  C3: Results are never lost, and never taken back. A job with a record, at any stage of scoring,
  has one at least that far for ever, under every history, runs of the scorer's two workers
  included, and from every state.
\<close>

theorem records_stay:
  assumes "reaches a any_act any_request s t" "scored j n s"
  shows "scored j n t"
  using filed.reaches_guarantee [OF assms(1)] assms(2) by (simp add: filed_rel_def advanceD)

theorem records_stay_witness: "scored ''j2'' 0 sample_queue \<and> scored ''j2'' 0 sample_after"
proof
  show here: "scored ''j2'' 0 sample_queue"
    by code_simp
  show "scored ''j2'' 0 sample_after"
    by (rule records_stay [OF sample_history here]) (simp_all add: sched_ok_def list_all_iff)
qed



end
